(* ===== verification/Prelude.thy ===== *)
theory Prelude
  imports Main "HOL-Library.Word" "HOL-Library.AList"
begin

text \<open>
  Shared vocabulary of the development: the machine integers of the C++ code, the shape of an
  operation that may block, the exceptions of the standard library, and the conversions between
  numbers and text that \<^verbatim>\<open>std::format\<close>, \<^verbatim>\<open>std::to_string\<close>, \<^verbatim>\<open>std::stoull\<close>, \<^verbatim>\<open>std::stoi\<close> and
  \<^verbatim>\<open>std::stoll\<close> perform, with the lemmas the component theories share.
\<close>

unbundle bit_operations_syntax

section \<open>Types\<close>

type_synonym int64 = "64 word"
type_synonym uint64 = "64 word"
type_synonym int32 = "32 word"

text \<open>
  The exceptions the modelled code can raise or observe; \<open>what\<close> is the text that
  \<^verbatim>\<open>std::exception::what()\<close> returns.
\<close>

datatype exn = Invalid_argument string | Out_of_range string | Other_exn string

fun what :: "exn \<Rightarrow> string" where
  "what (Invalid_argument s) = s"
| "what (Out_of_range s) = s"
| "what (Other_exn s) = s"

section \<open>Operations on a shared state\<close>

text \<open>
  An operation takes the state and gives its value with the next state, or \<open>None\<close> when the
  calling thread blocks for ever (only \<^verbatim>\<open>ConnectionPool::acquire\<close> can do that).
\<close>

type_synonym ('s, 'a) op = "'s \<Rightarrow> ('a \<times> 's) option"

named_theorems op_simps \<open>unfolding of the operations' combinators\<close>

definition op_return :: "'a \<Rightarrow> ('s, 'a) op" where
  "op_return x = (\<lambda>s. Some (x, s))"

definition op_bind :: "('s, 'a) op \<Rightarrow> ('a \<Rightarrow> ('s, 'b) op) \<Rightarrow> ('s, 'b) op" where
  "op_bind m f = (\<lambda>s. case m s of None \<Rightarrow> None | Some (x, s') \<Rightarrow> f x s')"

lemma op_return_apply [op_simps, simp]: "op_return x s = Some (x, s)"
  by (simp add: op_return_def)

lemma op_bind_Some [op_simps, simp]: "m s = Some (x, s') \<Longrightarrow> op_bind m f s = f x s'"
  by (simp add: op_bind_def)

lemma op_bind_None [op_simps, simp]: "m s = None \<Longrightarrow> op_bind m f s = None"
  by (simp add: op_bind_def)

lemma op_bind_eq_Some:
  "op_bind m f s = Some r \<longleftrightarrow> (\<exists>x s'. m s = Some (x, s') \<and> f x s' = Some r)"
  by (auto simp: op_bind_def split: option.splits)

text \<open>From a state with \<open>P\<close> the operation returns a value with \<open>Q\<close> in a state with \<open>P\<close>.\<close>

definition keeps :: "('s \<Rightarrow> bool) \<Rightarrow> ('a \<Rightarrow> bool) \<Rightarrow> ('s, 'a) op \<Rightarrow> bool" where
  "keeps P Q m \<longleftrightarrow> (\<forall>s. P s \<longrightarrow> (\<exists>x s'. m s = Some (x, s') \<and> P s' \<and> Q x))"

named_theorems keeps_rules \<open>operations composed of operations that keep an invariant\<close>

lemma keepsI: "(\<And>s. P s \<Longrightarrow> \<exists>x s'. m s = Some (x, s') \<and> P s' \<and> Q x) \<Longrightarrow> keeps P Q m"
  by (simp add: keeps_def)

lemma keepsD: "keeps P Q m \<Longrightarrow> P s \<Longrightarrow> \<exists>x s'. m s = Some (x, s') \<and> P s' \<and> Q x"
  by (simp add: keeps_def)

lemma keeps_return [keeps_rules]: "Q x \<Longrightarrow> keeps P Q (op_return x)"
  by (simp add: keeps_def)

lemma keeps_bind [keeps_rules]:
  "keeps P Q m \<Longrightarrow> (\<And>x. Q x \<Longrightarrow> keeps P R (f x)) \<Longrightarrow> keeps P R (op_bind m f)"
  by (fastforce simp: keeps_def)

lemma keeps_case_sum [keeps_rules]:
  "(\<And>e. r = Inl e \<Longrightarrow> keeps P Q (f e)) \<Longrightarrow> (\<And>x. r = Inr x \<Longrightarrow> keeps P Q (g x)) \<Longrightarrow> keeps P Q (case_sum f g r)"
  by (cases r) auto

lemma keeps_case_option [keeps_rules]:
  "(v = None \<Longrightarrow> keeps P Q f) \<Longrightarrow> (\<And>x. v = Some x \<Longrightarrow> keeps P Q (g x)) \<Longrightarrow> keeps P Q (case_option f g v)"
  by (cases v) auto

lemma keeps_if [keeps_rules]:
  "(b \<Longrightarrow> keeps P Q m) \<Longrightarrow> (\<not> b \<Longrightarrow> keeps P Q n) \<Longrightarrow> keeps P Q (if b then m else n)"
  by simp

section \<open>Errors in sequence\<close>

definition sum_bind :: "'e + 'a \<Rightarrow> ('a \<Rightarrow> 'e + 'b) \<Rightarrow> 'e + 'b" where
  "sum_bind r f = (case r of Inl e \<Rightarrow> Inl e | Inr x \<Rightarrow> f x)"

lemma sum_bind_simps [simp]: "sum_bind (Inl e) f = Inl e" "sum_bind (Inr x) f = f x"
  by (simp_all add: sum_bind_def)

lemma sum_bind_eq_Inr: "sum_bind r f = Inr y \<longleftrightarrow> (\<exists>x. r = Inr x \<and> f x = Inr y)"
  by (cases r) auto

lemma sum_bind_eq_Inl: "sum_bind r f = Inl e \<longleftrightarrow> r = Inl e \<or> (\<exists>x. r = Inr x \<and> f x = Inl e)"
  by (cases r) auto

section \<open>Digits\<close>

definition digit_char :: "nat \<Rightarrow> char" where
  "digit_char d = char_of (if d < 10 then 48 + d else 87 + d)"

definition digit_val :: "char \<Rightarrow> nat option" where
  "digit_val c = (let n = of_char c in
     if 48 \<le> n \<and> n \<le> 57 then Some (n - 48)
     else if 97 \<le> n \<and> n \<le> 102 then Some (n - 87)
     else if 65 \<le> n \<and> n \<le> 70 then Some (n - 55)
     else None)"

definition dval :: "char \<Rightarrow> nat" where
  "dval c = (case digit_val c of Some d \<Rightarrow> d | None \<Rightarrow> 0)"

definition is_digit :: "nat \<Rightarrow> char \<Rightarrow> bool" where
  "is_digit b c = (case digit_val c of Some d \<Rightarrow> d < b | None \<Rightarrow> False)"

lemma digit_val_char [simp]: "d < 16 \<Longrightarrow> digit_val (digit_char d) = Some d"
  by (simp add: digit_val_def digit_char_def Let_def)

lemma dval_char [simp]: "d < 16 \<Longrightarrow> dval (digit_char d) = d"
  by (simp add: dval_def)

lemma is_digit_char [simp]: "d < b \<Longrightarrow> b \<le> 16 \<Longrightarrow> is_digit b (digit_char d)"
  by (simp add: is_digit_def)

lemma is_digit_mono: "is_digit b c \<Longrightarrow> b \<le> b' \<Longrightarrow> is_digit b' c"
  by (auto simp: is_digit_def split: option.splits)

text \<open>\<open>show_base b n\<close>: the digits of \<open>n\<close>, most significant first, letters in lower case.\<close>

fun show_base :: "nat \<Rightarrow> nat \<Rightarrow> string" where
  "show_base b n =
     (if b < 2 \<or> n < b then [digit_char n] else show_base b (n div b) @ [digit_char (n mod b)])"

declare show_base.simps [simp del]

definition read_base :: "nat \<Rightarrow> string \<Rightarrow> nat" where
  "read_base b s = foldl (\<lambda>a c. a * b + dval c) 0 s"

definition pad :: "nat \<Rightarrow> string \<Rightarrow> string" where
  "pad w s = replicate (w - length s) (CHR ''0'') @ s"

lemma show_base_nonempty [simp]: "show_base b n \<noteq> []"
  by (subst show_base.simps) simp

lemma show_base_digits: "2 \<le> b \<Longrightarrow> b \<le> 16 \<Longrightarrow> \<forall>c \<in> set (show_base b n). is_digit b c"
proof (induction b n rule: show_base.induct)
  case (1 b n)
  then show ?case
    by (subst show_base.simps) auto
qed

lemma foldl_digits:
  "foldl (\<lambda>a c. a * b + dval c) x s = x * b ^ length s + read_base b s"
proof (induction s arbitrary: x)
  case Nil
  then show ?case by (simp add: read_base_def)
next
  case (Cons c s)
  show ?case
    using Cons[of "x * b + dval c"] Cons[of "dval c"]
    by (simp add: read_base_def algebra_simps)
qed

lemma read_base_append:
  "read_base b (s @ t) = read_base b s * b ^ length t + read_base b t"
proof -
  have "read_base b (s @ t) = foldl (\<lambda>a c. a * b + dval c) (read_base b s) t"
    by (simp add: read_base_def)
  then show ?thesis by (simp add: foldl_digits)
qed

lemma dval_less: "is_digit b c \<Longrightarrow> dval c < b"
  by (simp add: is_digit_def dval_def split: option.splits)

lemma read_base_less: "\<forall>c \<in> set s. is_digit b c \<Longrightarrow> read_base b s < b ^ length s"
proof (induction s rule: rev_induct)
  case (snoc c s)
  have "read_base b (s @ [c]) = read_base b s * b + dval c" by (simp add: read_base_append) (simp add: read_base_def)
  also have "\<dots> < (read_base b s + 1) * b" using dval_less[of b c] snoc.prems by simp
  also have "\<dots> \<le> b ^ length s * b" using snoc by (intro mult_right_mono) auto
  finally show ?case by (simp add: mult.commute)
qed (simp add: read_base_def)

lemma read_base_Nil [simp]: "read_base b [] = 0"
  by (simp add: read_base_def)

lemma read_base_single [simp]: "read_base b [c] = dval c"
  by (simp add: read_base_def)

lemma read_show_base [simp]: "2 \<le> b \<Longrightarrow> b \<le> 16 \<Longrightarrow> read_base b (show_base b n) = n"
proof (induction b n rule: show_base.induct)
  case (1 b n)
  show ?case
  proof (cases "n < b")
    case True
    with 1 show ?thesis by (subst show_base.simps) simp
  next
    case False
    with 1 have ih: "read_base b (show_base b (n div b)) = n div b" by simp
    have "n mod b < b" using 1 by simp
    then have "n mod b < 16" using 1 by linarith
    then show ?thesis
      using False 1 ih by (subst show_base.simps) (simp add: read_base_append)
  qed
qed

lemma dval_zero [simp]: "dval (CHR ''0'') = 0"
  by (simp add: dval_def digit_val_def)

lemma is_digit_zero [simp]: "0 < b \<Longrightarrow> is_digit b (CHR ''0'')"
  by (simp add: is_digit_def digit_val_def)

lemma read_base_pad [simp]: "read_base b (pad w s) = read_base b s"
proof -
  have zeros: "read_base b (replicate k (CHR ''0'')) = 0" for k
  proof (induction k)
    case (Suc k)
    have "replicate (Suc k) (CHR ''0'') = [CHR ''0''] @ replicate k (CHR ''0'')" by simp
    then show ?case using Suc by (simp only: read_base_append) simp
  qed simp
  show ?thesis by (simp add: pad_def read_base_append zeros)
qed

lemma length_show_base: "2 \<le> b \<Longrightarrow> 0 < k \<Longrightarrow> n < b ^ k \<Longrightarrow> length (show_base b n) \<le> k"
proof (induction b n arbitrary: k rule: show_base.induct)
  case (1 b n)
  show ?case
  proof (cases "n < b")
    case True
    with 1 show ?thesis by (subst show_base.simps) simp
  next
    case False
    obtain j where k: "k = Suc j" using 1 by (cases k) auto
    have j: "0 < j" using False 1(4) k by (cases j) auto
    have "n div b < b ^ j"
      using 1(4) k by (simp add: less_mult_imp_div_less mult.commute)
    then have "length (show_base b (n div b)) \<le> j" using 1 False j by simp
    then show ?thesis using False 1 k by (subst show_base.simps) simp
  qed
qed

lemma length_pad [simp]: "length (pad w s) = max w (length s)"
  by (simp add: pad_def)

lemma length_pad_show_base:
  "2 \<le> b \<Longrightarrow> 0 < w \<Longrightarrow> n < b ^ w \<Longrightarrow> length (pad w (show_base b n)) = w"
  by (simp add: length_show_base max_absorb1)

lemma pad_digits:
  "2 \<le> b \<Longrightarrow> b \<le> 16 \<Longrightarrow> \<forall>c \<in> set (pad w (show_base b n)). is_digit b c"
  using show_base_digits by (auto simp: pad_def)

section \<open>The C conversions behind stoull, stoi and stoll\<close>

definition c_isspace :: "char \<Rightarrow> bool" where
  "c_isspace c \<longleftrightarrow> c = CHR '' '' \<or> (let n = of_char c :: nat in 9 \<le> n \<and> n \<le> 13)"

definition read_sign :: "string \<Rightarrow> bool \<times> string" where
  "read_sign s = (case s of [] \<Rightarrow> (False, [])
     | c # cs \<Rightarrow> if c = CHR ''-'' then (True, cs) else if c = CHR ''+'' then (False, cs) else (False, s))"

text \<open>A prefix \<open>0x\<close> is skipped in base 16 when a hexadecimal digit follows it.\<close>

definition skip_0x :: "string \<Rightarrow> string" where
  "skip_0x s = (case s of z # x # d # r \<Rightarrow>
       if z = CHR ''0'' \<and> (x = CHR ''x'' \<or> x = CHR ''X'') \<and> is_digit 16 d then d # r else s
     | _ \<Rightarrow> s)"

text \<open>
  \<open>strto b s\<close>: white space, a sign and the longest run of digits; \<open>None\<close> when no digit
  was consumed. What follows the digits is ignored, as the callers ignore the end pointer.
\<close>

definition strto :: "nat \<Rightarrow> string \<Rightarrow> (bool \<times> nat) option" where
  "strto b s = (let (neg, t) = read_sign (dropWhile c_isspace s);
       u = (if b = 16 then skip_0x t else t);
       ds = takeWhile (is_digit b) u
     in if ds = [] then None else Some (neg, read_base b ds))"

definition stoull16 :: "string \<Rightarrow> exn + uint64" where
  "stoull16 s = (case strto 16 s of
       None \<Rightarrow> Inl (Invalid_argument ''stoull'')
     | Some (neg, n) \<Rightarrow>
         if 2 ^ 64 \<le> n then Inl (Out_of_range ''stoull'')
         else Inr (if neg then - of_nat n else of_nat n))"

definition sto_signed :: "string \<Rightarrow> nat \<Rightarrow> string \<Rightarrow> exn + int" where
  "sto_signed fn w s = (case strto 10 s of
       None \<Rightarrow> Inl (Invalid_argument fn)
     | Some (neg, n) \<Rightarrow>
         let i = (if neg then - int n else int n) in
         if i < - (2 ^ (w - 1)) \<or> 2 ^ (w - 1) \<le> i then Inl (Out_of_range fn) else Inr i)"

definition stoi :: "string \<Rightarrow> exn + int32" where
  "stoi s = map_sum id word_of_int (sto_signed ''stoi'' 32 s)"

definition stoll :: "string \<Rightarrow> exn + int64" where
  "stoll s = map_sum id word_of_int (sto_signed ''stoll'' 64 s)"

text \<open>Decimal text of a signed integer, as \<^verbatim>\<open>std::to_string\<close> writes it.\<close>

definition show_int :: "int \<Rightarrow> string" where
  "show_int i = (if i < 0 then ''-'' @ show_base 10 (nat (- i)) else show_base 10 (nat i))"

definition show_nat :: "nat \<Rightarrow> string" where
  "show_nat n = show_base 10 n"

lemma digit_not_special:
  "is_digit b c \<Longrightarrow> \<not> c_isspace c \<and> c \<noteq> CHR ''-'' \<and> c \<noteq> CHR ''+'' \<and> c \<noteq> CHR ''x'' \<and> c \<noteq> CHR ''X''"
  by (auto simp: is_digit_def digit_val_def c_isspace_def Let_def split: if_splits option.splits)

lemma strto_digits_then:
  assumes "s \<noteq> []" and "\<forall>c \<in> set s. is_digit 10 c" and "r = [] \<or> \<not> is_digit 10 (hd r)"
  shows "strto 10 (s @ r) = Some (False, read_base 10 s)"
proof -
  obtain c cs where s: "s = c # cs" using assms(1) by (cases s) auto
  have "dropWhile c_isspace (s @ r) = s @ r" using assms(2) s digit_not_special by auto
  moreover have "read_sign (s @ r) = (False, s @ r)"
    using assms(2) s digit_not_special by (auto simp: read_sign_def)
  moreover have "takeWhile (is_digit 10) (s @ r) = s"
    using assms(2,3) by (cases r) (simp_all add: takeWhile_append2)
  ultimately show ?thesis using assms(1) by (simp add: strto_def Let_def)
qed

lemma strto_digits:
  assumes "s \<noteq> []" and "\<forall>c \<in> set s. is_digit b c"
  shows "strto b s = Some (False, read_base b s)"
proof -
  obtain c cs where s: "s = c # cs" using assms(1) by (cases s) auto
  have "dropWhile c_isspace s = s" using assms(2) s digit_not_special by auto
  moreover have "read_sign s = (False, s)"
    using assms(2) s digit_not_special by (auto simp: read_sign_def)
  moreover have "skip_0x s = s"
    using assms(2) s digit_not_special
    by (cases cs rule: list.exhaust) (auto simp: skip_0x_def split: list.splits)
  moreover have "takeWhile (is_digit b) s = s" using assms(2) by simp
  ultimately show ?thesis
    using assms(1) by (cases "b = 16") (simp_all add: strto_def Let_def del: takeWhile_eq_all_conv)
qed

lemma strto_minus:
  assumes "s \<noteq> []" and "\<forall>c \<in> set s. is_digit 10 c"
  shows "strto 10 (CHR ''-'' # s) = Some (True, read_base 10 s)"
proof -
  have "takeWhile (is_digit 10) s = s" using assms(2) by simp
  then show ?thesis using assms(1) by (simp add: strto_def read_sign_def c_isspace_def Let_def del: takeWhile_eq_all_conv)
qed

lemma stoll_show:
  assumes "- (2 ^ 63) \<le> n" and "n < 2 ^ 63"
  shows "stoll (show_int n) = Inr (word_of_int n)"
proof (cases "n < 0")
  case True
  then have "strto 10 (show_int n) = Some (True, nat (- n))"
    using strto_minus[of "show_base 10 (nat (- n))"] show_base_digits[of 10 "nat (- n)"] by (simp add: show_int_def)
  then show ?thesis using True assms by (simp add: stoll_def sto_signed_def)
next
  case False
  then have "strto 10 (show_int n) = Some (False, nat n)"
    using strto_digits[of "show_base 10 (nat n)" 10] show_base_digits[of 10 "nat n"] by (simp add: show_int_def)
  then show ?thesis using False assms by (simp add: stoll_def sto_signed_def)
qed

lemma stoll_show_int [simp]: "stoll (show_int (sint (v :: int64))) = Inr v"
  using stoll_show[of "sint v"] sint_ge[of v] sint_lt[of v] by simp

text \<open>Which texts these functions read: after white space and one sign a digit must come, and for \<^verbatim>\<open>stoi\<close> and
  \<^verbatim>\<open>stoll\<close> the number written there must fit.\<close>

definition after_sign :: "string \<Rightarrow> string" where
  "after_sign t = (case t of [] \<Rightarrow> [] | c # r \<Rightarrow> if c \<in> set ''+-'' then r else t)"

definition starts_number :: "nat \<Rightarrow> string \<Rightarrow> bool" where
  "starts_number b s = (case after_sign (dropWhile c_isspace s) of [] \<Rightarrow> False | c # r \<Rightarrow> is_digit b c)"

definition decimal_value :: "string \<Rightarrow> int" where
  "decimal_value s = (let t = dropWhile c_isspace s in
     (if t \<noteq> [] \<and> hd t = CHR ''-'' then -1 else 1) * int (read_base 10 (takeWhile (is_digit 10) (after_sign t))))"

definition fits_signed :: "nat \<Rightarrow> string \<Rightarrow> bool" where
  "fits_signed w s \<longleftrightarrow> starts_number 10 s \<and> - (2 ^ (w - 1)) \<le> decimal_value s \<and> decimal_value s < 2 ^ (w - 1)"

lemma read_sign_after: "read_sign t = (t \<noteq> [] \<and> hd t = CHR ''-'', after_sign t)"
  by (auto simp: read_sign_def after_sign_def split: list.split)

lemma takeWhile_empty: "takeWhile P u = [] \<longleftrightarrow> (case u of [] \<Rightarrow> True | c # r \<Rightarrow> \<not> P c)"
  by (cases u) auto

lemma skip_0x_empty: "takeWhile (is_digit 16) (skip_0x u) = [] \<longleftrightarrow> takeWhile (is_digit 16) u = []"
  by (auto simp: skip_0x_def takeWhile_empty split: list.split)

lemma skip_0x_length: "length (skip_0x u) \<le> length u"
  by (auto simp: skip_0x_def split: list.split)

lemma after_sign_length: "length (after_sign t) \<le> length t"
  by (auto simp: after_sign_def split: list.split)

lemma strto_None: "strto b s = None \<longleftrightarrow> \<not> starts_number b s"
proof -
  have "starts_number b s \<longleftrightarrow> takeWhile (is_digit b) (after_sign (dropWhile c_isspace s)) \<noteq> []"
    by (simp add: starts_number_def takeWhile_empty split: list.split)
  then show ?thesis by (cases "b = 16") (simp_all add: strto_def read_sign_after Let_def skip_0x_empty)
qed

lemma strto_16_less:
  assumes "strto 16 s = Some (neg, n)"
  shows "n < 16 ^ length s"
proof -
  let ?u = "skip_0x (after_sign (dropWhile c_isspace s))"
  have n: "n = read_base 16 (takeWhile (is_digit 16) ?u)"
    using assms by (auto simp: strto_def read_sign_after Let_def split: if_splits)
  have "length (takeWhile (is_digit 16) ?u) \<le> length s"
    using length_takeWhile_le[of "is_digit 16" ?u] skip_0x_length[of "after_sign (dropWhile c_isspace s)"]
      after_sign_length[of "dropWhile c_isspace s"] length_dropWhile_le[of c_isspace s] by linarith
  moreover have "n < 16 ^ length (takeWhile (is_digit 16) ?u)"
    unfolding n by (rule read_base_less) (auto dest: set_takeWhileD)
  ultimately show ?thesis by (meson less_le_trans one_le_numeral power_increasing)
qed

lemma sto_signed_reads:
  "sto_signed fn w s = (if fits_signed w s then Inr (decimal_value s)
     else if starts_number 10 s then Inl (Out_of_range fn) else Inl (Invalid_argument fn))"
proof (cases "starts_number 10 s")
  case True
  then obtain neg n where st: "strto 10 s = Some (neg, n)" using strto_None[of 10 s] by (cases "strto 10 s") auto
  then have "(if neg then - int n else int n) = decimal_value s"
    by (auto simp: strto_def read_sign_after Let_def decimal_value_def split: if_splits)
  then show ?thesis using True st by (auto simp: sto_signed_def fits_signed_def Let_def)
next
  case False
  then have "strto 10 s = None" by (simp add: strto_None)
  then show ?thesis using False by (simp add: sto_signed_def fits_signed_def)
qed

lemma stoi_fails: "(\<exists>e. stoi s = Inl e) \<longleftrightarrow> \<not> fits_signed 32 s"
  and stoll_fails: "(\<exists>e. stoll s = Inl e) \<longleftrightarrow> \<not> fits_signed 64 s"
  by (simp_all add: stoi_def stoll_def sto_signed_reads)

end
