(* ===== verification/Result.thy ===== *)
theory Result
  imports Prelude
begin

text \<open>
  \<^verbatim>\<open>src/common/result.hpp\<close>: error codes, errors and \<^verbatim>\<open>Result<T>\<close>. A \<^verbatim>\<open>std::expected<T, Error>\<close> is
  a sum with the error on the left; \<^verbatim>\<open>Result<void>\<close> has \<^typ>\<open>unit\<close> on the right. Several functions
  of the repository write \<^verbatim>\<open>return Error::...\<close> where the type asks for \<^verbatim>\<open>std::unexpected\<close>; both
  are read as the error case.
\<close>

datatype ErrorCode =
    kOk
  | kNotFound
  | kValidationError
  | kUnauthorized
  | kForbidden
  | kConflict
  | kDatabaseError
  | kNetworkError
  | kTimeout
  | kInternalError
  | kConfigurationError
  | kAuthenticationFailed
  | kTokenExpired
  | kInvalidToken

fun code_value :: "ErrorCode \<Rightarrow> int" where
  "code_value kOk = 0"
| "code_value kNotFound = 1001"
| "code_value kValidationError = 1002"
| "code_value kUnauthorized = 1003"
| "code_value kForbidden = 1004"
| "code_value kConflict = 1005"
| "code_value kDatabaseError = 2001"
| "code_value kNetworkError = 2002"
| "code_value kTimeout = 2003"
| "code_value kInternalError = 5001"
| "code_value kConfigurationError = 5002"
| "code_value kAuthenticationFailed = 6001"
| "code_value kTokenExpired = 6002"
| "code_value kInvalidToken = 6003"

record Error =
  err_code :: ErrorCode
  err_message :: string

type_synonym 'a Result = "Error + 'a"

definition error_to_string :: "Error \<Rightarrow> string" where
  "error_to_string e = ''['' @ show_int (code_value (err_code e)) @ ''] '' @ err_message e"

definition not_found :: "string \<Rightarrow> Error" where
  "not_found msg = \<lparr>err_code = kNotFound, err_message = msg\<rparr>"

definition validation :: "string \<Rightarrow> Error" where
  "validation msg = \<lparr>err_code = kValidationError, err_message = msg\<rparr>"

definition unauthorized :: "string \<Rightarrow> Error" where
  "unauthorized msg = \<lparr>err_code = kUnauthorized, err_message = msg\<rparr>"

definition database :: "string \<Rightarrow> Error" where
  "database msg = \<lparr>err_code = kDatabaseError, err_message = msg\<rparr>"

definition forbidden :: "string \<Rightarrow> Error" where
  "forbidden msg = \<lparr>err_code = kForbidden, err_message = msg\<rparr>"

definition conflict :: "string \<Rightarrow> Error" where
  "conflict msg = \<lparr>err_code = kConflict, err_message = msg\<rparr>"

definition internal :: "string \<Rightarrow> Error" where
  "internal msg = \<lparr>err_code = kInternalError, err_message = msg\<rparr>"

definition configuration :: "string \<Rightarrow> Error" where
  "configuration msg = \<lparr>err_code = kConfigurationError, err_message = msg\<rparr>"

lemmas error_defs =
  not_found_def validation_def unauthorized_def database_def forbidden_def conflict_def
  internal_def configuration_def

lemma err_code_simps [simp]:
  "err_code (not_found m) = kNotFound" "err_code (validation m) = kValidationError"
  "err_code (unauthorized m) = kUnauthorized" "err_code (database m) = kDatabaseError"
  "err_code (forbidden m) = kForbidden" "err_code (conflict m) = kConflict"
  "err_code (internal m) = kInternalError" "err_code (configuration m) = kConfigurationError"
  by (simp_all add: error_defs)

lemma err_message_simps [simp]:
  "err_message (not_found m) = m" "err_message (validation m) = m"
  "err_message (unauthorized m) = m" "err_message (database m) = m"
  "err_message (forbidden m) = m" "err_message (conflict m) = m"
  "err_message (internal m) = m" "err_message (configuration m) = m"
  by (simp_all add: error_defs)

text \<open>\<^verbatim>\<open>Result::value_or\<close>.\<close>

definition value_or :: "'a Result \<Rightarrow> 'a \<Rightarrow> 'a" where
  "value_or r d = (case r of Inl _ \<Rightarrow> d | Inr x \<Rightarrow> x)"

lemma value_or_simps [simp]: "value_or (Inr x) d = x" "value_or (Inl e) d = d"
  by (simp_all add: value_or_def)

lemma code_value_inj: "code_value c = code_value d \<Longrightarrow> c = d"
  by (cases c; cases d; simp)

end
