(* ===== verification/Json.thy ===== *)
theory Json
  imports Result
begin

text \<open>
  JSON values and HTTP messages as the API code uses them. The library \<^verbatim>\<open>nlohmann::json\<close> is a
  parameter, a record of the operations called; its documented laws are the locale \<open>json_values\<close>,
  with a datatype of JSON values as its instance. A request body that drogon parsed is handed over
  by \<^verbatim>\<open>toStyledString\<close> and \<^verbatim>\<open>parse\<close>, which is the identity on values.
\<close>

section \<open>The library\<close>

record 'j json_lib =
  j_string :: "string \<Rightarrow> 'j"
  j_int :: "int \<Rightarrow> 'j"
  j_object :: "(string \<times> 'j) list \<Rightarrow> 'j"
  j_array :: "'j list \<Rightarrow> 'j"
  j_set :: "'j \<Rightarrow> string \<Rightarrow> 'j \<Rightarrow> 'j"
  j_contains :: "'j \<Rightarrow> string \<Rightarrow> bool"
  j_at :: "'j \<Rightarrow> string \<Rightarrow> exn + 'j"
  j_get_string :: "'j \<Rightarrow> exn + string"
  j_get_int64 :: "'j \<Rightarrow> exn + int64"

text \<open>\<^verbatim>\<open>j.at(k).get<T>()\<close>.\<close>

definition at_string :: "'j json_lib \<Rightarrow> 'j \<Rightarrow> string \<Rightarrow> exn + string" where
  "at_string lib j k = sum_bind (j_at lib j k) (j_get_string lib)"

definition at_int64 :: "'j json_lib \<Rightarrow> 'j \<Rightarrow> string \<Rightarrow> exn + int64" where
  "at_int64 lib j k = sum_bind (j_at lib j k) (j_get_int64 lib)"

locale json_values =
  fixes lib :: "'j json_lib"
  assumes at_object: "distinct (map fst kvs) \<Longrightarrow> map_of kvs k = Some v \<Longrightarrow> j_at lib (j_object lib kvs) k = Inr v"
    and contains_object: "distinct (map fst kvs) \<Longrightarrow> j_contains lib (j_object lib kvs) k \<longleftrightarrow> k \<in> fst ` set kvs"
    and set_object: "distinct (map fst kvs) \<Longrightarrow> k \<notin> fst ` set kvs \<Longrightarrow>
      j_set lib (j_object lib kvs) k v = j_object lib (kvs @ [(k, v)])"
    and get_string: "j_get_string lib (j_string lib x) = Inr x"
    and get_int64: "j_get_int64 lib (j_int lib (sint n)) = Inr n"
begin

lemma at_string_object:
  "distinct (map fst kvs) \<Longrightarrow> map_of kvs k = Some (j_string lib x) \<Longrightarrow> at_string lib (j_object lib kvs) k = Inr x"
  by (simp add: at_string_def at_object get_string)

lemma at_int64_object:
  "distinct (map fst kvs) \<Longrightarrow> map_of kvs k = Some (j_int lib (sint n)) \<Longrightarrow> at_int64 lib (j_object lib kvs) k = Inr n"
  by (simp add: at_int64_def at_object get_int64)

end

section \<open>An instance\<close>

datatype JsonValue = JString string | JInt int | JObject "(string \<times> JsonValue) list" | JArray "JsonValue list"

fun value_at :: "JsonValue \<Rightarrow> string \<Rightarrow> exn + JsonValue" where
  "value_at (JObject kvs) k = (case map_of kvs k of Some v \<Rightarrow> Inr v | None \<Rightarrow> Inl (Out_of_range (''key not found: '' @ k)))"
| "value_at _ k = Inl (Other_exn ''cannot use at()'')"

fun value_contains :: "JsonValue \<Rightarrow> string \<Rightarrow> bool" where
  "value_contains (JObject kvs) k = (map_of kvs k \<noteq> None)"
| "value_contains _ k = False"

fun value_set :: "JsonValue \<Rightarrow> string \<Rightarrow> JsonValue \<Rightarrow> JsonValue" where
  "value_set (JObject kvs) k v = JObject (AList.update k v kvs)"
| "value_set j k v = j"

fun value_string :: "JsonValue \<Rightarrow> exn + string" where
  "value_string (JString x) = Inr x"
| "value_string _ = Inl (Other_exn ''type must be string'')"

fun value_int64 :: "JsonValue \<Rightarrow> exn + int64" where
  "value_int64 (JInt n) = Inr (word_of_int n)"
| "value_int64 _ = Inl (Other_exn ''type must be number'')"

definition std_json :: "JsonValue json_lib" where
  "std_json = \<lparr>j_string = JString, j_int = JInt, j_object = JObject, j_array = JArray, j_set = value_set,
     j_contains = value_contains, j_at = value_at, j_get_string = value_string, j_get_int64 = value_int64\<rparr>"

lemma update_new: "k \<notin> fst ` set kvs \<Longrightarrow> AList.update k v kvs = kvs @ [(k, v)]"
  by (induction kvs) auto

interpretation std: json_values std_json
proof unfold_locales
  fix kvs :: "(string \<times> JsonValue) list" and k
  show "j_contains std_json (j_object std_json kvs) k \<longleftrightarrow> k \<in> fst ` set kvs"
    by (simp add: std_json_def map_of_eq_None_iff)
qed (simp_all add: std_json_def update_new)

section \<open>HTTP messages\<close>

record 'j HttpRequest =
  rq_json :: "'j option"
  rq_params :: "string \<Rightarrow> string option"
  rq_header :: "string \<Rightarrow> string"

record 'j HttpResponse =
  rp_status :: int
  rp_body :: "'j option"

text \<open>\<^verbatim>\<open>src/api/dto/error_response.hpp\<close>.\<close>

record ErrorResponse =
  er_type :: string
  er_title :: string
  er_status :: int
  er_detail :: string
  er_instance :: string
  er_errors :: "(string \<times> string list) list"

definition error_to_json :: "'j json_lib \<Rightarrow> ErrorResponse \<Rightarrow> 'j" where
  "error_to_json lib e =
     (let j = j_object lib [(''type'', j_string lib (er_type e)), (''title'', j_string lib (er_title e)),
            (''status'', j_int lib (er_status e)), (''detail'', j_string lib (er_detail e))];
          j = (if er_instance e \<noteq> [] then j_set lib j ''instance'' (j_string lib (er_instance e)) else j)
      in if er_errors e \<noteq> []
         then j_set lib j ''errors'' (j_object lib (map (\<lambda>(f, ms). (f, j_array lib (map (j_string lib) ms))) (er_errors e)))
         else j)"

text \<open>\<^verbatim>\<open>make_error_response\<close> and \<^verbatim>\<open>make_json_response\<close>, the same in both controllers.\<close>

definition make_error_response :: "'j json_lib \<Rightarrow> int \<Rightarrow> string \<Rightarrow> string \<Rightarrow> 'j HttpResponse" where
  "make_error_response lib status title detail =
     \<lparr>rp_status = status,
      rp_body = Some (error_to_json lib \<lparr>er_type = ''about:blank'', er_title = title, er_status = status,
        er_detail = detail, er_instance = [], er_errors = []\<rparr>)\<rparr>"

definition make_json_response :: "'j \<Rightarrow> 'j HttpResponse" where
  "make_json_response data = \<lparr>rp_status = 200, rp_body = Some data\<rparr>"

definition no_content :: "'j HttpResponse" where
  "no_content = \<lparr>rp_status = 204, rp_body = None\<rparr>"

lemma response_status [simp]:
  "rp_status (make_error_response lib st t d) = st" "rp_status (make_json_response j) = 200"
  "rp_status no_content = 204"
  by (simp_all add: make_error_response_def make_json_response_def no_content_def)

end
