(* ===== verification/Values.thy ===== *)
theory Values
  imports Result "HOL-Library.Signed_Division"
begin

text \<open>
  The value objects of \<^verbatim>\<open>src/core/value_objects/\<close>: money, quantities, e-mail and postal
  addresses. Amounts and quantities are 64-bit two's complement words; additions and
  subtractions wrap as the machine's do (in C++ a wrap is undefined behaviour, so the lemmas
  about them carry the range condition).
\<close>

section \<open>Money\<close>

record Money =
  amount :: int64
  currency :: string

definition Money_default :: Money where
  "Money_default = \<lparr>amount = 0, currency = ''IDR''\<rparr>"

definition Money_create :: "int64 \<Rightarrow> string \<Rightarrow> Money Result" where
  "Money_create amt cur =
     (if amt <s 0 then Inl (validation ''Amount cannot be negative'')
      else if length cur \<noteq> 3 then Inl (validation ''Currency must be a 3-letter ISO code'')
      else Inr \<lparr>amount = amt, currency = cur\<rparr>)"

definition Money_add :: "Money \<Rightarrow> Money \<Rightarrow> Money" where
  "Money_add a b = \<lparr>amount = amount a + amount b, currency = currency a\<rparr>"

definition Money_subtract :: "Money \<Rightarrow> Money \<Rightarrow> Money" where
  "Money_subtract a b = \<lparr>amount = amount a - amount b, currency = currency a\<rparr>"

text \<open>\<^verbatim>\<open>{:02d}\<close>: at least two characters, zeros after the sign.\<close>

definition format_02d :: "int \<Rightarrow> string" where
  "format_02d i = (if i < 0 then ''-'' @ pad 1 (show_nat (nat (- i))) else pad 2 (show_nat (nat i)))"

definition Money_to_string :: "Money \<Rightarrow> string" where
  "Money_to_string m =
     (let major = sint (amount m) sdiv 100; minor = sint (amount m) smod 100
      in show_int major @ ''.'' @ format_02d minor @ '' '' @ currency m)"

definition money_ok :: "Money \<Rightarrow> bool" where
  "money_ok m \<longleftrightarrow> 0 \<le>s amount m \<and> length (currency m) = 3"

section \<open>Quantity\<close>

record Quantity =
  qty :: int64
  unit_of :: string

definition Quantity_default :: Quantity where
  "Quantity_default = \<lparr>qty = 0, unit_of = ''pcs''\<rparr>"

definition Quantity_create :: "int64 \<Rightarrow> string \<Rightarrow> Quantity Result" where
  "Quantity_create v u =
     (if v <s 0 then Inl (validation ''Quantity cannot be negative'')
      else Inr \<lparr>qty = v, unit_of = u\<rparr>)"

definition Quantity_add :: "Quantity \<Rightarrow> Quantity \<Rightarrow> Quantity" where
  "Quantity_add a b = \<lparr>qty = qty a + qty b, unit_of = unit_of a\<rparr>"

definition Quantity_subtract :: "Quantity \<Rightarrow> Quantity \<Rightarrow> Quantity" where
  "Quantity_subtract a b =
     (let result = qty a - qty b;
          result = (if result <s 0 then 0 else result)
      in \<lparr>qty = result, unit_of = unit_of a\<rparr>)"

definition Quantity_is_empty :: "Quantity \<Rightarrow> bool" where
  "Quantity_is_empty q \<longleftrightarrow> qty q = 0"

definition Quantity_less :: "Quantity \<Rightarrow> Quantity \<Rightarrow> bool" where
  "Quantity_less a b \<longleftrightarrow> qty a <s qty b"

definition Quantity_greater :: "Quantity \<Rightarrow> Quantity \<Rightarrow> bool" where
  "Quantity_greater a b \<longleftrightarrow> qty b <s qty a"

definition quantity_ok :: "Quantity \<Rightarrow> bool" where
  "quantity_ok q \<longleftrightarrow> 0 \<le>s qty q"

section \<open>E-mail addresses\<close>

record Email =
  email_value :: string

definition Email_default :: Email where
  "Email_default = \<lparr>email_value = []\<rparr>"

text \<open>\<^verbatim>\<open>std::string::find(c, pos)\<close>; \<open>None\<close> is \<^verbatim>\<open>npos\<close>.\<close>

fun find_char :: "char \<Rightarrow> string \<Rightarrow> nat option" where
  "find_char c [] = None"
| "find_char c (x # xs) = (if x = c then Some 0 else map_option Suc (find_char c xs))"

definition find_from :: "char \<Rightarrow> string \<Rightarrow> nat \<Rightarrow> nat option" where
  "find_from c s p = map_option (\<lambda>i. p + i) (find_char c (drop p s))"

definition email_is_valid :: "string \<Rightarrow> bool" where
  "email_is_valid s =
     (if s = [] \<or> length s > 254 then False
      else case find_from (CHR ''@'') s 0 of
          None \<Rightarrow> False
        | Some at \<Rightarrow>
            if at = 0 \<or> at = length s - 1 then False
            else case find_from (CHR ''.'') s (at + 1) of
                None \<Rightarrow> False
              | Some dot \<Rightarrow> \<not> (dot = at + 1 \<or> dot = length s - 1))"

definition Email_create :: "string \<Rightarrow> Email Result" where
  "Email_create v =
     (if \<not> email_is_valid v then Inl (validation ''Invalid email address'')
      else Inr \<lparr>email_value = v\<rparr>)"

section \<open>Postal addresses\<close>

record Address =
  street :: string
  city :: string
  province :: string
  postal_code :: string
  country :: string

definition Address_default :: Address where
  "Address_default = \<lparr>street = [], city = [], province = [], postal_code = [], country = ''Indonesia''\<rparr>"

definition Address_create :: "string \<Rightarrow> string \<Rightarrow> string \<Rightarrow> string \<Rightarrow> string \<Rightarrow> Address Result" where
  "Address_create str cit prov post ctry =
     (if str = [] then Inl (validation ''Street cannot be empty'')
      else if cit = [] then Inl (validation ''City cannot be empty'')
      else if post = [] then Inl (validation ''Postal code cannot be empty'')
      else Inr \<lparr>street = str, city = cit, province = prov, postal_code = post, country = ctry\<rparr>)"

definition full_address :: "Address \<Rightarrow> string" where
  "full_address a = street a @ '', '' @ city a @ '', '' @ province a @ '' '' @ postal_code a
     @ '', '' @ country a"

section \<open>Money and quantities: ranges\<close>

lemma Money_create_eq_Inr:
  "Money_create a c = Inr m \<longleftrightarrow> 0 \<le>s a \<and> length c = 3 \<and> m = \<lparr>amount = a, currency = c\<rparr>"
  by (auto simp: Money_create_def)

lemma Quantity_create_eq_Inr:
  "Quantity_create v u = Inr q \<longleftrightarrow> 0 \<le>s v \<and> q = \<lparr>qty = v, unit_of = u\<rparr>"
  by (auto simp: Quantity_create_def)

lemma Money_create_ok: "Money_create a c = Inr m \<Longrightarrow> money_ok m"
  by (auto simp: Money_create_eq_Inr money_ok_def)

lemma Quantity_create_ok: "Quantity_create v u = Inr q \<Longrightarrow> quantity_ok q"
  by (auto simp: Quantity_create_eq_Inr quantity_ok_def)

lemma Money_create_self [simp]: "money_ok m \<Longrightarrow> Money_create (amount m) (currency m) = Inr m"
  by (auto simp: money_ok_def Money_create_def word_sless_alt word_sle_eq)

lemma Quantity_create_self [simp]: "quantity_ok q \<Longrightarrow> Quantity_create (qty q) (unit_of q) = Inr q"
  by (auto simp: quantity_ok_def Quantity_create_def word_sless_alt word_sle_eq)

lemma Money_create_errors:
  "Money_create a c = Inl e \<Longrightarrow> err_code e = kValidationError"
  by (auto simp: Money_create_def split: if_splits)

lemma Quantity_create_errors:
  "Quantity_create v u = Inl e \<Longrightarrow> err_code e = kValidationError"
  by (auto simp: Quantity_create_def split: if_splits)

lemma sint_64_range: "- (2 ^ 63) \<le> sint (w :: int64)" "sint (w :: int64) < 2 ^ 63"
  using sint_range_size[of w] by (auto simp: word_size)

lemma sint_add_64:
  "- (2 ^ 63) \<le> sint a + sint b \<Longrightarrow> sint a + sint b < 2 ^ 63 \<Longrightarrow> sint (a + b) = sint a + sint b"
  for a b :: int64
  by (simp add: signed_take_bit_int_eq_self sint_word_ariths(1))

lemma sint_diff_64:
  "- (2 ^ 63) \<le> sint a - sint b \<Longrightarrow> sint a - sint b < 2 ^ 63 \<Longrightarrow> sint (a - b) = sint a - sint b"
  for a b :: int64
  by (simp add: signed_take_bit_int_eq_self sint_word_ariths(2))

lemma quantity_ok_iff: "quantity_ok q \<longleftrightarrow> 0 \<le> sint (qty q)"
  by (simp add: quantity_ok_def word_sle_eq)

lemma money_ok_iff: "money_ok m \<longleftrightarrow> 0 \<le> sint (amount m) \<and> length (currency m) = 3"
  by (simp add: money_ok_def word_sle_eq)

text \<open>Removing stock never goes below zero and, between valid quantities, never overflows:
  the result is exactly the difference cut off at zero, in the unit of the left operand.\<close>

theorem Quantity_subtract_saturates:
  assumes "quantity_ok a" and "quantity_ok b"
  shows "sint (qty (Quantity_subtract a b)) = max 0 (sint (qty a) - sint (qty b)) \<and>
    unit_of (Quantity_subtract a b) = unit_of a"
proof -
  have "sint (qty a - qty b) = sint (qty a) - sint (qty b)"
    using assms sint_64_range[of "qty a"] sint_64_range[of "qty b"]
    by (intro sint_diff_64) (auto simp: quantity_ok_iff)
  then show ?thesis
    by (auto simp: Quantity_subtract_def Let_def word_sless_alt)
qed

theorem Quantity_subtract_saturates_witness:
  "sint (qty (Quantity_subtract \<lparr>qty = 3, unit_of = ''pcs''\<rparr> \<lparr>qty = 5, unit_of = ''box''\<rparr>)) = 0"
  using Quantity_subtract_saturates[of "\<lparr>qty = 3, unit_of = ''pcs''\<rparr>" "\<lparr>qty = 5, unit_of = ''box''\<rparr>"]
  by (simp add: quantity_ok_def word_sle_eq)

section \<open>Money as text\<close>

lemma split_at_char:
  "x @ c # y = x' @ c # y' \<Longrightarrow> c \<notin> set x \<Longrightarrow> c \<notin> set x' \<Longrightarrow> x = x' \<and> y = y'"
  by (induction x arbitrary: x') (auto simp: Cons_eq_append_conv append_eq_Cons_conv)

lemma show_base_no_dot: "CHR ''.'' \<notin> set (show_base 10 n)"
  using show_base_digits[of 10 n] by (auto simp: is_digit_def digit_val_def Let_def)

lemma show_base_10_inj: "show_base 10 m = show_base 10 n \<longleftrightarrow> m = n"
proof
  assume "show_base 10 m = show_base 10 n"
  then have "read_base 10 (show_base 10 m) = read_base 10 (show_base 10 n)" by simp
  then show "m = n" by simp
qed simp

lemma Money_to_string_ok:
  assumes "money_ok m"
  shows "Money_to_string m =
    show_base 10 (nat (sint (amount m)) div 100) @ CHR ''.'' #
    pad 2 (show_base 10 (nat (sint (amount m)) mod 100)) @ CHR '' '' # currency m"
proof -
  let ?a = "sint (amount m)"
  have "0 \<le> ?a" using assms by (simp add: money_ok_iff)
  then have "?a sdiv 100 = int (nat ?a div 100)" "?a smod 100 = int (nat ?a mod 100)"
    by (simp_all add: signed_divide_int_def signed_modulo_int_def zdiv_int zmod_int minus_div_mult_eq_mod sgn_if)
  then show ?thesis
    by (simp add: Money_to_string_def format_02d_def show_int_def show_nat_def nat_div_distrib nat_mod_distrib)
qed

text \<open>The text of a valid amount of money identifies it.\<close>

theorem Money_to_string_inj:
  assumes "money_ok m" and "money_ok m'" and "Money_to_string m = Money_to_string m'"
  shows "m = m'"
proof -
  let ?n = "nat (sint (amount m))" and ?n' = "nat (sint (amount m'))"
  have len: "length (pad 2 (show_base 10 (k mod 100))) = 2" for k
    by (rule length_pad_show_base) simp_all
  have eq: "show_base 10 (?n div 100) = show_base 10 (?n' div 100)"
    "pad 2 (show_base 10 (?n mod 100)) @ CHR '' '' # currency m
     = pad 2 (show_base 10 (?n' mod 100)) @ CHR '' '' # currency m'"
    using assms(3) split_at_char[OF _ show_base_no_dot show_base_no_dot]
    by (auto simp: Money_to_string_ok[OF assms(1)] Money_to_string_ok[OF assms(2)])
  from eq(2) have pads: "pad 2 (show_base 10 (?n mod 100)) = pad 2 (show_base 10 (?n' mod 100))"
    and cur: "currency m = currency m'"
    using len[of ?n] len[of ?n'] by (simp_all del: length_pad)
  have "read_base 10 (pad 2 (show_base 10 (?n mod 100))) = read_base 10 (pad 2 (show_base 10 (?n' mod 100)))"
    by (simp only: pads)
  then have "?n mod 100 = ?n' mod 100" by simp
  with eq(1) have "?n = ?n'" by (metis show_base_10_inj div_mult_mod_eq)
  then have "sint (amount m) = sint (amount m')"
    using assms(1,2) eq_nat_nat_iff[of "sint (amount m)" "sint (amount m')"] by (simp add: money_ok_iff)
  then have "amount m = amount m'" by (rule signed_word_eqI)
  with cur show ?thesis by simp
qed

theorem Money_to_string_inj_witness:
  "Money_to_string \<lparr>amount = 5, currency = ''IDR''\<rparr> \<noteq> Money_to_string \<lparr>amount = 50, currency = ''IDR''\<rparr>"
  using Money_to_string_inj[of "\<lparr>amount = 5, currency = ''IDR''\<rparr>" "\<lparr>amount = 50, currency = ''IDR''\<rparr>"]
  by (auto simp: money_ok_def word_sle_eq)

section \<open>The e-mail check\<close>

lemma find_char_None: "find_char c s = None \<longleftrightarrow> c \<notin> set s"
  by (induction s) auto

lemma find_char_Some:
  "find_char c s = Some i \<longleftrightarrow> (\<exists>xs ys. s = xs @ c # ys \<and> c \<notin> set xs \<and> i = length xs)"
proof (induction s arbitrary: i)
  case (Cons x s)
  show ?case
  proof (cases "x = c")
    case True
    then show ?thesis by (auto simp: Cons_eq_append_conv)
  next
    case False
    then have "find_char c (x # s) = Some i \<longleftrightarrow>
      (\<exists>xs ys. s = xs @ c # ys \<and> c \<notin> set xs \<and> i = Suc (length xs))"
      using Cons by auto
    also have "\<dots> \<longleftrightarrow> (\<exists>xs ys. x # s = xs @ c # ys \<and> c \<notin> set xs \<and> i = length xs)"
      using False by (auto simp: Cons_eq_append_conv) (metis length_Cons list.set_intros(1) set_ConsD)+
    finally show ?thesis .
  qed
qed simp

text \<open>The e-mail check accepts exactly the strings of at most 254 characters that split as
  a non-empty local part without \<open>@\<close>, an \<open>@\<close>, a non-empty label without a dot, a dot and a
  non-empty rest.\<close>

theorem email_is_valid_iff:
  "email_is_valid s \<longleftrightarrow> length s \<le> 254 \<and>
     (\<exists>loc lab rest. s = loc @ ''@'' @ lab @ ''.'' @ rest \<and>
        loc \<noteq> [] \<and> lab \<noteq> [] \<and> rest \<noteq> [] \<and> CHR ''@'' \<notin> set loc \<and> CHR ''.'' \<notin> set lab)"
  (is "?L \<longleftrightarrow> ?R")
proof
  assume L: ?L
  then obtain at where a: "find_char (CHR ''@'') s = Some at" "at \<noteq> 0" "length s \<le> 254"
    and d: "case find_from (CHR ''.'') s (at + 1) of None \<Rightarrow> False
      | Some dot \<Rightarrow> \<not> (dot = at + 1 \<or> dot = length s - 1)"
    by (auto simp: email_is_valid_def find_from_def split: if_splits option.splits)
  from a obtain loc ys where s: "s = loc @ CHR ''@'' # ys" "CHR ''@'' \<notin> set loc" "at = length loc"
    by (auto simp: find_char_Some)
  from d s obtain i where i: "find_char (CHR ''.'') ys = Some i" "i \<noteq> 0" "at + 1 + i \<noteq> length s - 1"
    by (auto simp: find_from_def split: option.splits)
  then obtain lab rest where "ys = lab @ CHR ''.'' # rest" "CHR ''.'' \<notin> set lab" "i = length lab"
    by (auto simp: find_char_Some)
  with a s i show ?R by auto
next
  assume ?R
  then obtain loc lab rest where s: "s = loc @ ''@'' @ lab @ ''.'' @ rest" "length s \<le> 254"
    and ne: "loc \<noteq> []" "lab \<noteq> []" "rest \<noteq> []" and nin: "CHR ''@'' \<notin> set loc" "CHR ''.'' \<notin> set lab"
    by blast
  have "find_char (CHR ''@'') s = Some (length loc)"
    "find_char (CHR ''.'') (lab @ CHR ''.'' # rest) = Some (length lab)"
    using s nin by (auto simp: find_char_Some)
  with s ne show ?L by (simp add: email_is_valid_def find_from_def)
qed

lemma Email_create_eq_Inr:
  "Email_create v = Inr e \<longleftrightarrow> email_is_valid v \<and> e = \<lparr>email_value = v\<rparr>"
  by (auto simp: Email_create_def)

end
