(* ===== verification/Uuid.thy ===== *)
theory Uuid
  imports Prelude
begin

text \<open>
  \<^verbatim>\<open>src/common/utils/uuid.hpp\<close>: 128-bit identifiers as two 64-bit words, their generation from
  two draws of the random generator, and their text form.
\<close>

record Uuid =
  m_hi :: uint64
  m_lo :: uint64

text \<open>The default constructor: both words zero.\<close>

definition Uuid_default :: Uuid where
  "Uuid_default = \<lparr>m_hi = 0, m_lo = 0\<rparr>"

text \<open>\<open>generate r0 r1\<close>: the draws \<open>r0\<close>, \<open>r1\<close> of \<^verbatim>\<open>std::mt19937_64\<close> with version and variant bits set.\<close>

definition generate :: "uint64 \<Rightarrow> uint64 \<Rightarrow> Uuid" where
  "generate r0 r1 =
     \<lparr>m_hi = (r0 AND 0xFFFFFFFFFFFF0FFF) OR 0x0000000000004000,
      m_lo = (r1 AND 0x3FFFFFFFFFFFFFFF) OR 0x8000000000000000\<rparr>"

text \<open>\<^verbatim>\<open>std::format("{:0wx}", v)\<close>.\<close>

definition format_hex :: "nat \<Rightarrow> uint64 \<Rightarrow> string" where
  "format_hex w v = pad w (show_base 16 (unat v))"

definition to_string :: "Uuid \<Rightarrow> string" where
  "to_string u = (let p1 = m_hi u; p2 = m_lo u in
     format_hex 8 (drop_bit 32 p1 AND 0xFFFFFFFF) @ ''-'' @
     format_hex 4 (drop_bit 16 p1 AND 0xFFFF) @ ''-'' @
     format_hex 4 (p1 AND 0xFFFF) @ ''-'' @
     format_hex 4 (drop_bit 48 p2 AND 0xFFFF) @ ''-'' @
     format_hex 12 (p2 AND 0xFFFFFFFFFFFF))"

text \<open>
  \<^verbatim>\<open>from_string\<close>: dashes are dropped wherever they are; any other length than 32 gives the
  default identifier; \<^verbatim>\<open>stoull\<close> on either half may raise.
\<close>

definition from_string :: "string \<Rightarrow> exn + Uuid" where
  "from_string str = (let hex = filter (\<lambda>c. c \<noteq> CHR ''-'') str in
     if length hex \<noteq> 32 then Inr Uuid_default
     else case stoull16 (take 16 hex) of
         Inl e \<Rightarrow> Inl e
       | Inr p1 \<Rightarrow>
         (case stoull16 (take 16 (drop 16 hex)) of
             Inl e \<Rightarrow> Inl e
           | Inr p2 \<Rightarrow> Inr \<lparr>m_hi = p1, m_lo = p2\<rparr>))"

definition is_valid :: "Uuid \<Rightarrow> bool" where
  "is_valid u \<longleftrightarrow> m_hi u \<noteq> 0 \<or> m_lo u \<noteq> 0"

lemma is_valid_iff: "is_valid u \<longleftrightarrow> u \<noteq> Uuid_default"
  by (cases u) (auto simp: is_valid_def Uuid_default_def)

section \<open>The text form\<close>

lemma and_mask_unat:
  "unat (v AND 0xFFFF) = unat v mod 2 ^ 16" "unat (v AND 0xFFFFFFFF) = unat v mod 2 ^ 32"
  "unat (v AND 0xFFFFFFFFFFFF) = unat v mod 2 ^ 48" for v :: uint64
proof -
  have m: "v AND mask n = take_bit n v" for n by (simp add: take_bit_eq_mask)
  have u: "unat (v AND mask n) = unat v mod 2 ^ n" for n
    unfolding m by (simp only: unsigned_take_bit_eq) (simp add: take_bit_eq_mod)
  show "unat (v AND 0xFFFF) = unat v mod 2 ^ 16" using u[of 16] by (simp add: mask_eq_exp_minus_1)
  show "unat (v AND 0xFFFFFFFF) = unat v mod 2 ^ 32" using u[of 32] by (simp add: mask_eq_exp_minus_1)
  show "unat (v AND 0xFFFFFFFFFFFF) = unat v mod 2 ^ 48" using u[of 48] by (simp add: mask_eq_exp_minus_1)
qed

lemma unat_drop_bit: "unat (drop_bit n v) = unat v div 2 ^ n" for v :: uint64
  by (simp only: unat_drop_bit_eq) (simp add: drop_bit_eq_div)

text \<open>The five groups of a text form and their values.\<close>

definition groups :: "Uuid \<Rightarrow> (nat \<times> nat) list" where
  "groups u = [(8, unat (m_hi u) div 2 ^ 32), (4, unat (m_hi u) div 2 ^ 16 mod 2 ^ 16),
     (4, unat (m_hi u) mod 2 ^ 16), (4, unat (m_lo u) div 2 ^ 48), (12, unat (m_lo u) mod 2 ^ 48)]"

definition group_text :: "nat \<times> nat \<Rightarrow> string" where
  "group_text g = pad (fst g) (show_base 16 (snd g))"

lemma unat_less_64: "unat (v :: uint64) < 2 ^ 64"
  using unsigned_less[of v] by simp

lemma groups_bound: "\<forall>g \<in> set (groups u). 0 < fst g \<and> snd g < 16 ^ fst g"
  using unat_less_64[of "m_hi u"] unat_less_64[of "m_lo u"]
    less_mult_imp_div_less[of "unat (m_hi u)" "2 ^ 32" "2 ^ 32"]
    less_mult_imp_div_less[of "unat (m_lo u)" "2 ^ 16" "2 ^ 48"]
  by (simp add: groups_def)

lemma to_string_groups:
  "to_string u = concat (map (\<lambda>g. group_text g @ ''-'') (butlast (groups u))) @ group_text (last (groups u))"
proof -
  have "unat (m_hi u) div 2 ^ 32 mod 2 ^ 32 = unat (m_hi u) div 2 ^ 32"
    "unat (m_lo u) div 2 ^ 48 mod 2 ^ 16 = unat (m_lo u) div 2 ^ 48"
    using groups_bound[of u] by (simp_all add: groups_def)
  then show ?thesis
    by (simp add: to_string_def Let_def groups_def group_text_def format_hex_def and_mask_unat unat_drop_bit)
qed

lemma group_text_length: "g \<in> set (groups u) \<Longrightarrow> length (group_text g) = fst g"
  using groups_bound[of u] by (auto simp: group_text_def length_pad_show_base simp del: length_pad)

lemma group_text_digits: "\<forall>c \<in> set (group_text g). is_digit 16 c"
  using pad_digits[of 16] by (simp add: group_text_def)

lemma group_text_read: "read_base 16 (group_text g) = snd g"
  by (simp add: group_text_def)

definition hex_of :: "Uuid \<Rightarrow> string" where
  "hex_of u = concat (map group_text (groups u))"

lemma filter_group_text: "filter (\<lambda>c. c \<noteq> CHR ''-'') (group_text g) = group_text g"
  using group_text_digits[of g] digit_not_special by (auto simp: filter_id_conv)

lemma filter_to_string: "filter (\<lambda>c. c \<noteq> CHR ''-'') (to_string u) = hex_of u"
  by (simp add: to_string_groups groups_def hex_of_def filter_group_text)

lemma length_hex_of: "length (hex_of u) = 32"
  using group_text_length[of _ u] by (simp add: hex_of_def groups_def)

lemma hex_of_halves:
  shows "take 16 (hex_of u) = concat (map group_text (take 3 (groups u)))"
    and "take 16 (drop 16 (hex_of u)) = concat (map group_text (drop 3 (groups u)))"
  using group_text_length[of _ u] by (simp_all add: hex_of_def groups_def)

lemma read_hi: "read_base 16 (take 16 (hex_of u)) = unat (m_hi u)"
proof -
  have "n div 2 ^ 32 * 16 ^ 8 + (n div 2 ^ 16 mod 2 ^ 16 * 16 ^ 4 + n mod 2 ^ 16) = n" for n :: nat
  proof -
    define q r where "q = n div 2 ^ 16" and "r = n mod 2 ^ 16"
    define a b where "a = q div 2 ^ 16" and "b = q mod 2 ^ 16"
    have "n = q * 65536 + r" "q = a * 65536 + b"
      by (simp_all add: q_def r_def a_def b_def)
    then have n: "n = a * 16 ^ 8 + (b * 16 ^ 4 + r)" by simp
    have d: "n div 2 ^ 32 = a" "n div 2 ^ 16 mod 2 ^ 16 = b" "n mod 2 ^ 16 = r"
      by (simp_all add: a_def b_def q_def r_def div_mult2_eq[symmetric])
    show ?thesis unfolding d by (rule n[symmetric])
  qed
  then show ?thesis
    using group_text_length[of _ u]
    by (simp add: hex_of_halves groups_def read_base_append group_text_read)
qed

lemma read_lo: "read_base 16 (take 16 (drop 16 (hex_of u))) = unat (m_lo u)"
  using group_text_length[of _ u]
  by (simp add: hex_of_halves groups_def read_base_append group_text_read)

lemma stoull16_digits:
  assumes "length s = 16" and "\<forall>c \<in> set s. is_digit 16 c" and "read_base 16 s = unat w"
  shows "stoull16 s = Inr w"
proof -
  from assms(1) have "s \<noteq> []" by auto
  with assms show ?thesis
    using unat_less_64[of w] by (simp add: stoull16_def strto_digits)
qed

lemma hex_of_digits: "\<forall>c \<in> set (hex_of u). is_digit 16 c"
  using group_text_digits by (auto simp: hex_of_def)

lemma from_to_string: "from_string (to_string u) = Inr u"
proof -
  have d: "\<forall>c \<in> set (take 16 (hex_of u)). is_digit 16 c"
    "\<forall>c \<in> set (take 16 (drop 16 (hex_of u))). is_digit 16 c"
    using hex_of_digits[of u] by (auto dest: in_set_takeD in_set_dropD)
  have "stoull16 (take 16 (hex_of u)) = Inr (m_hi u)"
    "stoull16 (take 16 (drop 16 (hex_of u))) = Inr (m_lo u)"
    using d read_hi read_lo by (auto intro!: stoull16_digits simp: length_hex_of)
  then show ?thesis
    by (simp only: from_string_def Let_def filter_to_string length_hex_of) simp
qed

lemma to_string_inj: "to_string u = to_string v \<Longrightarrow> u = v"
  by (metis from_to_string sum.inject(2))

lemma length_to_string [simp]: "length (to_string u) = 36"
  using group_text_length[of _ u] by (simp add: to_string_groups groups_def)

lemma to_string_nonempty [simp]: "to_string u \<noteq> []"
  using length_to_string[of u] by (metis list.size(3) zero_neq_numeral)

lemma from_string_length:
  "length (filter (\<lambda>c. c \<noteq> CHR ''-'') s) \<noteq> 32 \<Longrightarrow> from_string s = Inr Uuid_default"
  by (simp add: from_string_def Let_def)

text \<open>The texts \<^verbatim>\<open>from_string\<close> raises on: without their dashes they have 32 characters, and one of the halves
  does not begin, after white space and a sign, with a hexadecimal digit.\<close>

definition id_digits :: "string \<Rightarrow> string" where
  "id_digits x = filter (\<lambda>c. c \<noteq> CHR ''-'') x"

definition id_raises :: "string \<Rightarrow> bool" where
  "id_raises x \<longleftrightarrow> length (id_digits x) = 32 \<and>
     \<not> (starts_number 16 (take 16 (id_digits x)) \<and> starts_number 16 (drop 16 (id_digits x)))"

lemma stoull16_half:
  assumes "length s = 16"
  shows "if starts_number 16 s then \<exists>v. stoull16 s = Inr v else stoull16 s = Inl (Invalid_argument ''stoull'')"
proof (cases "strto 16 s")
  case None
  then show ?thesis using strto_None[of 16 s] by (simp add: stoull16_def)
next
  case (Some p)
  obtain neg n where p: "p = (neg, n)" by force
  have "n < 2 ^ 64" using strto_16_less[of s neg n] Some p assms by simp
  then have "stoull16 s = Inr (if neg then - of_nat n else of_nat n)" using Some p by (simp add: stoull16_def)
  moreover have "starts_number 16 s" using strto_None[of 16 s] Some by simp
  ultimately show ?thesis by simp
qed

lemma from_string_raises:
  "if id_raises x then from_string x = Inl (Invalid_argument ''stoull'') else \<exists>k. from_string x = Inr k"
proof (cases "length (id_digits x) = 32")
  case True
  have h: "take 16 (drop 16 (id_digits x)) = drop 16 (id_digits x)" using True by simp
  have "length (take 16 (id_digits x)) = 16" "length (drop 16 (id_digits x)) = 16" using True by simp_all
  from this[THEN stoull16_half] True show ?thesis
    unfolding from_string_def id_digits_def[symmetric] Let_def h id_raises_def
    by (cases "starts_number 16 (take 16 (id_digits x))"; cases "starts_number 16 (drop 16 (id_digits x))") auto
next
  case False
  then show ?thesis using from_string_length[of x] by (simp add: id_raises_def id_digits_def)
qed

section \<open>Generation\<close>

lemma generate_valid: "is_valid (generate r0 r1)"
proof -
  have "bit (m_lo (generate r0 r1)) 63"
    by (simp add: generate_def bit_simps)
  then have "m_lo (generate r0 r1) \<noteq> 0" by auto
  then show ?thesis by (simp add: is_valid_def)
qed

lemma generate_version: "drop_bit 12 (m_hi (generate r0 r1)) AND 0xF = 4"
  by (simp add: generate_def drop_bit_and drop_bit_or bit.conj_disj_distrib2 and.assoc)

lemma generate_variant: "drop_bit 62 (m_lo (generate r0 r1)) = 2"
  by (rule bit_word_eqI) (auto simp: generate_def bit_simps)

section \<open>Properties\<close>

text \<open>C21: reading the text form of an identifier gives the identifier back, so the text form is
  injective, and it has the 36 characters of the canonical form.\<close>

theorem uuid_roundtrip: "from_string (to_string u) = Inr u \<and> length (to_string u) = 36"
  by (simp add: from_to_string)

text \<open>A generated identifier is a random identifier of version 4 and of the RFC 4122 variant, and
  never the nil identifier.\<close>

theorem generate_v4:
  "drop_bit 12 (m_hi (generate r0 r1)) AND 0xF = 4 \<and> drop_bit 62 (m_lo (generate r0 r1)) = 2 \<and>
   is_valid (generate r0 r1)"
  by (simp add: generate_version generate_variant generate_valid)

text \<open>Thirty-two characters that are no hexadecimal digits raise an exception, where text of any
  other length gives the nil identifier without one; trailing garbage after a digit is accepted.\<close>

theorem from_string_malformed:
  "from_string ''zzzzzzzzzzzzzzzzzzzzzzzzzzzzzzzz'' = Inl (Invalid_argument ''stoull'') \<and>
   from_string ''not-a-uuid'' = Inr Uuid_default \<and>
   from_string ''1zzzzzzzzzzzzzzz2zzzzzzzzzzzzzzz'' = Inr \<lparr>m_hi = 1, m_lo = 2\<rparr>"
  by (simp add: from_string_def stoull16_def strto_def read_sign_def c_isspace_def skip_0x_def is_digit_def
      digit_val_def read_base_def dval_def Uuid_default_def Let_def)

end
