(* ===== verification/Entities.thy ===== *)
theory Entities
  imports Values Uuid
begin

text \<open>
  The entities of \<^verbatim>\<open>src/core/entities/\<close>: items with their stock status, users with their roles
  and permissions, categories, suppliers and warehouses. A \<^verbatim>\<open>system_clock::time_point\<close> is the
  number of nanoseconds since the epoch, as an integer.
\<close>

type_synonym time_point = int

section \<open>Items\<close>

datatype ItemStatus = kActive | kInactive | kDiscontinued | kOutOfStock

record Item =
  item_id :: Uuid
  sku :: string
  item_name :: string
  item_description :: string
  category_id :: Uuid
  supplier_id :: Uuid
  unit_price :: Money
  stock :: Quantity
  min_stock :: Quantity
  item_status :: ItemStatus
  created_at :: time_point
  updated_at :: time_point

definition Item_new ::
  "Uuid \<Rightarrow> string \<Rightarrow> string \<Rightarrow> string \<Rightarrow> Uuid \<Rightarrow> Uuid \<Rightarrow> Money \<Rightarrow> Quantity \<Rightarrow> Quantity \<Rightarrow> ItemStatus
    \<Rightarrow> time_point \<Rightarrow> time_point \<Rightarrow> Item" where
  "Item_new i s n d cid sid p st mst status cr up =
     \<lparr>item_id = i, sku = s, item_name = n, item_description = d, category_id = cid,
      supplier_id = sid, unit_price = p, stock = st, min_stock = mst, item_status = status,
      created_at = cr, updated_at = up\<rparr>"

definition set_name :: "string \<Rightarrow> Item \<Rightarrow> Item" where
  "set_name n i = i\<lparr>item_name := n\<rparr>"

definition set_description :: "string \<Rightarrow> Item \<Rightarrow> Item" where
  "set_description d i = i\<lparr>item_description := d\<rparr>"

definition set_unit_price :: "Money \<Rightarrow> Item \<Rightarrow> Item" where
  "set_unit_price p i = i\<lparr>unit_price := p\<rparr>"

definition set_stock :: "Quantity \<Rightarrow> Item \<Rightarrow> Item" where
  "set_stock q i = i\<lparr>stock := q\<rparr>"

definition set_min_stock :: "Quantity \<Rightarrow> Item \<Rightarrow> Item" where
  "set_min_stock q i = i\<lparr>min_stock := q\<rparr>"

definition set_status :: "ItemStatus \<Rightarrow> Item \<Rightarrow> Item" where
  "set_status s i = i\<lparr>item_status := s\<rparr>"

definition set_category_id :: "Uuid \<Rightarrow> Item \<Rightarrow> Item" where
  "set_category_id c i = i\<lparr>category_id := c\<rparr>"

definition set_supplier_id :: "Uuid \<Rightarrow> Item \<Rightarrow> Item" where
  "set_supplier_id c i = i\<lparr>supplier_id := c\<rparr>"

text \<open>\<^verbatim>\<open>mark_updated\<close> reads the clock; its reading is an argument.\<close>

definition mark_updated :: "time_point \<Rightarrow> Item \<Rightarrow> Item" where
  "mark_updated now i = i\<lparr>updated_at := now\<rparr>"

lemmas setter_defs =
  set_name_def set_description_def set_unit_price_def set_stock_def set_min_stock_def
  set_status_def set_category_id_def set_supplier_id_def mark_updated_def

definition is_low_stock :: "Item \<Rightarrow> bool" where
  "is_low_stock i \<longleftrightarrow> qty (stock i) \<le>s qty (min_stock i)"

definition is_out_of_stock :: "Item \<Rightarrow> bool" where
  "is_out_of_stock i \<longleftrightarrow> Quantity_is_empty (stock i)"

text \<open>\<^verbatim>\<open>Quantity::create(0).value()\<close> is the quantity 0 in the default unit.\<close>

definition available_stock :: "Item \<Rightarrow> Quantity" where
  "available_stock i =
     (if item_status i = kActive then stock i
      else (case Quantity_create 0 ''pcs'' of Inr q \<Rightarrow> q | Inl _ \<Rightarrow> Quantity_default))"

text \<open>
  What every item built by the use cases satisfies: a valid price, valid quantities, and one unit
  for the stock and its minimum (the table has one \<^verbatim>\<open>stock_unit\<close> column for both).
\<close>

definition item_ok :: "Item \<Rightarrow> bool" where
  "item_ok i \<longleftrightarrow> money_ok (unit_price i) \<and> quantity_ok (stock i) \<and> quantity_ok (min_stock i) \<and>
     unit_of (min_stock i) = unit_of (stock i)"

section \<open>Users\<close>

datatype UserRole = kAdmin | kManager | kOperator | kViewer

record User =
  user_id :: Uuid
  username :: string
  user_email :: Email
  password_hash :: string
  user_role :: UserRole
  user_active :: bool
  user_created_at :: time_point
  user_updated_at :: time_point

definition has_permission :: "User \<Rightarrow> string \<Rightarrow> bool" where
  "has_permission u p =
     (if \<not> user_active u then False
      else if user_role u = kAdmin then True
      else if p = ''view'' \<and> user_role u = kViewer then True
      else if (p = ''view'' \<or> p = ''create'' \<or> p = ''update'') \<and> user_role u = kOperator then True
      else if (p = ''view'' \<or> p = ''create'' \<or> p = ''update'' \<or> p = ''delete'') \<and> user_role u = kManager
        then True
      else False)"

fun role_to_string :: "UserRole \<Rightarrow> string" where
  "role_to_string kAdmin = ''admin''"
| "role_to_string kManager = ''manager''"
| "role_to_string kOperator = ''operator''"
| "role_to_string kViewer = ''viewer''"

definition string_to_role :: "string \<Rightarrow> UserRole" where
  "string_to_role s =
     (if s = ''admin'' then kAdmin
      else if s = ''manager'' then kManager
      else if s = ''operator'' then kOperator
      else kViewer)"

definition set_password_hash :: "string \<Rightarrow> User \<Rightarrow> User" where
  "set_password_hash h u = u\<lparr>password_hash := h\<rparr>"

definition set_role :: "UserRole \<Rightarrow> User \<Rightarrow> User" where
  "set_role r u = u\<lparr>user_role := r\<rparr>"

definition set_active :: "bool \<Rightarrow> User \<Rightarrow> User" where
  "set_active b u = u\<lparr>user_active := b\<rparr>"

lemma string_role_roundtrip [simp]: "string_to_role (role_to_string r) = r"
  by (cases r) (simp_all add: string_to_role_def)

section \<open>Categories, suppliers, warehouses\<close>

record Category =
  cat_id :: Uuid
  cat_name :: string
  cat_description :: string
  parent_id :: "Uuid option"
  cat_active :: bool
  cat_created_at :: time_point
  cat_updated_at :: time_point

record Supplier =
  sup_id :: Uuid
  sup_code :: string
  sup_name :: string
  contact_person :: string
  phone :: string
  sup_email :: string
  sup_address :: Address
  sup_active :: bool
  sup_created_at :: time_point
  sup_updated_at :: time_point

record Warehouse =
  wh_id :: Uuid
  wh_code :: string
  wh_name :: string
  location :: Address
  wh_active :: bool
  wh_created_at :: time_point
  wh_updated_at :: time_point

definition cat_set_name :: "string \<Rightarrow> Category \<Rightarrow> Category" where
  "cat_set_name n c = c\<lparr>cat_name := n\<rparr>"

definition cat_set_description :: "string \<Rightarrow> Category \<Rightarrow> Category" where
  "cat_set_description d c = c\<lparr>cat_description := d\<rparr>"

definition cat_set_parent_id :: "Uuid option \<Rightarrow> Category \<Rightarrow> Category" where
  "cat_set_parent_id p c = c\<lparr>parent_id := p\<rparr>"

definition cat_set_active :: "bool \<Rightarrow> Category \<Rightarrow> Category" where
  "cat_set_active b c = c\<lparr>cat_active := b\<rparr>"

definition sup_set_name :: "string \<Rightarrow> Supplier \<Rightarrow> Supplier" where
  "sup_set_name n s = s\<lparr>sup_name := n\<rparr>"

definition sup_set_contact_person :: "string \<Rightarrow> Supplier \<Rightarrow> Supplier" where
  "sup_set_contact_person x s = s\<lparr>contact_person := x\<rparr>"

definition sup_set_phone :: "string \<Rightarrow> Supplier \<Rightarrow> Supplier" where
  "sup_set_phone x s = s\<lparr>phone := x\<rparr>"

definition sup_set_email :: "string \<Rightarrow> Supplier \<Rightarrow> Supplier" where
  "sup_set_email x s = s\<lparr>sup_email := x\<rparr>"

definition sup_set_address :: "Address \<Rightarrow> Supplier \<Rightarrow> Supplier" where
  "sup_set_address a s = s\<lparr>sup_address := a\<rparr>"

definition sup_set_active :: "bool \<Rightarrow> Supplier \<Rightarrow> Supplier" where
  "sup_set_active b s = s\<lparr>sup_active := b\<rparr>"

definition wh_set_name :: "string \<Rightarrow> Warehouse \<Rightarrow> Warehouse" where
  "wh_set_name n w = w\<lparr>wh_name := n\<rparr>"

definition wh_set_location :: "Address \<Rightarrow> Warehouse \<Rightarrow> Warehouse" where
  "wh_set_location a w = w\<lparr>location := a\<rparr>"

definition wh_set_active :: "bool \<Rightarrow> Warehouse \<Rightarrow> Warehouse" where
  "wh_set_active b w = w\<lparr>wh_active := b\<rparr>"

section \<open>Stock\<close>

lemma available_stock_inactive:
  "item_status i \<noteq> kActive \<Longrightarrow> available_stock i = \<lparr>qty = 0, unit_of = ''pcs''\<rparr>"
  by (simp add: available_stock_def Quantity_create_def word_sless_alt)

text \<open>An item that is out of stock is also low on stock, for valid quantities, and only an
  active item with stock has stock available.\<close>

theorem stock_levels:
  assumes "item_ok i"
  shows "(is_out_of_stock i \<longrightarrow> is_low_stock i) \<and>
    (Quantity_is_empty (available_stock i) \<longleftrightarrow> is_out_of_stock i \<or> item_status i \<noteq> kActive) \<and>
    quantity_ok (available_stock i)"
proof (cases "item_status i = kActive")
  case True
  then show ?thesis
    using assms by (auto simp: item_ok_def is_out_of_stock_def is_low_stock_def Quantity_is_empty_def
      available_stock_def quantity_ok_iff word_sle_eq)
next
  case False
  then show ?thesis
    using assms by (auto simp: item_ok_def is_out_of_stock_def is_low_stock_def Quantity_is_empty_def
      available_stock_inactive quantity_ok_iff word_sle_eq)
qed

definition sample_item :: Item where
  "sample_item = Item_new \<lparr>m_hi = 0xE000000000000000, m_lo = 1\<rparr> ''SKU001'' ''Test Item'' ''A test item''
     \<lparr>m_hi = 0xB000000000000000, m_lo = 1\<rparr> \<lparr>m_hi = 0xC000000000000000, m_lo = 1\<rparr>
     \<lparr>amount = 15000000, currency = ''IDR''\<rparr> \<lparr>qty = 50, unit_of = ''pcs''\<rparr>
     \<lparr>qty = 10, unit_of = ''pcs''\<rparr> kActive 0 0"

lemma sample_item_ok [simp]: "item_ok sample_item"
  by (simp add: sample_item_def Item_new_def item_ok_def money_ok_iff quantity_ok_iff)

theorem stock_levels_witness: "quantity_ok (available_stock sample_item)"
  using stock_levels[OF sample_item_ok] by blast

section \<open>Permissions\<close>

text \<open>The roles in increasing order of rights.\<close>

fun rank :: "UserRole \<Rightarrow> nat" where
  "rank kViewer = 0"
| "rank kOperator = 1"
| "rank kManager = 2"
| "rank kAdmin = 3"

instantiation UserRole :: linorder
begin

definition less_eq_UserRole :: "UserRole \<Rightarrow> UserRole \<Rightarrow> bool" where
  "r \<le> r' \<longleftrightarrow> rank r \<le> rank r'"

definition less_UserRole :: "UserRole \<Rightarrow> UserRole \<Rightarrow> bool" where
  "r < r' \<longleftrightarrow> rank r < rank r'"

instance
proof
  fix r r' :: UserRole
  show "r \<le> r' \<Longrightarrow> r' \<le> r \<Longrightarrow> r = r'" by (cases r; cases r') (simp_all add: less_eq_UserRole_def)
qed (auto simp: less_eq_UserRole_def less_UserRole_def)

end

text \<open>Permissions grow with the role: what an active user may do, every active user of a higher
  role may do, and a deactivated account may do nothing.\<close>

theorem has_permission_mono:
  "(has_permission u p \<longrightarrow> user_active v \<longrightarrow> user_role u \<le> user_role v \<longrightarrow> has_permission v p)
   \<and> (\<not> user_active u \<longrightarrow> \<not> has_permission u p)"
  by (cases "user_role u"; cases "user_role v") (auto simp: has_permission_def less_eq_UserRole_def)

definition sample_user :: "UserRole \<Rightarrow> User" where
  "sample_user r = \<lparr>user_id = \<lparr>m_hi = 0xA000000000000000, m_lo = 1\<rparr>, username = ''testuser'',
     user_email = \<lparr>email_value = ''test@test.com''\<rparr>, password_hash = ''hash123'', user_role = r,
     user_active = True, user_created_at = 0, user_updated_at = 0\<rparr>"

theorem has_permission_mono_witness:
  "has_permission (sample_user kOperator) ''update'' \<and> has_permission (sample_user kManager) ''update''"
  using has_permission_mono[of "sample_user kOperator" "''update''" "sample_user kManager"]
  by (simp add: sample_user_def has_permission_def less_eq_UserRole_def)

text \<open>Reading back the text of a role gives the role; every other text is read as the least
  privileged role.\<close>

theorem role_text:
  "string_to_role (role_to_string r) = r \<and>
   ((\<forall>r'. s \<noteq> role_to_string r') \<longrightarrow> string_to_role s = kViewer)"
proof -
  have "string_to_role s = kViewer" if "\<forall>r'. s \<noteq> role_to_string r'"
    using that[rule_format, of kAdmin] that[rule_format, of kManager] that[rule_format, of kOperator]
    by (simp add: string_to_role_def)
  then show ?thesis by simp
qed

theorem role_text_witness: "string_to_role ''Admin'' = kViewer"
proof -
  have "\<forall>r'. ''Admin'' \<noteq> role_to_string r'"
  proof
    fix r' show "''Admin'' \<noteq> role_to_string r'" by (cases r') simp_all
  qed
  then show ?thesis using role_text[of kAdmin "''Admin''"] by blast
qed

end
