(* ===== verification/Repository.thy ===== *)
theory Repository
  imports Entities
begin

text \<open>
  \<^verbatim>\<open>src/core/repositories/\<close>: the abstract repositories as records of operations (the virtual
  functions of the class), and the contract the use cases rely on as a locale over an abstraction of
  the provider's state, the map from identifiers to stored items.
\<close>

section \<open>Interfaces\<close>

record ItemFilter =
  f_search :: "string option"
  f_category_id :: "Uuid option"
  f_status :: "ItemStatus option"
  f_min_stock :: "int64 option"
  f_max_price :: "int64 option"
  f_page :: int32
  f_page_size :: int32

definition ItemFilter_default :: ItemFilter where
  "ItemFilter_default = \<lparr>f_search = None, f_category_id = None, f_status = None, f_min_stock = None,
     f_max_price = None, f_page = 1, f_page_size = 20\<rparr>"

record 's ItemRepository =
  find_by_id :: "Uuid \<Rightarrow> ('s, Item Result) op"
  find_by_sku :: "string \<Rightarrow> ('s, Item Result) op"
  find_all :: "ItemFilter \<Rightarrow> ('s, Item list Result) op"
  count_items :: "ItemFilter \<Rightarrow> ('s, int64 Result) op"
  save :: "Item \<Rightarrow> ('s, Item Result) op"
  update :: "Item \<Rightarrow> ('s, Item Result) op"
  remove :: "Uuid \<Rightarrow> ('s, unit Result) op"
  find_low_stock :: "('s, Item list Result) op"

record 's UserRepository =
  u_find_by_id :: "Uuid \<Rightarrow> ('s, User Result) op"
  u_find_by_username :: "string \<Rightarrow> ('s, User Result) op"
  u_find_by_email :: "Email \<Rightarrow> ('s, User Result) op"
  u_find_all :: "int32 \<Rightarrow> int32 \<Rightarrow> ('s, User list Result) op"
  u_save :: "User \<Rightarrow> ('s, User Result) op"
  u_update :: "User \<Rightarrow> ('s, User Result) op"
  u_remove :: "Uuid \<Rightarrow> ('s, unit Result) op"

text \<open>Two interfaces that no class implements yet.\<close>

record 's WarehouseRepository =
  w_find_by_id :: "Uuid \<Rightarrow> ('s, Warehouse Result) op"
  w_find_by_code :: "string \<Rightarrow> ('s, Warehouse Result) op"
  w_find_all :: "bool \<Rightarrow> ('s, Warehouse list Result) op"
  w_save :: "Warehouse \<Rightarrow> ('s, Warehouse Result) op"
  w_update :: "Warehouse \<Rightarrow> ('s, Warehouse Result) op"
  w_remove :: "Uuid \<Rightarrow> ('s, unit Result) op"

record 's InventoryService =
  add_stock :: "Uuid \<Rightarrow> Quantity \<Rightarrow> ('s, Item Result) op"
  remove_stock :: "Uuid \<Rightarrow> Quantity \<Rightarrow> ('s, Item Result) op"
  get_low_stock_items :: "('s, Item list Result) op"
  transfer_stock :: "Uuid \<Rightarrow> Uuid \<Rightarrow> Uuid \<Rightarrow> Quantity \<Rightarrow> ('s, unit Result) op"
  get_available_stock :: "Uuid \<Rightarrow> ('s, Quantity Result) op"

section \<open>The contract of an item repository\<close>

text \<open>What an item is apart from its time stamps, which a store may round.\<close>

definition same_item :: "Item \<Rightarrow> Item \<Rightarrow> bool" where
  "same_item i j \<longleftrightarrow> i\<lparr>created_at := 0, updated_at := 0\<rparr> = j\<lparr>created_at := 0, updated_at := 0\<rparr>"

lemma same_item_refl [simp]: "same_item i i"
  by (simp add: same_item_def)

lemma same_item_fields:
  "same_item i j \<Longrightarrow> item_id i = item_id j \<and> sku i = sku j \<and> item_name i = item_name j \<and>
     item_description i = item_description j \<and> category_id i = category_id j \<and>
     supplier_id i = supplier_id j \<and> unit_price i = unit_price j \<and> stock i = stock j \<and>
     min_stock i = min_stock j \<and> item_status i = item_status j"
  by (cases i; cases j) (simp add: same_item_def)

lemma same_item_ok: "same_item i j \<Longrightarrow> item_ok i = item_ok j"
  by (simp add: item_ok_def same_item_fields)

lemma same_item_sym: "same_item i j \<Longrightarrow> same_item j i"
  by (simp add: same_item_def)

lemma same_item_trans: "same_item i j \<Longrightarrow> same_item j k \<Longrightarrow> same_item i k"
  by (simp add: same_item_def)

text \<open>No stored item has this stock keeping unit, apart from the one with identifier \<open>k\<close>.\<close>

definition sku_free :: "(Uuid \<Rightarrow> Item option) \<Rightarrow> Uuid \<Rightarrow> string \<Rightarrow> bool" where
  "sku_free m k x \<longleftrightarrow> (\<forall>j i. m j = Some i \<longrightarrow> sku i = x \<longrightarrow> j = k)"

text \<open>
  A well-formed table: items under their own identifiers, with distinct stock keeping units and
  valid prices and quantities.
\<close>

definition table_ok :: "(Uuid \<Rightarrow> Item option) \<Rightarrow> bool" where
  "table_ok m \<longleftrightarrow> finite (dom m) \<and>
     (\<forall>k i. m k = Some i \<longrightarrow> item_id i = k \<and> item_ok i \<and> sku_free m k (sku i))"

lemma table_ok_insert:
  assumes "table_ok m" and "item_ok i" and "sku_free m (item_id i) (sku i)"
  shows "table_ok (m(item_id i \<mapsto> i))"
  using assms by (auto simp: table_ok_def sku_free_def split: if_splits)

lemma table_ok_delete: "table_ok m \<Longrightarrow> table_ok (m(k := None))"
  by (auto simp: table_ok_def sku_free_def)

text \<open>
  \<open>ready s\<close>: the provider can serve (its storage is reachable); \<open>storable i\<close>: the storage accepts
  the item's references and texts.
\<close>

locale item_repository =
  fixes repo :: "'s ItemRepository"
    and table :: "'s \<Rightarrow> Uuid \<Rightarrow> Item option"
    and ready :: "'s \<Rightarrow> bool"
    and storable :: "Item \<Rightarrow> bool"
  assumes table_wf: "ready s \<Longrightarrow> table_ok (table s)"
    and by_id: "ready s \<Longrightarrow> \<exists>r s'. find_by_id repo k s = Some (r, s') \<and> ready s' \<and> table s' = table s \<and>
      (case table s k of Some i \<Rightarrow> r = Inr i | None \<Rightarrow> \<exists>m. r = Inl (not_found m))"
    and by_sku: "ready s \<Longrightarrow> \<exists>r s'. find_by_sku repo x s = Some (r, s') \<and> ready s' \<and> table s' = table s \<and>
      (case r of Inr i \<Rightarrow> table s (item_id i) = Some i \<and> sku i = x
       | Inl e \<Rightarrow> err_code e = kNotFound \<and> (\<forall>k i. table s k = Some i \<longrightarrow> sku i \<noteq> x))"
    and saves: "ready s \<Longrightarrow> storable i \<Longrightarrow> item_ok i \<Longrightarrow> table s (item_id i) = None \<Longrightarrow>
      sku_free (table s) (item_id i) (sku i) \<Longrightarrow>
      \<exists>j s'. save repo i s = Some (Inr j, s') \<and> ready s' \<and> same_item i j \<and>
        table s' = (table s)(item_id i \<mapsto> j)"
    and updates: "ready s \<Longrightarrow> storable i \<Longrightarrow> item_ok i \<Longrightarrow> table s (item_id i) = Some i0 \<Longrightarrow>
      sku_free (table s) (item_id i) (sku i) \<Longrightarrow>
      \<exists>j s'. update repo i s = Some (Inr j, s') \<and> ready s' \<and> same_item i j \<and>
        created_at j = created_at i0 \<and> table s' = (table s)(item_id i \<mapsto> j)"
    and removes: "ready s \<Longrightarrow> table s k \<noteq> None \<Longrightarrow>
      \<exists>s'. remove repo k s = Some (Inr (), s') \<and> ready s' \<and> table s' = (table s)(k := None)"

section \<open>The contract of listing\<close>

text \<open>All items that satisfy \<open>P\<close>, the youngest first; items of the same age come in any order.\<close>

definition listing :: "(Uuid \<Rightarrow> Item option) \<Rightarrow> (Item \<Rightarrow> bool) \<Rightarrow> (Uuid \<Rightarrow> int) \<Rightarrow> Uuid list \<Rightarrow> bool" where
  "listing m P born ks \<longleftrightarrow> distinct ks \<and> set ks = {k. \<exists>i. m k = Some i \<and> P i} \<and>
     sorted_wrt (\<lambda>k k'. born k' \<le> born k) ks"

lemma length_listing: "listing m P born ks \<Longrightarrow> length ks = card {k. \<exists>i. m k = Some i \<and> P i}"
  using distinct_card[of ks] by (simp add: listing_def)

definition page_offset :: "ItemFilter \<Rightarrow> int32" where
  "page_offset f = (f_page f - 1) * f_page_size f"

definition negative_page :: "ItemFilter \<Rightarrow> bool" where
  "negative_page f \<longleftrightarrow> sint (f_page_size f) < 0 \<or> sint (page_offset f) < 0"

text \<open>A repository that can also list: \<open>picks f\<close> are the items a filter selects, \<open>born\<close> orders them;
  \<open>accepts f\<close>: the storage can read the texts of the filter.\<close>

locale listing_repository = item_repository repo table ready storable
  for repo :: "'s ItemRepository" and table :: "'s \<Rightarrow> Uuid \<Rightarrow> Item option" and ready :: "'s \<Rightarrow> bool"
    and storable :: "Item \<Rightarrow> bool" +
  fixes picks :: "ItemFilter \<Rightarrow> Item \<Rightarrow> bool"
    and born :: "'s \<Rightarrow> Uuid \<Rightarrow> int"
    and accepts :: "ItemFilter \<Rightarrow> bool"
  assumes gives_page: "ready s \<Longrightarrow> accepts f \<Longrightarrow> \<not> negative_page f \<Longrightarrow>
      \<exists>ks s'. find_all repo f s = Some (Inr (map (the \<circ> table s)
          (take (nat (sint (f_page_size f))) (drop (nat (sint (page_offset f))) ks))), s') \<and>
        ready s' \<and> table s' = table s \<and> listing (table s) (picks f) (born s) ks"
    and refuses_page: "ready s \<Longrightarrow> accepts f \<Longrightarrow> negative_page f \<Longrightarrow>
      \<exists>m s'. find_all repo f s = Some (Inl (database m), s') \<and> ready s' \<and> table s' = table s"
    and counts_items: "ready s \<Longrightarrow> accepts f \<Longrightarrow> card {k. \<exists>i. table s k = Some i \<and> picks f i} < 2 ^ 63 \<Longrightarrow>
      \<exists>s'. count_items repo f s = Some (Inr (of_nat (card {k. \<exists>i. table s k = Some i \<and> picks f i})), s') \<and>
        ready s' \<and> table s' = table s"

section \<open>The contract of a user directory\<close>

text \<open>What the authentication needs of a user repository: lookups answer from a fixed set of users with
  distinct identifiers and names, and change nothing.\<close>

definition distinct_users :: "User set \<Rightarrow> bool" where
  "distinct_users us \<longleftrightarrow> (\<forall>u \<in> us. \<forall>v \<in> us. user_id u = user_id v \<or> username u = username v \<longrightarrow> u = v)"

locale user_directory =
  fixes users :: "'s UserRepository"
    and members :: "'s \<Rightarrow> User set"
    and ready :: "'s \<Rightarrow> bool"
  assumes members_distinct: "ready s \<Longrightarrow> distinct_users (members s)"
    and name_lookup: "ready s \<Longrightarrow> \<exists>r s'. u_find_by_username users n s = Some (r, s') \<and> ready s' \<and> members s' = members s \<and>
      (case r of Inr u \<Rightarrow> u \<in> members s \<and> username u = n
       | Inl e \<Rightarrow> err_code e = kNotFound \<and> (\<forall>u \<in> members s. username u \<noteq> n))"
    and id_lookup: "ready s \<Longrightarrow> \<exists>r s'. u_find_by_id users k s = Some (r, s') \<and> ready s' \<and> members s' = members s \<and>
      (case r of Inr u \<Rightarrow> u \<in> members s \<and> user_id u = k
       | Inl e \<Rightarrow> err_code e = kNotFound \<and> (\<forall>u \<in> members s. user_id u \<noteq> k))"

end
