(* ===== verification/Double.thy ===== *)
theory Double
  imports Complex_Main Values "HOL-Library.Log_Nat"
begin

text \<open>
  The double precision arithmetic of the program: \<^verbatim>\<open>Money::multiply\<close> and the page count of
  \<^verbatim>\<open>ListItemsUseCase::execute\<close>. A finite double is the rational number it stands for; an
  operation is the exact result rounded to 53 significant bits, ties to even. The operands here are
  64-bit integers and factors, so no quotient leaves the normal range; a factor is any finite
  double, and products too large or too small for the format are rejected or truncated to zero by
  the conversion to an integer either way.
\<close>

section \<open>Rounding\<close>

text \<open>The exponent \<open>k\<close> with \<open>2^k \<le> x < 2^(k+1)\<close>, from the lengths of numerator and denominator.\<close>

definition exponent :: "rat \<Rightarrow> int" where
  "exponent x =
     (let (p, q) = quotient_of x; k = bitlen p - bitlen q
      in if 2 powi k \<le> x then k else k - 1)"

definition round_even :: "rat \<Rightarrow> int" where
  "round_even x =
     (let f = \<lfloor>x\<rfloor>; d = x - of_int f
      in if d < 1 / 2 then f else if d > 1 / 2 then f + 1 else if even f then f else f + 1)"

definition ulp :: "rat \<Rightarrow> rat" where
  "ulp x = 2 powi (exponent \<bar>x\<bar> - 52)"

definition fl :: "rat \<Rightarrow> rat" where
  "fl x = (if x = 0 then 0 else of_int (round_even (x / ulp x)) * ulp x)"

lemma bitlen_powi: "0 < p \<Longrightarrow> (2::rat) powi (bitlen p - 1) \<le> of_int p \<and> (of_int p :: rat) < 2 powi bitlen p"
proof -
  assume p: "0 < p"
  then have "1 \<le> bitlen p" by (simp add: bitlen_alt_def)
  have b: "2 ^ nat (bitlen p - 1) \<le> p" "p < 2 ^ nat (bitlen p)" using bitlen_bounds[OF p] by auto
  have "(of_int (2 ^ nat (bitlen p - 1)) :: rat) \<le> of_int p" "(of_int p :: rat) < of_int (2 ^ nat (bitlen p))"
    using b by (simp_all only: of_int_le_iff of_int_less_iff)
  moreover have "(2::rat) powi (bitlen p - 1) = of_int (2 ^ nat (bitlen p - 1))"
    "(2::rat) powi bitlen p = of_int (2 ^ nat (bitlen p))"
    using \<open>1 \<le> bitlen p\<close> by (simp_all add: power_int_def)
  ultimately show ?thesis by simp
qed

lemma exponent_bounds:
  assumes "0 < x"
  shows "2 powi exponent x \<le> x \<and> x < 2 powi (exponent x + 1)"
proof -
  obtain p q where pq: "quotient_of x = (p, q)" by force
  have q: "0 < q" using quotient_of_denom_pos[OF pq] .
  have x: "x = of_int p / of_int q" using quotient_of_div[OF pq] .
  then have p: "0 < p" using assms q by (simp add: zero_less_divide_iff)
  define bp bq where "bp = bitlen p" and "bq = bitlen q"
  have P: "(2::rat) powi (bp - 1) \<le> of_int p" "(of_int p :: rat) < 2 powi bp"
    and Q: "(2::rat) powi (bq - 1) \<le> of_int q" "(of_int q :: rat) < 2 powi bq"
    using bitlen_powi[OF p] bitlen_powi[OF q] by (simp_all add: bp_def bq_def)
  have lower: "2 powi (bp - bq - 1) \<le> x"
  proof -
    have "(2::rat) powi (bp - bq - 1) = 2 powi (bp - 1) / 2 powi bq"
      by (simp add: power_int_diff[symmetric] algebra_simps)
    also have "\<dots> \<le> of_int p / of_int q"
      using P(1) Q(2) q p by (intro frac_le) auto
    finally show ?thesis using x by simp
  qed
  have upper: "x < 2 powi (bp - bq + 1)"
  proof -
    have "of_int p / of_int q < (2::rat) powi bp / 2 powi (bq - 1)"
      using P(2) Q(1) q p by (intro frac_less) auto
    also have "\<dots> = 2 powi (bp - bq + 1)"
      by (simp add: power_int_diff[symmetric] algebra_simps)
    finally show ?thesis using x by simp
  qed
  show ?thesis
    using lower upper by (auto simp: exponent_def pq Let_def bp_def[symmetric] bq_def[symmetric])
qed

lemma round_even_error: "\<bar>of_int (round_even x) - x\<bar> \<le> 1 / 2"
proof -
  have "of_int \<lfloor>x\<rfloor> \<le> x" "x < of_int \<lfloor>x\<rfloor> + 1" by linarith+
  then show ?thesis unfolding round_even_def Let_def by (auto simp: abs_le_iff)
qed

lemma round_even_int [simp]: "round_even (of_int n) = n"
  by (simp add: round_even_def)

lemma ulp_pos [simp]: "0 < ulp x"
  by (simp add: ulp_def)

lemma fl_error: "\<bar>fl x - x\<bar> \<le> ulp x / 2"
proof (cases "x = 0")
  case False
  have "ulp x \<noteq> 0" using ulp_pos[of x] by linarith
  then have "fl x - x = (of_int (round_even (x / ulp x)) - x / ulp x) * ulp x"
    using False by (simp add: fl_def algebra_simps)
  then have "\<bar>fl x - x\<bar> = \<bar>of_int (round_even (x / ulp x)) - x / ulp x\<bar> * ulp x"
    using ulp_pos[of x] by (simp add: abs_mult less_imp_le)
  also have "\<dots> \<le> 1 / 2 * ulp x"
    by (intro mult_right_mono round_even_error) (simp add: less_imp_le)
  finally show ?thesis by simp
qed (simp add: fl_def less_imp_le)

lemma ulp_le: "x \<noteq> 0 \<Longrightarrow> ulp x \<le> \<bar>x\<bar> / 2 ^ 52"
proof -
  assume "x \<noteq> 0"
  then have "2 powi exponent \<bar>x\<bar> \<le> \<bar>x\<bar>" using exponent_bounds[of "\<bar>x\<bar>"] by simp
  then show ?thesis by (simp add: ulp_def power_int_diff divide_right_mono)
qed

lemma fl_int: "\<bar>n\<bar> < 2 ^ 53 \<Longrightarrow> fl (of_int n) = of_int n"
proof (cases "n = 0")
  case False
  assume n: "\<bar>n\<bar> < 2 ^ 53"
  define k where "k = exponent \<bar>of_int n\<bar>"
  have k: "2 powi k \<le> \<bar>rat_of_int n\<bar>" using False exponent_bounds[of "\<bar>of_int n\<bar>"] by (simp add: k_def)
  have "\<bar>of_int n\<bar> < (2::rat) powi 53"
  proof -
    have "(of_int \<bar>n\<bar> :: rat) < of_int (2 ^ 53)" using n by (simp only: of_int_less_iff)
    then show ?thesis by simp
  qed
  with k have "(2::rat) powi k < 2 powi 53" by linarith
  then have "k < 53" using power_int_increasing[of 53 k "2::rat"] by (meson not_le one_le_numeral)
  then have u: "1 / ulp (of_int n) = 2 ^ nat (52 - k)"
    by (simp add: ulp_def k_def[symmetric] power_int_def inverse_eq_divide power_divide)
  have "of_int n / ulp (of_int n) = of_int n * (1 / ulp (of_int n))" by simp
  also have "\<dots> = of_int (n * 2 ^ nat (52 - k))" unfolding u by simp
  finally have e: "of_int n / ulp (of_int n) = of_int (n * 2 ^ nat (52 - k))" .
  have "fl (of_int n) = of_int (n * 2 ^ nat (52 - k)) * ulp (of_int n)"
    using False unfolding fl_def e round_even_int by simp
  also have "\<dots> = of_int n"
  proof -
    have "ulp (of_int n) \<noteq> 0" using ulp_pos[of "of_int n"] by linarith
    then show ?thesis unfolding e[symmetric] by simp
  qed
  finally show ?thesis .
qed (simp add: fl_def)

section \<open>The program's uses\<close>

text \<open>A conversion to an integer type out of its range is undefined: \<open>None\<close>.\<close>

definition Money_multiply :: "Money \<Rightarrow> rat \<Rightarrow> Money option" where
  "Money_multiply m factor =
     (let x = fl (fl (of_int (sint (amount m))) * factor);
          i = (if x < 0 then \<lceil>x\<rceil> else \<lfloor>x\<rfloor>)
      in if - (2 ^ 63) \<le> i \<and> i < 2 ^ 63 then Some \<lparr>amount = word_of_int i, currency = currency m\<rparr>
         else None)"

definition total_pages :: "int64 \<Rightarrow> int32 \<Rightarrow> int32 option" where
  "total_pages cnt page_size =
     (if page_size = 0 then None
      else let c = \<lceil>fl (fl (of_int (sint cnt)) / of_int (sint page_size))\<rceil>
           in if - (2 ^ 31) \<le> c \<and> c < 2 ^ 31 then Some (word_of_int c) else None)"

lemma ceiling_fl_div:
  fixes a b :: int
  assumes "0 \<le> a" and "a < 2 ^ 53" and "0 < b"
  shows "\<lceil>fl (of_int a / of_int b)\<rceil> = (a + b - 1) div b"
proof (cases "a = 0")
  case True
  have "(b - 1) div b = 0" using assms(3) by simp
  with True show ?thesis by (simp add: fl_def)
next
  case False
  define x :: rat where "x = of_int a / of_int b"
  define n where "n = (a + b - 1) div b"
  have xpos: "0 < x" using False assms by (simp add: x_def)
  have nb: "a \<le> n * b" "n * b \<le> a + b - 1"
    using assms(3) div_mult_mod_eq[of "a + b - 1" b] pos_mod_bound[of b "a + b - 1"] pos_mod_sign[of b "a + b - 1"]
    unfolding n_def by linarith+
  have bpos: "(0::rat) < of_int b" using assms(3) by simp
  have half: "ulp x / 2 < 1 / of_int b"
  proof -
    have "ulp x \<le> of_int a / of_int b / 2 ^ 52" using ulp_le[of x] xpos unfolding x_def by linarith
    moreover have "(of_int a :: rat) < 2 ^ 53"
    proof -
      have "(of_int a :: rat) < of_int (2 ^ 53)" using assms(2) by (simp only: of_int_less_iff)
      then show ?thesis by simp
    qed
    then have "of_int a / of_int b / 2 ^ 53 < 1 / (of_int b :: rat)" using bpos by (simp add: field_simps)
    ultimately show ?thesis by simp
  qed
  have "of_int (n - 1) < fl x"
  proof -
    have "(n - 1) * b + 1 \<le> a" using nb by (simp add: algebra_simps)
    then have "of_int ((n - 1) * b + 1) \<le> (of_int a :: rat)" by (simp only: of_int_le_iff)
    then have "of_int ((n - 1) * b + 1) / of_int b \<le> x" unfolding x_def using bpos by (intro divide_right_mono) auto
    moreover have "of_int ((n - 1) * b + 1) / of_int b = of_int (n - 1) + 1 / (of_int b :: rat)"
      using bpos by (simp add: field_simps)
    ultimately have "of_int (n - 1) + 1 / of_int b \<le> x" by simp
    then show ?thesis using fl_error[of x] half by linarith
  qed
  moreover have "fl x \<le> of_int n"
  proof (cases "n * b = a")
    case True
    have "0 < n" using assms(1,3) True False by (metis less_le mult_less_0_iff not_less zero_less_mult_iff)
    then have "n * 1 \<le> n * b" using assms(3) by (intro mult_left_mono) auto
    then have "\<bar>n\<bar> < 2 ^ 53" using True assms(2) \<open>0 < n\<close> by simp
    moreover have "x = of_int n" using True[symmetric] bpos by (simp add: x_def)
    ultimately show ?thesis using fl_int[of n] by simp
  next
    case ne: False
    then have "a + 1 \<le> n * b" using nb by simp
    then have "of_int (a + 1) \<le> (of_int (n * b) :: rat)" by (simp only: of_int_le_iff)
    then have "x + 1 / of_int b \<le> of_int n" using bpos by (simp add: x_def field_simps)
    then show ?thesis using fl_error[of x] half by linarith
  qed
  ultimately show ?thesis unfolding x_def[symmetric] n_def[symmetric] by (simp add: ceiling_eq_iff)
qed

text \<open>Computed in double precision, the number of pages is still exactly the count over the page
  size rounded up, for every count that a double holds exactly.\<close>

theorem total_pages_exact:
  assumes "0 \<le> sint cnt" and "sint cnt < 2 ^ 53" and "0 < sint page_size"
    and "(sint cnt + sint page_size - 1) div sint page_size < 2 ^ 31"
  shows "total_pages cnt page_size = Some (word_of_int ((sint cnt + sint page_size - 1) div sint page_size))"
proof -
  have "page_size \<noteq> 0" using assms(3) by auto
  moreover have "fl (of_int (sint cnt)) = of_int (sint cnt)" using assms by (intro fl_int) simp
  moreover have "0 \<le> (sint cnt + sint page_size - 1) div sint page_size"
    using assms by (simp add: pos_imp_zdiv_nonneg_iff)
  moreover note ceiling_fl_div[OF assms(1,2,3)]
  ultimately show ?thesis
    unfolding total_pages_def Let_def using assms(4) by (simp del: of_int_sint)
qed

theorem total_pages_exact_witness: "total_pages 41 20 = Some 3"
  using total_pages_exact[of 41 20] by simp

text \<open>An amount times a whole factor is exact while the product stays below two to
  the 53rd.\<close>

theorem Money_multiply_whole:
  assumes "\<bar>sint (amount m)\<bar> < 2 ^ 53" and "\<bar>sint (amount m) * k\<bar> < 2 ^ 53"
  shows "Money_multiply m (of_int k) = Some \<lparr>amount = word_of_int (sint (amount m) * k), currency = currency m\<rparr>"
proof -
  have "fl (of_int (sint (amount m))) = of_int (sint (amount m))" using assms(1) by (rule fl_int)
  moreover have "fl (of_int (sint (amount m)) * of_int k) = of_int (sint (amount m) * k)"
    using fl_int[OF assms(2)] by simp
  ultimately have "fl (fl (of_int (sint (amount m))) * of_int k) = of_int (sint (amount m) * k)" by simp
  moreover have "- (2 ^ 63) \<le> sint (amount m) * k" "sint (amount m) * k < 2 ^ 63"
    using assms(2) by (simp_all add: abs_less_iff)
  ultimately show ?thesis unfolding Money_multiply_def Let_def by (simp only: floor_of_int ceiling_of_int if_cancel) simp
qed

theorem Money_multiply_whole_witness:
  "Money_multiply \<lparr>amount = 15000, currency = ''IDR''\<rparr> 3 = Some \<lparr>amount = 45000, currency = ''IDR''\<rparr>"
  using Money_multiply_whole[of "\<lparr>amount = 15000, currency = ''IDR''\<rparr>" 3] by simp

text \<open>Rounding changes a number by at most its 53rd binary part, and keeps the sign.\<close>

lemma fl_relative: "\<bar>fl x - x\<bar> \<le> \<bar>x\<bar> / 2 ^ 53"
proof (cases "x = 0")
  case False
  have "ulp x / 2 \<le> \<bar>x\<bar> / 2 ^ 53" using ulp_le[OF False] by simp
  then show ?thesis using fl_error[of x] by linarith
qed (simp add: fl_def)

lemma fl_nonneg: "0 \<le> x \<Longrightarrow> 0 \<le> fl x"
proof -
  assume "0 \<le> x"
  then have "\<bar>fl x - x\<bar> \<le> x / 2 ^ 53" using fl_relative[of x] by simp
  moreover have "x / 2 ^ 53 \<le> x" using \<open>0 \<le> x\<close> by simp
  ultimately show ?thesis by linarith
qed

text \<open>Two roundings in a row: of a factor and of the product.\<close>

lemma fl_fl_mult: "\<bar>fl (fl a * f) - a * f\<bar> \<le> \<bar>a * f\<bar> / 2 ^ 51"
proof -
  let ?e = "1 / 2 ^ 53 :: rat"
  have "\<bar>fl a - a\<bar> * \<bar>f\<bar> \<le> \<bar>a\<bar> * ?e * \<bar>f\<bar>" using fl_relative[of a] by (intro mult_right_mono) simp_all
  then have 1: "\<bar>fl a * f - a * f\<bar> \<le> \<bar>a * f\<bar> * ?e" by (simp add: abs_mult left_diff_distrib[symmetric])
  then have "\<bar>fl a * f\<bar> \<le> \<bar>a * f\<bar> + \<bar>a * f\<bar> * ?e" by linarith
  then have "\<bar>fl a * f\<bar> \<le> \<bar>a * f\<bar> * (1 + ?e)" by (simp only: distrib_left mult_1_right)
  then have "\<bar>fl a * f\<bar> * ?e \<le> \<bar>a * f\<bar> * (1 + ?e) * ?e" by (intro mult_right_mono) simp_all
  then have 2: "\<bar>fl (fl a * f) - fl a * f\<bar> \<le> \<bar>a * f\<bar> * ((1 + ?e) * ?e)" using fl_relative[of "fl a * f"] by simp
  have "\<bar>fl (fl a * f) - a * f\<bar> \<le> \<bar>a * f\<bar> * ?e + \<bar>a * f\<bar> * ((1 + ?e) * ?e)" using 1 2 by linarith
  also have "\<dots> = \<bar>a * f\<bar> * (?e + (1 + ?e) * ?e)" by (simp only: distrib_left)
  also have "\<dots> \<le> \<bar>a * f\<bar> * (1 / 2 ^ 51)" by (intro mult_left_mono) simp_all
  finally show ?thesis by simp
qed

lemma truncation_error: "\<bar>of_int (if x < 0 then \<lceil>x\<rceil> else \<lfloor>x\<rfloor>) - x\<bar> < (1 :: rat)"
  by simp linarith

text \<open>C22: the amount \<^verbatim>\<open>multiply\<close> computes in double precision is less than one minor unit and a relative error of
  two to the minus 51st away from the exact product, and has its sign: an amount that is not negative stays so.\<close>

theorem Money_multiply_bounds:
  assumes "Money_multiply m factor = Some m'"
  shows "\<bar>of_int (sint (amount m')) - of_int (sint (amount m)) * factor\<bar> < 1 + \<bar>of_int (sint (amount m)) * factor\<bar> / 2 ^ 51 \<and>
    (0 \<le> sint (amount m) \<and> 0 \<le> factor \<longrightarrow> 0 \<le> sint (amount m')) \<and> currency m' = currency m"
proof -
  let ?a = "rat_of_int (sint (amount m))"
  let ?x = "fl (fl ?a * factor)"
  let ?i = "if ?x < 0 then \<lceil>?x\<rceil> else \<lfloor>?x\<rfloor>"
  have m': "- (2 ^ 63) \<le> ?i" "?i < 2 ^ 63" "m' = \<lparr>amount = word_of_int ?i, currency = currency m\<rparr>"
    using assms unfolding Money_multiply_def Let_def by (auto simp del: of_int_sint split: if_splits)
  have i: "sint (amount m') = ?i"
    unfolding m'(3) using m'(1,2) by (simp only: Money.simps signed_of_int) (simp add: signed_take_bit_int_eq_self)
  have "\<bar>of_int ?i - ?x\<bar> < 1" by (rule truncation_error)
  then have "\<bar>of_int ?i - ?a * factor\<bar> < 1 + \<bar>?a * factor\<bar> / 2 ^ 51"
    using fl_fl_mult[of ?a factor] by linarith
  moreover have "0 \<le> ?i" if "0 \<le> sint (amount m)" "0 \<le> factor"
  proof -
    have "0 \<le> fl ?a * factor" using that by (intro mult_nonneg_nonneg fl_nonneg) (simp_all del: of_int_sint)
    then have "0 \<le> ?x" by (rule fl_nonneg)
    then show ?thesis by simp
  qed
  ultimately show ?thesis unfolding i using m'(3) by simp
qed

lemma Money_multiply_defined:
  assumes "x = fl (fl (of_int (sint (amount m))) * factor)" and "0 \<le> x" and "x < 2 ^ 63"
  shows "Money_multiply m factor = Some \<lparr>amount = word_of_int \<lfloor>x\<rfloor>, currency = currency m\<rparr>"
proof -
  have "\<lfloor>x\<rfloor> < 2 ^ 63" "- (2 ^ 63) \<le> \<lfloor>x\<rfloor>" using assms(2,3) by (simp_all add: floor_less_iff le_floor_iff)
  then show ?thesis using assms(2) unfolding Money_multiply_def Let_def assms(1)[symmetric] by simp
qed

theorem Money_multiply_bounds_witness:
  "\<exists>m'. Money_multiply \<lparr>amount = 15000, currency = ''IDR''\<rparr> (11 / 100) = Some m' \<and>
    \<bar>of_int (sint (amount m')) - (1650 :: rat)\<bar> < 1 + 1650 / 2 ^ 51"
proof -
  let ?m = "\<lparr>amount = 15000, currency = ''IDR''\<rparr>"
  define x where "x = fl (fl (of_int (sint (amount ?m))) * (11 / 100))"
  have "\<bar>x - 1650\<bar> \<le> 1650 / 2 ^ 51"
    using fl_fl_mult[of "of_int (sint (amount ?m))" "11 / 100"] unfolding x_def by simp
  also have "\<dots> \<le> 1" by simp
  finally have "0 \<le> x \<and> x \<le> 1651" by linarith
  then have "0 \<le> x" "x < 2 ^ 63" by simp_all
  with Money_multiply_defined[OF x_def] obtain m' where m': "Money_multiply ?m (11 / 100) = Some m'" by blast
  then show ?thesis using Money_multiply_bounds[OF m'] by simp
qed

end
