(* ===== verification/UseCases.thy ===== *)
theory UseCases
  imports Repository Double
begin

text \<open>
  \<^verbatim>\<open>src/core/use_cases/\<close>: the use cases over the repository interface. The clock and the random
  draws of \<^verbatim>\<open>Uuid::generate\<close> are arguments. The second half holds what the use cases promise over
  any provider that keeps the contract of \<^verbatim>\<open>Repository\<close>.
\<close>

section \<open>Creating an item\<close>

record CreateRequest =
  cr_sku :: string
  cr_name :: string
  cr_description :: string
  cr_category_id :: Uuid
  cr_supplier_id :: Uuid
  cr_unit_price_amount :: int64
  cr_currency :: string
  cr_stock_quantity :: int64
  cr_min_stock_quantity :: int64
  cr_stock_unit :: string

definition sku_conflict :: "string \<Rightarrow> Error" where
  "sku_conflict x = conflict (''Item with SKU '' @ [CHR 0x27] @ x @ [CHR 0x27] @ '' already exists'')"

definition create_execute ::
  "'s ItemRepository \<Rightarrow> uint64 \<Rightarrow> uint64 \<Rightarrow> time_point \<Rightarrow> CreateRequest \<Rightarrow> ('s, Item Result) op" where
  "create_execute repo r0 r1 now req =
     (case Money_create (cr_unit_price_amount req) (cr_currency req) of
        Inl e \<Rightarrow> op_return (Inl e)
      | Inr price \<Rightarrow>
     (case Quantity_create (cr_stock_quantity req) (cr_stock_unit req) of
        Inl e \<Rightarrow> op_return (Inl e)
      | Inr st \<Rightarrow>
     (case Quantity_create (cr_min_stock_quantity req) (cr_stock_unit req) of
        Inl e \<Rightarrow> op_return (Inl e)
      | Inr min_st \<Rightarrow>
        op_bind (find_by_sku repo (cr_sku req)) (\<lambda>existing.
          case existing of
            Inr _ \<Rightarrow> op_return (Inl (sku_conflict (cr_sku req)))
          | Inl _ \<Rightarrow>
              save repo (Item_new (generate r0 r1) (cr_sku req) (cr_name req) (cr_description req)
                (cr_category_id req) (cr_supplier_id req) price st min_st kActive now now)))))"

section \<open>Reading one item\<close>

definition get_execute :: "'s ItemRepository \<Rightarrow> Uuid \<Rightarrow> ('s, Item Result) op" where
  "get_execute repo k =
     (if \<not> is_valid k then op_return (Inl (validation ''Invalid item ID'')) else find_by_id repo k)"

section \<open>Listing\<close>

record ResultSet =
  rs_items :: "Item list"
  rs_total_count :: int64
  rs_page :: int32
  rs_page_size :: int32
  rs_total_pages :: "int32 option"

definition list_execute :: "'s ItemRepository \<Rightarrow> ItemFilter \<Rightarrow> ('s, ResultSet Result) op" where
  "list_execute repo f =
     op_bind (find_all repo f) (\<lambda>items.
       case items of
         Inl e \<Rightarrow> op_return (Inl e)
       | Inr xs \<Rightarrow>
           op_bind (count_items repo f) (\<lambda>cnt.
             case cnt of
               Inl e \<Rightarrow> op_return (Inl e)
             | Inr n \<Rightarrow> op_return (Inr
                 \<lparr>rs_items = xs, rs_total_count = n, rs_page = f_page f, rs_page_size = f_page_size f,
                  rs_total_pages = total_pages n (f_page_size f)\<rparr>)))"

section \<open>Changing an item\<close>

record UpdateRequest =
  ur_id :: Uuid
  ur_name :: "string option"
  ur_description :: "string option"
  ur_category_id :: "Uuid option"
  ur_supplier_id :: "Uuid option"
  ur_unit_price_amount :: "int64 option"
  ur_stock_quantity :: "int64 option"
  ur_min_stock_quantity :: "int64 option"
  ur_status :: "ItemStatus option"

text \<open>The checks and setters between reading the item and writing it back, in the code's order.\<close>

definition upd_name :: "UpdateRequest \<Rightarrow> Item \<Rightarrow> Item Result" where
  "upd_name req i = (case ur_name req of
       None \<Rightarrow> Inr i
     | Some n \<Rightarrow> if n = [] then Inl (validation ''Name cannot be empty'') else Inr (set_name n i))"

definition upd_plain :: "UpdateRequest \<Rightarrow> Item \<Rightarrow> Item" where
  "upd_plain req i =
     (let i = (case ur_description req of None \<Rightarrow> i | Some d \<Rightarrow> set_description d i);
          i = (case ur_category_id req of None \<Rightarrow> i | Some c \<Rightarrow> set_category_id c i)
      in case ur_supplier_id req of None \<Rightarrow> i | Some c \<Rightarrow> set_supplier_id c i)"

definition upd_price :: "UpdateRequest \<Rightarrow> Item \<Rightarrow> Item Result" where
  "upd_price req i = (case ur_unit_price_amount req of
       None \<Rightarrow> Inr i
     | Some a \<Rightarrow> (case Money_create a (currency (unit_price i)) of
         Inl e \<Rightarrow> Inl e | Inr p \<Rightarrow> Inr (set_unit_price p i)))"

definition upd_stock :: "UpdateRequest \<Rightarrow> Item \<Rightarrow> Item Result" where
  "upd_stock req i = (case ur_stock_quantity req of
       None \<Rightarrow> Inr i
     | Some a \<Rightarrow> (case Quantity_create a (unit_of (stock i)) of
         Inl e \<Rightarrow> Inl e | Inr q \<Rightarrow> Inr (set_stock q i)))"

definition upd_min_stock :: "UpdateRequest \<Rightarrow> Item \<Rightarrow> Item Result" where
  "upd_min_stock req i = (case ur_min_stock_quantity req of
       None \<Rightarrow> Inr i
     | Some a \<Rightarrow> (case Quantity_create a (unit_of (stock i)) of
         Inl e \<Rightarrow> Inl e | Inr q \<Rightarrow> Inr (set_min_stock q i)))"

definition upd_status :: "UpdateRequest \<Rightarrow> Item \<Rightarrow> Item" where
  "upd_status req i = (case ur_status req of None \<Rightarrow> i | Some st \<Rightarrow> set_status st i)"

definition apply_update :: "UpdateRequest \<Rightarrow> time_point \<Rightarrow> Item \<Rightarrow> Item Result" where
  "apply_update req now i =
     sum_bind (upd_name req i) (\<lambda>i.
     sum_bind (upd_price req (upd_plain req i)) (\<lambda>i.
     sum_bind (upd_stock req i) (\<lambda>i.
     sum_bind (upd_min_stock req i) (\<lambda>i.
       Inr (mark_updated now (upd_status req i))))))"

definition update_execute :: "'s ItemRepository \<Rightarrow> time_point \<Rightarrow> UpdateRequest \<Rightarrow> ('s, Item Result) op" where
  "update_execute repo now req =
     op_bind (find_by_id repo (ur_id req)) (\<lambda>r.
       case r of
         Inl e \<Rightarrow> op_return (Inl e)
       | Inr i \<Rightarrow>
           (case apply_update req now i of
              Inl e \<Rightarrow> op_return (Inl e)
            | Inr i' \<Rightarrow> update repo i'))"

section \<open>Deleting an item\<close>

definition delete_execute :: "'s ItemRepository \<Rightarrow> Uuid \<Rightarrow> ('s, unit Result) op" where
  "delete_execute repo k =
     (if \<not> is_valid k then op_return (Inl (validation ''Invalid item ID''))
      else op_bind (find_by_id repo k) (\<lambda>r.
        case r of
          Inl e \<Rightarrow> op_return (Inl e)
        | Inr _ \<Rightarrow> remove repo k))"

section \<open>What an update does to an item\<close>

text \<open>The requests an item accepts.\<close>

definition update_valid :: "UpdateRequest \<Rightarrow> bool" where
  "update_valid req \<longleftrightarrow> ur_name req \<noteq> Some [] \<and>
     (\<forall>a \<in> set_option (ur_unit_price_amount req). 0 \<le> sint a) \<and>
     (\<forall>a \<in> set_option (ur_stock_quantity req). 0 \<le> sint a) \<and>
     (\<forall>a \<in> set_option (ur_min_stock_quantity req). 0 \<le> sint a)"

text \<open>The item a valid request asks for.\<close>

definition updated_item :: "UpdateRequest \<Rightarrow> time_point \<Rightarrow> Item \<Rightarrow> Item" where
  "updated_item req now i = i\<lparr>
     item_name := (case ur_name req of None \<Rightarrow> item_name i | Some n \<Rightarrow> n),
     item_description := (case ur_description req of None \<Rightarrow> item_description i | Some d \<Rightarrow> d),
     category_id := (case ur_category_id req of None \<Rightarrow> category_id i | Some c \<Rightarrow> c),
     supplier_id := (case ur_supplier_id req of None \<Rightarrow> supplier_id i | Some c \<Rightarrow> c),
     unit_price := (unit_price i)\<lparr>amount := (case ur_unit_price_amount req of None \<Rightarrow> amount (unit_price i) | Some a \<Rightarrow> a)\<rparr>,
     stock := (stock i)\<lparr>qty := (case ur_stock_quantity req of None \<Rightarrow> qty (stock i) | Some a \<Rightarrow> a)\<rparr>,
     min_stock := (min_stock i)\<lparr>qty := (case ur_min_stock_quantity req of None \<Rightarrow> qty (min_stock i) | Some a \<Rightarrow> a)\<rparr>,
     item_status := (case ur_status req of None \<Rightarrow> item_status i | Some st \<Rightarrow> st),
     updated_at := now\<rparr>"

lemma money_surj: "m\<lparr>amount := a\<rparr> = \<lparr>amount = a, currency = currency m\<rparr>"
  by (cases m) simp

lemma quantity_surj: "q\<lparr>qty := a\<rparr> = \<lparr>qty = a, unit_of = unit_of q\<rparr>"
  by (cases q) simp

lemma upd_name_eq:
  "upd_name req i = (if ur_name req = Some [] then Inl (validation ''Name cannot be empty'')
     else Inr (i\<lparr>item_name := (case ur_name req of None \<Rightarrow> item_name i | Some n \<Rightarrow> n)\<rparr>))"
  by (auto simp: upd_name_def set_name_def split: option.split)

lemma upd_plain_eq:
  "upd_plain req j = j\<lparr>
      item_description := (case ur_description req of None \<Rightarrow> item_description j | Some d \<Rightarrow> d),
      category_id := (case ur_category_id req of None \<Rightarrow> category_id j | Some c \<Rightarrow> c),
      supplier_id := (case ur_supplier_id req of None \<Rightarrow> supplier_id j | Some c \<Rightarrow> c)\<rparr>"
  by (simp add: upd_plain_def Let_def set_description_def set_category_id_def set_supplier_id_def split: option.split)

lemma upd_price_eq:
  "length (currency (unit_price j)) = 3 \<Longrightarrow> upd_price req j =
     (if \<forall>a \<in> set_option (ur_unit_price_amount req). 0 \<le> sint a
      then Inr (j\<lparr>unit_price := (unit_price j)\<lparr>amount :=
        (case ur_unit_price_amount req of None \<Rightarrow> amount (unit_price j) | Some a \<Rightarrow> a)\<rparr>\<rparr>)
      else Inl (validation ''Amount cannot be negative''))"
  by (auto simp: upd_price_def Money_create_def set_unit_price_def money_surj word_sless_alt split: option.split)

lemma upd_stock_eq:
  "upd_stock req j =
     (if \<forall>a \<in> set_option (ur_stock_quantity req). 0 \<le> sint a
      then Inr (j\<lparr>stock := (stock j)\<lparr>qty :=
        (case ur_stock_quantity req of None \<Rightarrow> qty (stock j) | Some a \<Rightarrow> a)\<rparr>\<rparr>)
      else Inl (validation ''Quantity cannot be negative''))"
  by (auto simp: upd_stock_def Quantity_create_def set_stock_def quantity_surj word_sless_alt split: option.split)

lemma upd_min_stock_eq:
  "unit_of (min_stock j) = unit_of (stock j) \<Longrightarrow> upd_min_stock req j =
     (if \<forall>a \<in> set_option (ur_min_stock_quantity req). 0 \<le> sint a
      then Inr (j\<lparr>min_stock := (min_stock j)\<lparr>qty :=
        (case ur_min_stock_quantity req of None \<Rightarrow> qty (min_stock j) | Some a \<Rightarrow> a)\<rparr>\<rparr>)
      else Inl (validation ''Quantity cannot be negative''))"
  by (auto simp: upd_min_stock_def Quantity_create_def set_min_stock_def quantity_surj word_sless_alt split: option.split)

lemma upd_status_eq:
  "upd_status req j = j\<lparr>item_status := (case ur_status req of None \<Rightarrow> item_status j | Some st \<Rightarrow> st)\<rparr>"
  by (simp add: upd_status_def set_status_def split: option.split)

lemmas upd_eqs = upd_name_eq upd_plain_eq upd_price_eq upd_stock_eq upd_min_stock_eq upd_status_eq

lemma apply_update_valid:
  assumes "item_ok i" and "update_valid req"
  shows "apply_update req now i = Inr (updated_item req now i)"
proof -
  have "length (currency (unit_price i)) = 3" "unit_of (min_stock i) = unit_of (stock i)"
    using assms(1) by (simp_all add: item_ok_def money_ok_def)
  then show ?thesis
    using assms(2) by (simp add: apply_update_def upd_eqs updated_item_def mark_updated_def update_valid_def
      cong: option.case_cong)
qed

lemma apply_update_invalid:
  assumes "item_ok i" and "\<not> update_valid req"
  shows "\<exists>e. apply_update req now i = Inl e \<and> err_code e = kValidationError"
proof -
  have "length (currency (unit_price i)) = 3" "unit_of (min_stock i) = unit_of (stock i)"
    using assms(1) by (simp_all add: item_ok_def money_ok_def)
  then show ?thesis
    using assms(2) by (simp add: apply_update_def upd_eqs update_valid_def cong: option.case_cong) force
qed

lemma updated_item_ok:
  assumes "item_ok i" and "update_valid req"
  shows "item_ok (updated_item req now i)"
  using assms by (simp add: item_ok_def updated_item_def update_valid_def money_ok_iff quantity_ok_iff split: option.splits)

text \<open>An update of a valid item succeeds exactly when the new name is not empty and the new
  amounts are not negative; it then sets the fields the request gives and the update time, and
  nothing else, and leaves the item valid. Otherwise it fails with a validation error.\<close>

theorem apply_update_spec:
  assumes "item_ok i"
  shows "if update_valid req then apply_update req now i = Inr (updated_item req now i) \<and> item_ok (updated_item req now i)
    else \<exists>e. apply_update req now i = Inl e \<and> err_code e = kValidationError"
proof (cases "update_valid req")
  case True
  then show ?thesis using apply_update_valid[OF assms] updated_item_ok[OF assms] by simp
next
  case False
  then show ?thesis using apply_update_invalid[OF assms] by simp
qed

definition no_update :: UpdateRequest where
  "no_update = \<lparr>ur_id = item_id sample_item, ur_name = None, ur_description = None, ur_category_id = None,
     ur_supplier_id = None, ur_unit_price_amount = None, ur_stock_quantity = None,
     ur_min_stock_quantity = None, ur_status = None\<rparr>"

theorem apply_update_spec_witness:
  "apply_update (no_update\<lparr>ur_stock_quantity := Some 75\<rparr>) 9 sample_item =
     Inr (sample_item\<lparr>stock := \<lparr>qty = 75, unit_of = ''pcs''\<rparr>, updated_at := 9\<rparr>)"
  using apply_update_spec[OF sample_item_ok, of "no_update\<lparr>ur_stock_quantity := Some 75\<rparr>" 9]
  by (simp add: update_valid_def no_update_def updated_item_def sample_item_def Item_new_def)

section \<open>The use cases over any provider of the contract\<close>

text \<open>The item a creation request asks for.\<close>

definition requested_item :: "uint64 \<Rightarrow> uint64 \<Rightarrow> time_point \<Rightarrow> CreateRequest \<Rightarrow> Item" where
  "requested_item r0 r1 now req = Item_new (generate r0 r1) (cr_sku req) (cr_name req) (cr_description req)
     (cr_category_id req) (cr_supplier_id req) \<lparr>amount = cr_unit_price_amount req, currency = cr_currency req\<rparr>
     \<lparr>qty = cr_stock_quantity req, unit_of = cr_stock_unit req\<rparr>
     \<lparr>qty = cr_min_stock_quantity req, unit_of = cr_stock_unit req\<rparr> kActive now now"

definition create_valid :: "CreateRequest \<Rightarrow> bool" where
  "create_valid req \<longleftrightarrow> 0 \<le> sint (cr_unit_price_amount req) \<and> length (cr_currency req) = 3 \<and>
     0 \<le> sint (cr_stock_quantity req) \<and> 0 \<le> sint (cr_min_stock_quantity req)"

lemma requested_item_fields [simp]:
  "item_id (requested_item r0 r1 now req) = generate r0 r1"
  "sku (requested_item r0 r1 now req) = cr_sku req"
  by (simp_all add: requested_item_def Item_new_def)

lemma requested_item_ok: "create_valid req \<Longrightarrow> item_ok (requested_item r0 r1 now req)"
  by (simp add: create_valid_def requested_item_def Item_new_def item_ok_def money_ok_iff quantity_ok_iff)

lemma create_execute_valid:
  "create_valid req \<Longrightarrow> create_execute repo r0 r1 now req =
     op_bind (find_by_sku repo (cr_sku req)) (\<lambda>existing. case existing of
        Inr _ \<Rightarrow> op_return (Inl (sku_conflict (cr_sku req)))
      | Inl _ \<Rightarrow> save repo (requested_item r0 r1 now req))"
  unfolding requested_item_def
  by (simp add: create_execute_def create_valid_def Money_create_def Quantity_create_def word_sless_alt)

lemma err_code_sku_conflict [simp]: "err_code (sku_conflict x) = kConflict"
  by (simp add: sku_conflict_def)

lemma create_execute_invalid:
  "\<not> create_valid req \<Longrightarrow> \<exists>e. create_execute repo r0 r1 now req = op_return (Inl e) \<and> err_code e = kValidationError"
  by (auto simp: create_execute_def create_valid_def Money_create_def Quantity_create_def word_sless_alt
      split: if_splits)

context item_repository begin

lemma create_fresh:
  assumes "ready s" and "create_valid req" and "storable (requested_item r0 r1 now req)"
    and "table s (generate r0 r1) = None" and "\<forall>k i. table s k = Some i \<longrightarrow> sku i \<noteq> cr_sku req"
  shows "\<exists>j s'. create_execute repo r0 r1 now req s = Some (Inr j, s') \<and> ready s' \<and>
    same_item (requested_item r0 r1 now req) j \<and> table s' = (table s)(generate r0 r1 \<mapsto> j)"
proof -
  obtain r s1 where 1: "find_by_sku repo (cr_sku req) s = Some (r, s1)" "ready s1" "table s1 = table s"
    and r: "case r of Inr i \<Rightarrow> table s (item_id i) = Some i \<and> sku i = cr_sku req
       | Inl e \<Rightarrow> err_code e = kNotFound \<and> (\<forall>k i. table s k = Some i \<longrightarrow> sku i \<noteq> cr_sku req)"
    using by_sku[OF assms(1)] by blast
  from r assms(5) obtain e where "r = Inl e" by (auto split: sum.splits)
  moreover have "sku_free (table s1) (generate r0 r1) (cr_sku req)" using assms(5) 1(3) by (simp add: sku_free_def)
  then obtain j s' where "save repo (requested_item r0 r1 now req) s1 = Some (Inr j, s')" "ready s'"
      "same_item (requested_item r0 r1 now req) j" "table s' = (table s1)(generate r0 r1 \<mapsto> j)"
    using saves[OF 1(2) assms(3) requested_item_ok[OF assms(2)]] 1(3) assms(4) by auto
  ultimately show ?thesis using 1 assms(2) by (simp add: create_execute_valid)
qed

lemma create_duplicate:
  assumes "ready s" and "create_valid req" and "table s k = Some i" and "sku i = cr_sku req"
  shows "\<exists>e s'. create_execute repo r0 r1 now req s = Some (Inl e, s') \<and> err_code e = kConflict \<and>
    ready s' \<and> table s' = table s"
proof -
  obtain r s1 where 1: "find_by_sku repo (cr_sku req) s = Some (r, s1)" "ready s1" "table s1 = table s"
    and r: "case r of Inr i \<Rightarrow> table s (item_id i) = Some i \<and> sku i = cr_sku req
       | Inl e \<Rightarrow> err_code e = kNotFound \<and> (\<forall>k i. table s k = Some i \<longrightarrow> sku i \<noteq> cr_sku req)"
    using by_sku[OF assms(1)] by blast
  from r assms(3,4) obtain i' where "r = Inr i'" by (auto split: sum.splits)
  then show ?thesis using 1 assms(2) by (simp add: create_execute_valid)
qed

lemma get_stored:
  assumes "ready s" and "is_valid k"
  shows "\<exists>r s'. get_execute repo k s = Some (r, s') \<and> ready s' \<and> table s' = table s \<and>
    (case table s k of Some i \<Rightarrow> r = Inr i | None \<Rightarrow> \<exists>m. r = Inl (not_found m))"
  using by_id[OF assms(1)] assms(2) by (simp add: get_execute_def)

lemma delete_stored:
  assumes "ready s" and "is_valid k"
  shows "\<exists>r s'. delete_execute repo k s = Some (r, s') \<and> ready s' \<and>
    (if table s k = None then (\<exists>m. r = Inl (not_found m)) \<and> table s' = table s
     else r = Inr () \<and> table s' = (table s)(k := None))"
proof -
  obtain r s1 where 1: "find_by_id repo k s = Some (r, s1)" "ready s1" "table s1 = table s"
    and r: "case table s k of Some i \<Rightarrow> r = Inr i | None \<Rightarrow> \<exists>m. r = Inl (not_found m)"
    using by_id[OF assms(1)] by blast
  show ?thesis
  proof (cases "table s k")
    case None
    then show ?thesis using r 1 assms(2) by (auto simp: delete_execute_def)
  next
    case (Some i)
    moreover obtain s' where "remove repo k s1 = Some (Inr (), s')" "ready s'" "table s' = (table s1)(k := None)"
      using removes[OF 1(2), of k] Some 1(3) by auto
    ultimately show ?thesis using r 1 assms(2) by (simp add: delete_execute_def)
  qed
qed

lemma update_stored:
  assumes "ready s" and "table s (ur_id req) = Some i"
  shows "if update_valid req \<and> storable (updated_item req now i)
    then \<exists>j s'. update_execute repo now req s = Some (Inr j, s') \<and> ready s' \<and>
      same_item (updated_item req now i) j \<and> created_at j = created_at i \<and>
      table s' = (table s)(ur_id req \<mapsto> j)
    else update_valid req \<or> (\<exists>e s'. update_execute repo now req s = Some (Inl e, s') \<and> ready s' \<and>
      err_code e = kValidationError \<and> table s' = table s)"
proof -
  obtain s1 where 1: "find_by_id repo (ur_id req) s = Some (Inr i, s1)" "ready s1" "table s1 = table s"
    using by_id[OF assms(1), of "ur_id req"] assms(2) by auto
  have i: "item_id i = ur_id req" "item_ok i" "sku_free (table s) (ur_id req) (sku i)"
    using table_wf[OF assms(1)] assms(2) by (auto simp: table_ok_def)
  show ?thesis
  proof (cases "update_valid req")
    case False
    then show ?thesis using apply_update_invalid[OF i(2) False, of now] 1 by (auto simp: update_execute_def)
  next
    case True
    then have u: "apply_update req now i = Inr (updated_item req now i)" "item_ok (updated_item req now i)"
      using apply_update_valid[OF i(2)] updated_item_ok[OF i(2)] by simp_all
    have f: "item_id (updated_item req now i) = ur_id req" "sku (updated_item req now i) = sku i"
      using i(1) by (simp_all add: updated_item_def)
    have "\<exists>j s'. update repo (updated_item req now i) s1 = Some (Inr j, s') \<and> ready s' \<and>
        same_item (updated_item req now i) j \<and> created_at j = created_at i \<and>
        table s' = (table s1)(ur_id req \<mapsto> j)" if "storable (updated_item req now i)"
      using updates[OF 1(2) that u(2)] f i(3) 1(3) assms(2) by auto
    then show ?thesis using True u(1) 1 by (auto simp: update_execute_def)
  qed
qed

lemma update_missing:
  assumes "ready s" and "table s (ur_id req) = None"
  shows "\<exists>e s'. update_execute repo now req s = Some (Inl e, s') \<and> ready s' \<and> err_code e = kNotFound \<and>
    table s' = table s"
  using by_id[OF assms(1), of "ur_id req"] assms(2) by (auto simp: update_execute_def)

end

context listing_repository begin

text \<open>The answer to a page that exists or lies after the last one.\<close>

lemma list_page_in_range:
  assumes ready: "ready s" and acc: "accepts f" and p: "1 \<le> sint (f_page f)" and n: "1 \<le> sint (f_page_size f)"
    and off: "(sint (f_page f) - 1) * sint (f_page_size f) < 2 ^ 31" and small: "card (dom (table s)) < 2 ^ 31"
  shows "\<exists>ks rs s'. list_execute repo f s = Some (Inr rs, s') \<and> ready s' \<and> table s' = table s \<and>
    listing (table s) (picks f) (born s) ks \<and>
    rs_items rs = map (the \<circ> table s) (take (nat (sint (f_page_size f)))
      (drop (nat ((sint (f_page f) - 1) * sint (f_page_size f))) ks)) \<and>
    sint (rs_total_count rs) = int (length ks) \<and> rs_page rs = f_page f \<and> rs_page_size rs = f_page_size f \<and>
    (\<exists>tp. rs_total_pages rs = Some tp \<and>
       sint tp = (int (length ks) + sint (f_page_size f) - 1) div sint (f_page_size f))"
proof -
  let ?p = "sint (f_page f)" and ?n = "sint (f_page_size f)" and ?K = "{k. \<exists>i. table s k = Some i \<and> picks f i}"
  have pos: "0 \<le> (?p - 1) * ?n" using p n by simp
  have "sint (f_page f - 1) = ?p - 1"
    using p sint_lt[of "f_page f"] by (simp add: sint_word_ariths signed_take_bit_int_eq_self)
  then have offset: "sint (page_offset f) = (?p - 1) * ?n"
    using off pos by (simp add: page_offset_def sint_word_ariths signed_take_bit_int_eq_self)
  then have "\<not> negative_page f" using pos n by (simp add: negative_page_def not_less)
  then obtain ks s1 where 1: "find_all repo f s = Some (Inr (map (the \<circ> table s) (take (nat ?n) (drop (nat ((?p - 1) * ?n)) ks))), s1)"
    "ready s1" "table s1 = table s" "listing (table s) (picks f) (born s) ks"
    using gives_page[OF ready acc] offset by auto
  have "?K \<subseteq> dom (table s)" by auto
  moreover have "finite (dom (table s))" using table_wf[OF ready] by (simp add: table_ok_def)
  ultimately have card: "card ?K < 2 ^ 31" using small card_mono le_less_trans by blast
  then obtain s2 where 2: "count_items repo f s1 = Some (Inr (of_nat (card ?K)), s2)" "ready s2" "table s2 = table s"
    using counts_items[OF 1(2) acc] 1(3) by auto
  let ?c = "of_nat (card ?K) :: int64"
  have c: "sint ?c = int (card ?K)" using card by (simp add: signed_of_nat signed_take_bit_int_eq_self)
  have len: "length ks = card ?K" by (rule length_listing[OF 1(4)])
  let ?tp = "(int (card ?K) + ?n - 1) div ?n"
  have tp: "0 \<le> ?tp" "?tp < 2 ^ 31"
  proof -
    show "0 \<le> ?tp" using n by (simp add: pos_imp_zdiv_nonneg_iff)
    have "?tp * ?n \<le> int (card ?K) + ?n - 1"
      using n div_mult_mod_eq[of "int (card ?K) + ?n - 1" ?n] pos_mod_sign[of ?n "int (card ?K) + ?n - 1"] by linarith
    moreover have "int (card ?K) * 1 \<le> int (card ?K) * ?n" using n by (intro mult_left_mono) auto
    then have "int (card ?K) + ?n - 1 < (int (card ?K) + 1) * ?n" by (simp add: distrib_right)
    ultimately have "?tp * ?n < (int (card ?K) + 1) * ?n" by linarith
    then have "?tp < int (card ?K) + 1" using n by (simp add: mult_less_cancel_right)
    moreover have "int (card ?K) < 2 ^ 31" using card by simp
    ultimately show "?tp < 2 ^ 31" by linarith
  qed
  then have "total_pages ?c (f_page_size f) = Some (word_of_int ?tp)"
    using total_pages_exact[of ?c "f_page_size f"] c card n by simp
  moreover have "sint (word_of_int ?tp :: int32) = ?tp" using tp by (simp add: signed_of_int signed_take_bit_int_eq_self)
  ultimately show ?thesis using 1 2 c len by (auto simp: list_execute_def)
qed

lemma list_negative:
  assumes "ready s" and "accepts f" and "negative_page f"
  shows "\<exists>m s'. list_execute repo f s = Some (Inl (database m), s') \<and> ready s' \<and> table s' = table s"
  using refuses_page[OF assms] by (auto simp: list_execute_def)

end

end
