(* ===== verification/Dto.thy ===== *)
theory Dto
  imports Json UseCases
begin

text \<open>
  \<^verbatim>\<open>src/api/dto/\<close>: the request and response objects with their JSON conversions, and
  \<^verbatim>\<open>src/api/validators/item_validator.cpp\<close>. A conversion that raises half way leaves a partly
  filled object behind; no caller looks at it, so the conversions return the object or the exception.
\<close>

section \<open>Items\<close>

record CreateItemRequest =
  ci_sku :: string
  ci_name :: string
  ci_description :: string
  ci_category_id :: Uuid
  ci_supplier_id :: Uuid
  ci_unit_price_amount :: int64
  ci_currency :: string
  ci_stock_quantity :: int64
  ci_min_stock_quantity :: int64
  ci_stock_unit :: string

record UpdateItemRequest =
  ui_sku :: string
  ui_name :: "string option"
  ui_description :: "string option"
  ui_category_id :: "Uuid option"
  ui_supplier_id :: "Uuid option"
  ui_unit_price_amount :: "int64 option"
  ui_currency :: "string option"
  ui_stock_quantity :: "int64 option"
  ui_min_stock_quantity :: "int64 option"
  ui_stock_unit :: "string option"
  ui_status :: "ItemStatus option"

record ItemResponse =
  ir_id :: string
  ir_sku :: string
  ir_name :: string
  ir_description :: string
  ir_category_id :: string
  ir_supplier_id :: string
  ir_unit_price_amount :: int64
  ir_currency :: string
  ir_stock_quantity :: int64
  ir_stock_unit :: string
  ir_min_stock_quantity :: int64
  ir_status :: string
  ir_created_at :: string
  ir_updated_at :: string

definition create_to_json :: "'j json_lib \<Rightarrow> CreateItemRequest \<Rightarrow> 'j" where
  "create_to_json lib r = j_object lib
     [(''sku'', j_string lib (ci_sku r)), (''name'', j_string lib (ci_name r)),
      (''description'', j_string lib (ci_description r)),
      (''category_id'', j_string lib (to_string (ci_category_id r))),
      (''supplier_id'', j_string lib (to_string (ci_supplier_id r))),
      (''unit_price_amount'', j_int lib (sint (ci_unit_price_amount r))),
      (''currency'', j_string lib (ci_currency r)),
      (''stock_quantity'', j_int lib (sint (ci_stock_quantity r))),
      (''min_stock_quantity'', j_int lib (sint (ci_min_stock_quantity r))),
      (''stock_unit'', j_string lib (ci_stock_unit r))]"

text \<open>A member that may be missing.\<close>

definition if_present :: "'j json_lib \<Rightarrow> 'j \<Rightarrow> string \<Rightarrow> (exn + 'a) \<Rightarrow> exn + 'a option" where
  "if_present lib j k r = (if j_contains lib j k then map_sum id Some r else Inr None)"

definition create_from_json :: "'j json_lib \<Rightarrow> 'j \<Rightarrow> exn + CreateItemRequest" where
  "create_from_json lib j =
     sum_bind (at_string lib j ''sku'') (\<lambda>sk.
     sum_bind (at_string lib j ''name'') (\<lambda>nm.
     sum_bind (at_string lib j ''description'') (\<lambda>ds.
     sum_bind (sum_bind (at_string lib j ''category_id'') from_string) (\<lambda>cid.
     sum_bind (sum_bind (at_string lib j ''supplier_id'') from_string) (\<lambda>sid.
     sum_bind (at_int64 lib j ''unit_price_amount'') (\<lambda>amt.
     sum_bind (if_present lib j ''currency'' (at_string lib j ''currency'')) (\<lambda>cur.
     sum_bind (at_int64 lib j ''stock_quantity'') (\<lambda>sq.
     sum_bind (at_int64 lib j ''min_stock_quantity'') (\<lambda>msq.
     sum_bind (if_present lib j ''stock_unit'' (at_string lib j ''stock_unit'')) (\<lambda>un.
       Inr \<lparr>ci_sku = sk, ci_name = nm, ci_description = ds, ci_category_id = cid, ci_supplier_id = sid,
         ci_unit_price_amount = amt, ci_currency = (case cur of None \<Rightarrow> ''IDR'' | Some c \<Rightarrow> c),
         ci_stock_quantity = sq, ci_min_stock_quantity = msq,
         ci_stock_unit = (case un of None \<Rightarrow> ''pcs'' | Some u \<Rightarrow> u)\<rparr>))))))))))"

fun status_text :: "ItemStatus \<Rightarrow> string" where
  "status_text kActive = ''active''"
| "status_text kInactive = ''inactive''"
| "status_text kDiscontinued = ''discontinued''"
| "status_text kOutOfStock = ''out_of_stock''"

definition set_opt :: "'j json_lib \<Rightarrow> string \<Rightarrow> 'j option \<Rightarrow> 'j \<Rightarrow> 'j" where
  "set_opt lib k v j = (case v of None \<Rightarrow> j | Some x \<Rightarrow> j_set lib j k x)"

definition update_to_json :: "'j json_lib \<Rightarrow> UpdateItemRequest \<Rightarrow> 'j" where
  "update_to_json lib r =
     (let j = j_object lib [(''sku'', j_string lib (ui_sku r))];
          j = set_opt lib ''name'' (map_option (j_string lib) (ui_name r)) j;
          j = set_opt lib ''description'' (map_option (j_string lib) (ui_description r)) j;
          j = set_opt lib ''category_id'' (map_option (\<lambda>u. j_string lib (to_string u)) (ui_category_id r)) j;
          j = set_opt lib ''supplier_id'' (map_option (\<lambda>u. j_string lib (to_string u)) (ui_supplier_id r)) j;
          j = set_opt lib ''unit_price_amount'' (map_option (\<lambda>n. j_int lib (sint n)) (ui_unit_price_amount r)) j;
          j = set_opt lib ''currency'' (map_option (j_string lib) (ui_currency r)) j;
          j = set_opt lib ''stock_quantity'' (map_option (\<lambda>n. j_int lib (sint n)) (ui_stock_quantity r)) j;
          j = set_opt lib ''min_stock_quantity'' (map_option (\<lambda>n. j_int lib (sint n)) (ui_min_stock_quantity r)) j;
          j = set_opt lib ''stock_unit'' (map_option (j_string lib) (ui_stock_unit r)) j
      in set_opt lib ''status'' (map_option (\<lambda>st. j_string lib (status_text st)) (ui_status r)) j)"

text \<open>\<^verbatim>\<open>from_json\<close> of an update never reads \<^verbatim>\<open>status\<close>.\<close>

definition update_from_json :: "'j json_lib \<Rightarrow> 'j \<Rightarrow> exn + UpdateItemRequest" where
  "update_from_json lib j =
     sum_bind (at_string lib j ''sku'') (\<lambda>sk.
     sum_bind (if_present lib j ''name'' (at_string lib j ''name'')) (\<lambda>nm.
     sum_bind (if_present lib j ''description'' (at_string lib j ''description'')) (\<lambda>ds.
     sum_bind (if_present lib j ''category_id'' (sum_bind (at_string lib j ''category_id'') from_string)) (\<lambda>cid.
     sum_bind (if_present lib j ''supplier_id'' (sum_bind (at_string lib j ''supplier_id'') from_string)) (\<lambda>sid.
     sum_bind (if_present lib j ''unit_price_amount'' (at_int64 lib j ''unit_price_amount'')) (\<lambda>amt.
     sum_bind (if_present lib j ''currency'' (at_string lib j ''currency'')) (\<lambda>cur.
     sum_bind (if_present lib j ''stock_quantity'' (at_int64 lib j ''stock_quantity'')) (\<lambda>sq.
     sum_bind (if_present lib j ''min_stock_quantity'' (at_int64 lib j ''min_stock_quantity'')) (\<lambda>msq.
     sum_bind (if_present lib j ''stock_unit'' (at_string lib j ''stock_unit'')) (\<lambda>un.
       Inr \<lparr>ui_sku = sk, ui_name = nm, ui_description = ds, ui_category_id = cid, ui_supplier_id = sid,
         ui_unit_price_amount = amt, ui_currency = cur, ui_stock_quantity = sq, ui_min_stock_quantity = msq,
         ui_stock_unit = un, ui_status = None\<rparr>))))))))))"

text \<open>\<^verbatim>\<open>std::ctime\<close> depends on the time zone of the process and is an argument; the newline it ends
  with is dropped.\<close>

definition ctime_text :: "(int \<Rightarrow> string) \<Rightarrow> time_point \<Rightarrow> string" where
  "ctime_text ctime tp = (let x = ctime (tp sdiv 10 ^ 9) in if x \<noteq> [] then butlast x else x)"

definition item_to_response :: "(int \<Rightarrow> string) \<Rightarrow> Item \<Rightarrow> ItemResponse" where
  "item_to_response ctime i =
     \<lparr>ir_id = to_string (item_id i), ir_sku = sku i, ir_name = item_name i, ir_description = item_description i,
      ir_category_id = to_string (category_id i), ir_supplier_id = to_string (supplier_id i),
      ir_unit_price_amount = amount (unit_price i), ir_currency = currency (unit_price i),
      ir_stock_quantity = qty (stock i), ir_stock_unit = unit_of (stock i),
      ir_min_stock_quantity = qty (min_stock i), ir_status = status_text (item_status i),
      ir_created_at = ctime_text ctime (created_at i), ir_updated_at = ctime_text ctime (updated_at i)\<rparr>"

definition response_to_json :: "'j json_lib \<Rightarrow> ItemResponse \<Rightarrow> 'j" where
  "response_to_json lib r = j_object lib
     [(''id'', j_string lib (ir_id r)), (''sku'', j_string lib (ir_sku r)), (''name'', j_string lib (ir_name r)),
      (''description'', j_string lib (ir_description r)), (''category_id'', j_string lib (ir_category_id r)),
      (''supplier_id'', j_string lib (ir_supplier_id r)),
      (''unit_price_amount'', j_int lib (sint (ir_unit_price_amount r))), (''currency'', j_string lib (ir_currency r)),
      (''stock_quantity'', j_int lib (sint (ir_stock_quantity r))), (''stock_unit'', j_string lib (ir_stock_unit r)),
      (''min_stock_quantity'', j_int lib (sint (ir_min_stock_quantity r))), (''status'', j_string lib (ir_status r)),
      (''created_at'', j_string lib (ir_created_at r)), (''updated_at'', j_string lib (ir_updated_at r))]"

section \<open>Authentication\<close>

record LoginRequest =
  lg_username :: string
  lg_password :: string

record UserResponse =
  us_id :: string
  us_username :: string
  us_email :: string
  us_role :: string

record AuthResponse =
  ar_access_token :: string
  ar_refresh_token :: string
  ar_user :: UserResponse

definition login_to_json :: "'j json_lib \<Rightarrow> LoginRequest \<Rightarrow> 'j" where
  "login_to_json lib r = j_object lib
     [(''username'', j_string lib (lg_username r)), (''password'', j_string lib (lg_password r))]"

definition login_from_json :: "'j json_lib \<Rightarrow> 'j \<Rightarrow> exn + LoginRequest" where
  "login_from_json lib j =
     sum_bind (at_string lib j ''username'') (\<lambda>u.
     sum_bind (at_string lib j ''password'') (\<lambda>p. Inr \<lparr>lg_username = u, lg_password = p\<rparr>))"

definition refresh_to_json :: "'j json_lib \<Rightarrow> string \<Rightarrow> 'j" where
  "refresh_to_json lib t = j_object lib [(''refresh_token'', j_string lib t)]"

definition refresh_from_json :: "'j json_lib \<Rightarrow> 'j \<Rightarrow> exn + string" where
  "refresh_from_json lib j = at_string lib j ''refresh_token''"

definition user_response_to_json :: "'j json_lib \<Rightarrow> UserResponse \<Rightarrow> 'j" where
  "user_response_to_json lib r = j_object lib
     [(''id'', j_string lib (us_id r)), (''username'', j_string lib (us_username r)),
      (''email'', j_string lib (us_email r)), (''role'', j_string lib (us_role r))]"

definition user_response_from_json :: "'j json_lib \<Rightarrow> 'j \<Rightarrow> exn + UserResponse" where
  "user_response_from_json lib j =
     sum_bind (at_string lib j ''id'') (\<lambda>i.
     sum_bind (at_string lib j ''username'') (\<lambda>u.
     sum_bind (at_string lib j ''email'') (\<lambda>e.
     sum_bind (at_string lib j ''role'') (\<lambda>r.
       Inr \<lparr>us_id = i, us_username = u, us_email = e, us_role = r\<rparr>))))"

definition auth_response_to_json :: "'j json_lib \<Rightarrow> AuthResponse \<Rightarrow> 'j" where
  "auth_response_to_json lib r = j_object lib
     [(''access_token'', j_string lib (ar_access_token r)), (''refresh_token'', j_string lib (ar_refresh_token r)),
      (''user'', user_response_to_json lib (ar_user r))]"

definition user_to_response :: "User \<Rightarrow> UserResponse" where
  "user_to_response u = \<lparr>us_id = to_string (user_id u), us_username = username u,
     us_email = email_value (user_email u), us_role = role_to_string (user_role u)\<rparr>"

section \<open>The validator\<close>

definition validate_create :: "CreateItemRequest \<Rightarrow> unit Result" where
  "validate_create r =
     (if ci_sku r = [] then Inl (validation ''SKU cannot be empty'')
      else if ci_name r = [] then Inl (validation ''Name cannot be empty'')
      else if ci_unit_price_amount r <s 0 then Inl (validation ''Price cannot be negative'')
      else if ci_stock_quantity r <s 0 then Inl (validation ''Stock quantity cannot be negative'')
      else if ci_min_stock_quantity r <s 0 then Inl (validation ''Minimum stock quantity cannot be negative'')
      else if length (ci_currency r) \<noteq> 3 then Inl (validation ''Currency must be a 3-letter ISO code'')
      else if ci_stock_unit r = [] then Inl (validation ''Stock unit cannot be empty'')
      else Inr ())"

definition negative :: "int64 option \<Rightarrow> bool" where
  "negative v = (case v of None \<Rightarrow> False | Some n \<Rightarrow> n <s 0)"

definition validate_update :: "UpdateItemRequest \<Rightarrow> unit Result" where
  "validate_update r =
     (if ui_sku r = [] then Inl (validation ''SKU cannot be empty'')
      else if negative (ui_unit_price_amount r) then Inl (validation ''Price cannot be negative'')
      else if negative (ui_stock_quantity r) then Inl (validation ''Stock quantity cannot be negative'')
      else if negative (ui_min_stock_quantity r) then Inl (validation ''Minimum stock quantity cannot be negative'')
      else Inr ())"

section \<open>Round trips\<close>

context json_values begin

lemma create_roundtrip: "create_from_json lib (create_to_json lib r) = Inr r"
  by (simp add: create_from_json_def create_to_json_def at_string_object at_int64_object if_present_def
      contains_object from_to_string)

end

text \<open>Objects with optional members, as lists of keys with their values.\<close>

definition present :: "(string \<times> 'j option) list \<Rightarrow> (string \<times> 'j) list" where
  "present specs = concat (map (\<lambda>(k, v). case v of None \<Rightarrow> [] | Some x \<Rightarrow> [(k, x)]) specs)"

lemma present_simps [simp]:
  "present [] = []"
  "present ((k, v) # sp) = (case v of None \<Rightarrow> present sp | Some x \<Rightarrow> (k, x) # present sp)"
  by (simp_all add: present_def split: option.split)

lemma present_snoc: "present (sp @ [(k, v)]) = present sp @ (case v of None \<Rightarrow> [] | Some x \<Rightarrow> [(k, x)])"
  by (simp add: present_def split: option.split)

lemma present_keys: "fst ` set (present sp) \<subseteq> fst ` set sp"
  by (force simp: present_def split: option.splits)

lemma present_distinct: "distinct (map fst sp) \<Longrightarrow> distinct (map fst (present sp))"
proof (induction sp)
  case (Cons p sp)
  then show ?case using present_keys[of sp] by (cases p) (auto split: option.split)
qed simp

lemma map_of_present:
  "distinct (map fst sp) \<Longrightarrow> map_of (present sp) k = (case map_of sp k of None \<Rightarrow> None | Some v \<Rightarrow> v)"
proof (induction sp)
  case (Cons p sp)
  obtain k' v where p: "p = (k', v)" by (cases p)
  have "k' \<notin> fst ` set sp" using Cons.prems p by simp
  then have "map_of (present sp) k' = None"
    using present_keys[of sp] by (auto simp: map_of_eq_None_iff)
  moreover have "map_of sp k' = None" using \<open>k' \<notin> fst ` set sp\<close> by (simp add: map_of_eq_None_iff)
  ultimately show ?case using Cons p by (auto split: option.split)
qed simp

context json_values begin

lemma set_opt_present:
  "distinct (map fst sp) \<Longrightarrow> k \<notin> fst ` set sp \<Longrightarrow>
   set_opt lib k v (j_object lib (present sp)) = j_object lib (present (sp @ [(k, v)]))"
proof (cases v)
  case (Some x)
  assume a: "distinct (map fst sp)" "k \<notin> fst ` set sp"
  have "k \<notin> fst ` set (present sp)" using a(2) present_keys[of sp] by blast
  from set_object[OF present_distinct[OF a(1)] this] Some show ?thesis by (simp add: set_opt_def present_snoc)
qed (simp add: set_opt_def present_snoc)

lemma if_present_object:
  assumes "distinct (map fst sp)" and "map_of sp k = Some v"
    and "\<And>x. v = Some x \<Longrightarrow> map_of (present sp) k = Some x \<Longrightarrow> r = Inr (f x)"
  shows "if_present lib (j_object lib (present sp)) k r = Inr (map_option f v)"
proof -
  have m: "map_of (present sp) k = v" using map_of_present[OF assms(1)] assms(2) by simp
  have "j_contains lib (j_object lib (present sp)) k \<longleftrightarrow> v \<noteq> None"
    using contains_object[OF present_distinct[OF assms(1)]] m by (metis map_of_eq_None_iff)
  then show ?thesis using assms(3) m by (cases v) (auto simp: if_present_def)
qed

lemma opt_string:
  "distinct (map fst sp) \<Longrightarrow> map_of sp k = Some (map_option (j_string lib) w) \<Longrightarrow>
   if_present lib (j_object lib (present sp)) k (at_string lib (j_object lib (present sp)) k) = Inr w"
proof (cases w)
  case None
  assume "distinct (map fst sp)" "map_of sp k = Some (map_option (j_string lib) w)"
  with None show ?thesis using if_present_object[of sp k None] by simp
next
  case (Some y)
  assume a: "distinct (map fst sp)" "map_of sp k = Some (map_option (j_string lib) w)"
  then have "map_of (present sp) k = Some (j_string lib y)" using map_of_present[OF a(1)] Some by simp
  with a Some show ?thesis
    using if_present_object[of sp k "Some (j_string lib y)" _ "\<lambda>_. y"] at_string_object[OF present_distinct[OF a(1)]] by simp
qed

lemma opt_uuid:
  "distinct (map fst sp) \<Longrightarrow> map_of sp k = Some (map_option (\<lambda>u. j_string lib (to_string u)) w) \<Longrightarrow>
   if_present lib (j_object lib (present sp)) k (sum_bind (at_string lib (j_object lib (present sp)) k) from_string) = Inr w"
proof (cases w)
  case None
  assume "distinct (map fst sp)" "map_of sp k = Some (map_option (\<lambda>u. j_string lib (to_string u)) w)"
  with None show ?thesis using if_present_object[of sp k None] by simp
next
  case (Some y)
  assume a: "distinct (map fst sp)" "map_of sp k = Some (map_option (\<lambda>u. j_string lib (to_string u)) w)"
  then have "map_of (present sp) k = Some (j_string lib (to_string y))" using map_of_present[OF a(1)] Some by simp
  with a Some show ?thesis
    using if_present_object[of sp k "Some (j_string lib (to_string y))" _ "\<lambda>_. y"]
      at_string_object[OF present_distinct[OF a(1)]] by (simp add: from_to_string)
qed

lemma opt_int64:
  "distinct (map fst sp) \<Longrightarrow> map_of sp k = Some (map_option (\<lambda>n. j_int lib (sint n)) w) \<Longrightarrow>
   if_present lib (j_object lib (present sp)) k (at_int64 lib (j_object lib (present sp)) k) = Inr w"
proof (cases w)
  case None
  assume "distinct (map fst sp)" "map_of sp k = Some (map_option (\<lambda>n. j_int lib (sint n)) w)"
  with None show ?thesis using if_present_object[of sp k None] by simp
next
  case (Some y)
  assume a: "distinct (map fst sp)" "map_of sp k = Some (map_option (\<lambda>n. j_int lib (sint n)) w)"
  then have "map_of (present sp) k = Some (j_int lib (sint y))" using map_of_present[OF a(1)] Some by simp
  with a Some show ?thesis
    using if_present_object[of sp k "Some (j_int lib (sint y))" _ "\<lambda>_. y"] at_int64_object[OF present_distinct[OF a(1)]] by simp
qed

lemma update_roundtrip: "update_from_json lib (update_to_json lib r) = Inr (r\<lparr>ui_status := None\<rparr>)"
proof -
  let ?sp = "[(''sku'', Some (j_string lib (ui_sku r))), (''name'', map_option (j_string lib) (ui_name r)),
    (''description'', map_option (j_string lib) (ui_description r)),
    (''category_id'', map_option (\<lambda>u. j_string lib (to_string u)) (ui_category_id r)),
    (''supplier_id'', map_option (\<lambda>u. j_string lib (to_string u)) (ui_supplier_id r)),
    (''unit_price_amount'', map_option (\<lambda>n. j_int lib (sint n)) (ui_unit_price_amount r)),
    (''currency'', map_option (j_string lib) (ui_currency r)),
    (''stock_quantity'', map_option (\<lambda>n. j_int lib (sint n)) (ui_stock_quantity r)),
    (''min_stock_quantity'', map_option (\<lambda>n. j_int lib (sint n)) (ui_min_stock_quantity r)),
    (''stock_unit'', map_option (j_string lib) (ui_stock_unit r)),
    (''status'', map_option (\<lambda>st. j_string lib (status_text st)) (ui_status r))]"
  have start: "j_object lib [(''sku'', x)] = j_object lib (present [(''sku'', Some x)])" for x by simp
  have j: "update_to_json lib r = j_object lib (present ?sp)"
    unfolding update_to_json_def Let_def start by (simp add: set_opt_present del: present_simps)
  have d: "distinct (map fst ?sp)" by simp
  have "at_string lib (j_object lib (present ?sp)) ''sku'' = Inr (ui_sku r)"
    by (rule at_string_object[OF present_distinct[OF d]]) simp
  then show ?thesis
    unfolding j update_from_json_def
    by (simp add: opt_string[OF d] opt_uuid[OF d] opt_int64[OF d] del: present_simps)
qed

end

section \<open>Properties\<close>

text \<open>The item a request body asks the use case for.\<close>

definition to_create_request :: "CreateItemRequest \<Rightarrow> CreateRequest" where
  "to_create_request r = \<lparr>cr_sku = ci_sku r, cr_name = ci_name r, cr_description = ci_description r,
     cr_category_id = ci_category_id r, cr_supplier_id = ci_supplier_id r,
     cr_unit_price_amount = ci_unit_price_amount r, cr_currency = ci_currency r,
     cr_stock_quantity = ci_stock_quantity r, cr_min_stock_quantity = ci_min_stock_quantity r,
     cr_stock_unit = ci_stock_unit r\<rparr>"

definition to_update_request :: "Uuid \<Rightarrow> UpdateItemRequest \<Rightarrow> UpdateRequest" where
  "to_update_request k r = \<lparr>ur_id = k, ur_name = ui_name r, ur_description = ui_description r,
     ur_category_id = ui_category_id r, ur_supplier_id = ui_supplier_id r,
     ur_unit_price_amount = ui_unit_price_amount r, ur_stock_quantity = ui_stock_quantity r,
     ur_min_stock_quantity = ui_min_stock_quantity r, ur_status = ui_status r\<rparr>"

text \<open>C27: a creation request survives the way through JSON unchanged; an update request loses its
  status, which is written but never read.\<close>

theorem request_json_roundtrip:
  assumes "json_values lib"
  shows "create_from_json lib (create_to_json lib c) = Inr c \<and>
    update_from_json lib (update_to_json lib u) = Inr (u\<lparr>ui_status := None\<rparr>)"
  using json_values.create_roundtrip[OF assms] json_values.update_roundtrip[OF assms] by blast

definition body_update :: UpdateItemRequest where
  "body_update = \<lparr>ui_sku = ''SKU-100'', ui_name = None, ui_description = None, ui_category_id = None,
     ui_supplier_id = None, ui_unit_price_amount = Some 75000, ui_currency = None, ui_stock_quantity = Some 75,
     ui_min_stock_quantity = None, ui_stock_unit = None, ui_status = Some kInactive\<rparr>"

theorem request_json_roundtrip_witness:
  "update_from_json std_json (update_to_json std_json body_update) = Inr (body_update\<lparr>ui_status := None\<rparr>) \<and>
   body_update\<lparr>ui_status := None\<rparr> \<noteq> body_update"
  using request_json_roundtrip[OF std.json_values_axioms, of undefined body_update] by (simp add: body_update_def)

text \<open>The validator of creation requests accepts exactly those with a stock keeping unit, a name, a
  unit, a three-letter currency and no negative amount, so the use case behind it never rejects an
  accepted request as invalid; the validator of updates leaves only an empty name to the use case.\<close>

lemma validate_create_iff:
  "validate_create c = Inr () \<longleftrightarrow>
     ci_sku c \<noteq> [] \<and> ci_name c \<noteq> [] \<and> ci_stock_unit c \<noteq> [] \<and> create_valid (to_create_request c)"
  by (auto simp: validate_create_def create_valid_def to_create_request_def word_sless_alt)

lemma validate_update_iff:
  "validate_update u = Inr () \<longleftrightarrow> ui_sku u \<noteq> [] \<and> \<not> negative (ui_unit_price_amount u) \<and>
     \<not> negative (ui_stock_quantity u) \<and> \<not> negative (ui_min_stock_quantity u)"
  by (simp add: validate_update_def)

lemma not_negative: "\<not> negative v \<longleftrightarrow> (\<forall>a \<in> set_option v. 0 \<le> sint a)"
  by (cases v) (auto simp: negative_def word_sless_alt)

lemma validate_errors:
  "validate_create c = Inl e \<Longrightarrow> err_code e = kValidationError" "validate_update u = Inl e \<Longrightarrow> err_code e = kValidationError"
  by (auto simp: validate_create_def validate_update_def split: if_splits)

theorem validators_sound:
  "(validate_create c = Inr () \<longleftrightarrow>
      ci_sku c \<noteq> [] \<and> ci_name c \<noteq> [] \<and> ci_stock_unit c \<noteq> [] \<and> create_valid (to_create_request c)) \<and>
   (validate_update u = Inr () \<longrightarrow> (update_valid (to_update_request k u) \<longleftrightarrow> ui_name u \<noteq> Some [])) \<and>
   (\<forall>e. validate_create c = Inl e \<or> validate_update u = Inl e \<longrightarrow> err_code e = kValidationError)"
proof (intro conjI)
  show "validate_update u = Inr () \<longrightarrow> (update_valid (to_update_request k u) \<longleftrightarrow> ui_name u \<noteq> Some [])"
    unfolding validate_update_iff not_negative update_valid_def by (simp add: to_update_request_def)
  show "\<forall>e. validate_create c = Inl e \<or> validate_update u = Inl e \<longrightarrow> err_code e = kValidationError"
    using validate_errors by blast
qed (rule validate_create_iff)

theorem validators_sound_witness:
  "validate_update body_update = Inr () \<and> update_valid (to_update_request (generate 1 2) body_update)"
proof -
  have "validate_update body_update = Inr ()"
    by (simp add: validate_update_def body_update_def negative_def word_sless_alt)
  then show ?thesis using validators_sound[of undefined body_update "generate 1 2"] by (simp add: body_update_def)
qed

end
