(* ===== verification/Pool.thy ===== *)
theory Pool
  imports Result
begin

text \<open>
  \<^verbatim>\<open>src/infrastructure/database/connection_pool.{hpp,cpp}\<close>: the pool of database connections and
  the handle \<^verbatim>\<open>PooledConnection\<close>. A \<^verbatim>\<open>pqxx::connection\<close> object is known by a number; whether it
  is open, and what each attempt to connect does, belongs to libpqxx and the network and is an
  argument. The last section models threads that acquire, move and drop handles concurrently.
\<close>

type_synonym conn = nat

datatype attempt = Opened conn | Not_open | Broken_connection string | Connect_failed string

record ConnectionPool =
  m_pool_size :: nat
  m_host :: string
  m_port :: "16 word"
  m_dbname :: string
  m_user :: string
  m_password :: string
  m_max_retries :: nat
  m_retry_delay_ms :: uint64
  m_pool :: "conn list"
  m_available :: nat
  m_shutdown :: bool

definition connection_string :: "ConnectionPool \<Rightarrow> string" where
  "connection_string p =
     ''host='' @ m_host p @ '' port='' @ show_nat (unat (m_port p)) @ '' dbname='' @ m_dbname p
     @ '' user='' @ m_user p @ '' password='' @ m_password p"

section \<open>Connecting\<close>

text \<open>
  One attempt: an open connection is returned; a connection that is not open, and both kinds of
  exception (caught and logged), count as a failure.
\<close>

fun try_open :: "attempt \<Rightarrow> conn option" where
  "try_open (Opened c) = Some c"
| "try_open Not_open = None"
| "try_open (Broken_connection w) = None"
| "try_open (Connect_failed w) = None"

text \<open>
  The retry loop: the connection, if any, and the delays slept. \<open>net i\<close> is the outcome of
  attempt \<open>i\<close>. (\<^verbatim>\<open>m_max_retries\<close> is below the greatest \<^verbatim>\<open>size_t\<close>, as the loop's own condition
  needs.)
\<close>

function create_loop :: "(nat \<Rightarrow> attempt) \<Rightarrow> nat \<Rightarrow> nat \<Rightarrow> uint64 \<Rightarrow> conn option \<times> uint64 list" where
  "create_loop net retries i delay =
     (if i \<le> retries then
        (case try_open (net i) of
           Some c \<Rightarrow> (Some c, [])
         | None \<Rightarrow>
             if i < retries
             then let (r, slept) = create_loop net retries (Suc i) (delay * 2) in (r, delay # slept)
             else create_loop net retries (Suc i) delay)
      else (None, []))"
  by pat_completeness auto
termination
  by (relation "measure (\<lambda>(net, retries, i, delay). Suc retries - i)") auto

declare create_loop.simps [simp del]

definition create_connection :: "(nat \<Rightarrow> attempt) \<Rightarrow> ConnectionPool \<Rightarrow> conn option \<times> uint64 list" where
  "create_connection net p = create_loop net (m_max_retries p) 0 (m_retry_delay_ms p)"

definition backoff :: "uint64 \<Rightarrow> nat \<Rightarrow> uint64 list" where
  "backoff d n = map (\<lambda>k. d * 2 ^ k) [0..<n]"

lemma backoff_Suc: "backoff d (Suc n) = d # backoff (d * 2) n"
proof -
  have "[0..<Suc n] = 0 # map Suc [0..<n]" by (simp add: upt_conv_Cons map_Suc_upt del: upt_Suc)
  then show ?thesis by (simp add: backoff_def comp_def algebra_simps del: upt_Suc)
qed

lemma create_loop_found:
  "(\<forall>k. i \<le> k \<and> k < i + n \<longrightarrow> try_open (net k) = None) \<Longrightarrow> try_open (net (i + n)) = Some c \<Longrightarrow>
   i + n \<le> retries \<Longrightarrow> create_loop net retries i d = (Some c, backoff d n)"
proof (induction n arbitrary: i d)
  case 0
  then show ?case by (subst create_loop.simps) (simp add: backoff_def)
next
  case (Suc n)
  have "create_loop net retries (Suc i) (d * 2) = (Some c, backoff (d * 2) n)"
    using Suc.prems by (intro Suc.IH) auto
  then show ?case using Suc.prems by (subst create_loop.simps) (simp add: backoff_Suc)
qed

lemma create_loop_none:
  "(\<forall>k. i \<le> k \<and> k \<le> i + n \<longrightarrow> try_open (net k) = None) \<Longrightarrow>
   create_loop net (i + n) i d = (None, backoff d n)"
proof (induction n arbitrary: i d)
  case 0
  have "create_loop net i (Suc i) d = (None, [])" by (subst create_loop.simps) simp
  with 0 show ?case by (subst create_loop.simps) (simp add: backoff_def)
next
  case (Suc n)
  have "create_loop net (Suc i + n) (Suc i) (d * 2) = (None, backoff (d * 2) n)"
    using Suc.prems by (intro Suc.IH) auto
  then show ?case using Suc.prems by (subst create_loop.simps) (simp add: backoff_Suc)
qed

text \<open>C20: connecting tries at most one time more than the configured retries, takes the first
  connection that opens, and sleeps exactly before each retry, with delays that double from the
  configured one (modulo the machine word).\<close>

theorem create_connection_backoff:
  "(\<forall>n c. n \<le> m_max_retries p \<and> try_open (net n) = Some c \<and> (\<forall>k < n. try_open (net k) = None) \<longrightarrow>
      create_connection net p = (Some c, map (\<lambda>k. m_retry_delay_ms p * 2 ^ k) [0..<n])) \<and>
   ((\<forall>k \<le> m_max_retries p. try_open (net k) = None) \<longrightarrow>
      create_connection net p = (None, map (\<lambda>k. m_retry_delay_ms p * 2 ^ k) [0..<m_max_retries p]))"
  using create_loop_found[of 0 _ net _ "m_max_retries p" "m_retry_delay_ms p"]
    create_loop_none[of 0 "m_max_retries p" net "m_retry_delay_ms p"]
  by (auto simp: create_connection_def backoff_def)

definition sample_pool :: ConnectionPool where
  "sample_pool = \<lparr>m_pool_size = 2, m_host = ''localhost'', m_port = 5432, m_dbname = ''inventory_db'',
     m_user = ''inventory_user'', m_password = [], m_max_retries = 3, m_retry_delay_ms = 1000,
     m_pool = [], m_available = 0, m_shutdown = False\<rparr>"

theorem create_connection_backoff_witness:
  "create_connection (\<lambda>i. if i = 2 then Opened 7 else Not_open) sample_pool = (Some 7, [1000, 2000])"
proof -
  let ?net = "\<lambda>i. if i = 2 then Opened 7 else Not_open"
  have "create_connection ?net sample_pool = (Some 7, map (\<lambda>k. m_retry_delay_ms sample_pool * 2 ^ k) [0..<2])"
    using create_connection_backoff[of sample_pool ?net, THEN conjunct1, THEN spec[of _ 2], THEN spec[of _ 7]]
    by (simp add: sample_pool_def)
  then show ?thesis by (simp add: sample_pool_def upt_rec)
qed

section \<open>The pool\<close>

text \<open>\<^verbatim>\<open>release(conn)\<close>: a null pointer is ignored.\<close>

definition pool_release :: "conn option \<Rightarrow> ConnectionPool \<Rightarrow> ConnectionPool" where
  "pool_release c p = (case c of
       None \<Rightarrow> p
     | Some c \<Rightarrow> p\<lparr>m_pool := m_pool p @ [c], m_available := m_available p + 1\<rparr>)"

text \<open>The constructor's loop: \<open>net i\<close> is the network while the \<open>i\<close>-th connection is made.\<close>

fun fill_loop :: "(nat \<Rightarrow> nat \<Rightarrow> attempt) \<Rightarrow> nat \<Rightarrow> nat \<Rightarrow> ConnectionPool \<Rightarrow> ConnectionPool" where
  "fill_loop net i 0 p = p"
| "fill_loop net i (Suc n) p =
     fill_loop net (Suc i) n
       (case fst (create_connection (net i) p) of
          None \<Rightarrow> p
        | Some c \<Rightarrow> p\<lparr>m_pool := m_pool p @ [c], m_available := m_available p + 1\<rparr>)"

definition ConnectionPool_new ::
  "(nat \<Rightarrow> nat \<Rightarrow> attempt) \<Rightarrow> nat \<Rightarrow> string \<Rightarrow> 16 word \<Rightarrow> string \<Rightarrow> string \<Rightarrow> string \<Rightarrow> nat \<Rightarrow> uint64
    \<Rightarrow> ConnectionPool" where
  "ConnectionPool_new net psize host port db user pw retries delay =
     fill_loop net 0 psize
       \<lparr>m_pool_size = psize, m_host = host, m_port = port, m_dbname = db, m_user = user,
        m_password = pw, m_max_retries = retries, m_retry_delay_ms = delay,
        m_pool = [], m_available = 0, m_shutdown = False\<rparr>"

definition ConnectionPool_destroy :: "ConnectionPool \<Rightarrow> ConnectionPool" where
  "ConnectionPool_destroy p = p\<lparr>m_shutdown := True, m_pool := [], m_available := 0\<rparr>"

text \<open>
  \<^verbatim>\<open>acquire\<close> under the lock: \<open>None\<close> while the wait's predicate is false; an error on shutdown;
  otherwise the front connection. (\<^verbatim>\<open>front()\<close> of an empty queue with a positive counter is
  excluded by the invariant below.)
\<close>

definition acquire_locked :: "ConnectionPool \<Rightarrow> (conn Result \<times> ConnectionPool) option" where
  "acquire_locked p =
     (if \<not> (m_available p > 0 \<or> m_shutdown p) then None
      else if m_shutdown p then Some (Inl (database ''Connection pool is shutting down''), p)
      else (case m_pool p of
              [] \<Rightarrow> None
            | c # cs \<Rightarrow> Some (Inr c, p\<lparr>m_pool := cs, m_available := m_available p - 1\<rparr>)))"

text \<open>\<^verbatim>\<open>acquire\<close> after the unlock: a stale connection is replaced.\<close>

definition acquire_check :: "(conn \<Rightarrow> bool) \<Rightarrow> (nat \<Rightarrow> attempt) \<Rightarrow> conn \<Rightarrow> ConnectionPool \<Rightarrow> conn Result" where
  "acquire_check is_open net c p =
     (if is_open c then Inr c
      else case fst (create_connection net p) of
          None \<Rightarrow> Inl (database ''Failed to reconnect to database'')
        | Some c' \<Rightarrow> Inr c')"

definition acquire ::
  "(conn \<Rightarrow> bool) \<Rightarrow> (nat \<Rightarrow> attempt) \<Rightarrow> ConnectionPool \<Rightarrow> (conn Result \<times> ConnectionPool) option" where
  "acquire is_open net p =
     (case acquire_locked p of
        None \<Rightarrow> None
      | Some (Inl e, p') \<Rightarrow> Some (Inl e, p')
      | Some (Inr c, p') \<Rightarrow> Some (acquire_check is_open net c p', p'))"

definition size_of :: "ConnectionPool \<Rightarrow> nat" where
  "size_of p = m_pool_size p"

definition available :: "ConnectionPool \<Rightarrow> nat" where
  "available p = m_available p"

section \<open>Handles\<close>

text \<open>
  \<^verbatim>\<open>PooledConnection\<close>: its connection and whether it refers to the pool. A moved-from handle has
  neither.
\<close>

record PooledConnection =
  pc_conn :: "conn option"
  pc_pool :: bool

definition pc_new :: "conn \<Rightarrow> PooledConnection" where
  "pc_new c = \<lparr>pc_conn = Some c, pc_pool = True\<rparr>"

definition pc_moved :: PooledConnection where
  "pc_moved = \<lparr>pc_conn = None, pc_pool = False\<rparr>"

definition pc_ready :: "(conn \<Rightarrow> bool) \<Rightarrow> PooledConnection \<Rightarrow> bool" where
  "pc_ready is_open h = (case pc_conn h of None \<Rightarrow> False | Some c \<Rightarrow> is_open c)"

text \<open>\<^verbatim>\<open>PooledConnection::release\<close>, also the destructor: a closed connection is not given back.\<close>

definition pc_release ::
  "(conn \<Rightarrow> bool) \<Rightarrow> PooledConnection \<Rightarrow> ConnectionPool \<Rightarrow> PooledConnection \<times> ConnectionPool" where
  "pc_release is_open h p =
     (case pc_conn h of
        None \<Rightarrow> (h, p)
      | Some c \<Rightarrow>
          if pc_pool h
          then (if is_open c
                then (h\<lparr>pc_conn := None, pc_pool := False\<rparr>, pool_release (Some c) p)
                else (h\<lparr>pc_pool := False\<rparr>, p))
          else (h, p))"

text \<open>The move constructor: the new handle and what is left of the other.\<close>

definition pc_move_construct :: "PooledConnection \<Rightarrow> PooledConnection \<times> PooledConnection" where
  "pc_move_construct other = (\<lparr>pc_conn = pc_conn other, pc_pool = pc_pool other\<rparr>, pc_moved)"

text \<open>Move assignment between two different handles; assigning a handle to itself does nothing.\<close>

definition pc_move_assign ::
  "(conn \<Rightarrow> bool) \<Rightarrow> PooledConnection \<Rightarrow> PooledConnection \<Rightarrow> ConnectionPool \<Rightarrow>
   PooledConnection \<times> PooledConnection \<times> ConnectionPool" where
  "pc_move_assign is_open this other p =
     (let (_, p') = pc_release is_open this p
      in (\<lparr>pc_conn = pc_conn other, pc_pool = pc_pool other\<rparr>, pc_moved, p'))"

section \<open>The counter\<close>

definition pool_inv :: "ConnectionPool \<Rightarrow> bool" where
  "pool_inv p \<longleftrightarrow> m_available p = length (m_pool p) \<and> length (m_pool p) \<le> m_pool_size p"

lemma fill_loop_inv:
  "m_available p = length (m_pool p) \<Longrightarrow> length (m_pool p) + n \<le> m_pool_size p \<Longrightarrow>
   pool_inv (fill_loop net i n p) \<and> m_shutdown (fill_loop net i n p) = m_shutdown p"
  by (induction n arbitrary: i p) (auto simp: pool_inv_def split: option.splits)

lemma pool_inv_new: "pool_inv (ConnectionPool_new net psize host port db user pw retries delay)"
  by (simp add: ConnectionPool_new_def fill_loop_inv)

lemma acquire_locked_simps:
  assumes "pool_inv p" and "\<not> m_shutdown p"
  shows "acquire_locked p = (case m_pool p of [] \<Rightarrow> None
    | c # cs \<Rightarrow> Some (Inr c, p\<lparr>m_pool := cs, m_available := m_available p - 1\<rparr>))"
  using assms by (auto simp: acquire_locked_def pool_inv_def split: list.splits)

text \<open>\<^verbatim>\<open>acquire\<close> returns unless the pool is empty and not shut down; a returned connection was at
  the front of the queue or freshly opened, and the counter follows the queue.\<close>

theorem acquire_returns:
  assumes "pool_inv p"
  shows "(acquire is_open net p = None \<longleftrightarrow> m_pool p = [] \<and> \<not> m_shutdown p) \<and>
    (\<forall>r p'. acquire is_open net p = Some (r, p') \<longrightarrow> pool_inv p' \<and>
       (case r of
          Inl e \<Rightarrow> err_code e = kDatabaseError
        | Inr c \<Rightarrow> (\<exists>i. net i = Opened c) \<or> is_open c \<and> m_pool p = c # m_pool p'))"
proof -
  have opened: "\<exists>i. net i = Opened c" if "fst (create_loop net n i d) = Some c" for n i d c
    using that
  proof (induction net n i d rule: create_loop.induct)
    case (1 net retries i delay)
    have *: "try_open a = Some c \<longleftrightarrow> a = Opened c" for a by (cases a) auto
    show ?case
      using 1 by (subst (asm) (3) create_loop.simps) (auto simp: case_prod_beta * split: if_splits option.splits)
  qed
  have split: "length cs \<le> m_pool_size p" if "m_pool p = c # cs" for c cs
    using assms that by (simp add: pool_inv_def)
  show ?thesis
    using assms opened[of "m_max_retries p" 0 "m_retry_delay_ms p"]
    by (auto simp: acquire_def acquire_locked_def acquire_check_def pool_inv_def create_connection_def
        split: if_splits list.splits option.splits sum.splits)
qed

theorem acquire_returns_witness:
  "acquire (\<lambda>c. True) (\<lambda>i. Not_open) (sample_pool\<lparr>m_pool := [4, 5], m_available := 2\<rparr>)
     = Some (Inr 4, sample_pool\<lparr>m_pool := [5], m_available := 1\<rparr>) \<and>
   acquire (\<lambda>c. True) (\<lambda>i. Not_open) sample_pool = None"
proof -
  have "pool_inv sample_pool" by (simp add: pool_inv_def sample_pool_def)
  from acquire_returns[OF this, of "\<lambda>c. True" "\<lambda>i. Not_open"] show ?thesis
    by (auto simp: acquire_def acquire_locked_def acquire_check_def sample_pool_def)
qed

section \<open>Threads\<close>

text \<open>
  Handles are numbered; \<open>reconnecting\<close> are the threads between the unlock of \<^verbatim>\<open>acquire\<close> and the end
  of their attempt to reconnect; \<open>opened\<close> says which connections are open (they break at any
  time); \<open>used\<close> are the connection objects made so far. The pool is destroyed only when no handle
  and no running \<^verbatim>\<open>acquire\<close> refers to it (handles share its ownership).
\<close>

record PoolSys =
  pool :: ConnectionPool
  handles :: "nat \<Rightarrow> PooledConnection option"
  reconnecting :: "nat set"
  opened :: "conn set"
  used :: "conn set"

definition held :: "PoolSys \<Rightarrow> nat set" where
  "held s = {h. \<exists>pc. handles s h = Some pc \<and> pc_conn pc \<noteq> None}"

inductive pool_step :: "PoolSys \<Rightarrow> PoolSys \<Rightarrow> bool" where
  acquire_open: "handles s h = None \<Longrightarrow> h \<notin> reconnecting s \<Longrightarrow>
    acquire_locked (pool s) = Some (Inr c, p) \<Longrightarrow> c \<in> opened s \<Longrightarrow>
    pool_step s (s\<lparr>pool := p, handles := (handles s)(h \<mapsto> pc_new c)\<rparr>)"
| acquire_stale: "handles s h = None \<Longrightarrow> h \<notin> reconnecting s \<Longrightarrow>
    acquire_locked (pool s) = Some (Inr c, p) \<Longrightarrow> c \<notin> opened s \<Longrightarrow>
    pool_step s (s\<lparr>pool := p, reconnecting := insert h (reconnecting s)\<rparr>)"
| reconnect_ok: "h \<in> reconnecting s \<Longrightarrow> c \<notin> used s \<Longrightarrow>
    pool_step s (s\<lparr>reconnecting := reconnecting s - {h}, opened := insert c (opened s),
      used := insert c (used s), handles := (handles s)(h \<mapsto> pc_new c)\<rparr>)"
| reconnect_fail: "h \<in> reconnecting s \<Longrightarrow>
    pool_step s (s\<lparr>reconnecting := reconnecting s - {h}\<rparr>)"
| drop: "handles s h = Some pc \<Longrightarrow> pc_release (\<lambda>c. c \<in> opened s) pc (pool s) = (pc', p) \<Longrightarrow>
    pool_step s (s\<lparr>pool := p, handles := (handles s)(h := None)\<rparr>)"
| move: "handles s h = Some pc \<Longrightarrow> handles s h' = None \<Longrightarrow> h' \<notin> reconnecting s \<Longrightarrow>
    pc_move_construct pc = (a, b) \<Longrightarrow>
    pool_step s (s\<lparr>handles := (handles s)(h' \<mapsto> a, h \<mapsto> b)\<rparr>)"
| move_assign: "handles s h' = Some this \<Longrightarrow> handles s h = Some pc \<Longrightarrow> h \<noteq> h' \<Longrightarrow>
    pc_move_assign (\<lambda>c. c \<in> opened s) this pc (pool s) = (a, b, p) \<Longrightarrow>
    pool_step s (s\<lparr>pool := p, handles := (handles s)(h' \<mapsto> a, h \<mapsto> b)\<rparr>)"
| connection_breaks: "pool_step s (s\<lparr>opened := opened s - {c}\<rparr>)"
| destroy: "held s = {} \<Longrightarrow> reconnecting s = {} \<Longrightarrow>
    pool_step s (s\<lparr>pool := ConnectionPool_destroy (pool s)\<rparr>)"

inductive pool_reachable :: "PoolSys \<Rightarrow> PoolSys \<Rightarrow> bool" for s0 :: PoolSys where
  start: "pool_reachable s0 s0"
| step: "pool_reachable s0 s \<Longrightarrow> pool_step s s' \<Longrightarrow> pool_reachable s0 s'"

text \<open>The states after construction: distinct open connections, at most \<^verbatim>\<open>pool_size\<close> of them.\<close>

definition pool_start :: "PoolSys \<Rightarrow> bool" where
  "pool_start s \<longleftrightarrow> pool_inv (pool s) \<and> \<not> m_shutdown (pool s) \<and> distinct (m_pool (pool s)) \<and>
     handles s = (\<lambda>_. None) \<and> reconnecting s = {} \<and> set (m_pool (pool s)) \<subseteq> used s"

text \<open>The connections the pool accounts for: queued, held, or being replaced.\<close>

definition capacity :: "PoolSys \<Rightarrow> nat" where
  "capacity s = length (m_pool (pool s)) + card (held s) + card (reconnecting s)"

definition pool_sys_inv :: "PoolSys \<Rightarrow> bool" where
  "pool_sys_inv s \<longleftrightarrow> m_available (pool s) = length (m_pool (pool s)) \<and> finite (held s) \<and>
     finite (reconnecting s) \<and> distinct (m_pool (pool s)) \<and> set (m_pool (pool s)) \<subseteq> used s \<and>
     (\<forall>h pc c. handles s h = Some pc \<longrightarrow> pc_conn pc = Some c \<longrightarrow>
        pc_pool pc \<and> c \<in> used s \<and> c \<notin> set (m_pool (pool s))) \<and>
     (\<forall>h h' pc pc' c. handles s h = Some pc \<longrightarrow> handles s h' = Some pc' \<longrightarrow> pc_conn pc = Some c \<longrightarrow>
        pc_conn pc' = Some c \<longrightarrow> h = h') \<and>
     (\<forall>h \<in> reconnecting s. handles s h = None)"

lemma acquire_locked_Inr:
  "acquire_locked p = Some (Inr c, p') \<longleftrightarrow>
   (\<exists>cs. m_pool p = c # cs \<and> p' = p\<lparr>m_pool := cs, m_available := m_available p - 1\<rparr> \<and>
      0 < m_available p \<and> \<not> m_shutdown p)"
  by (auto simp: acquire_locked_def split: list.splits)

lemma held_upd:
  "held (s\<lparr>handles := (handles s)(h \<mapsto> pc)\<rparr>) = (if pc_conn pc = None then held s - {h} else insert h (held s))"
  "held (s\<lparr>handles := (handles s)(h := None)\<rparr>) = held s - {h}"
  by (auto simp: held_def)

lemma held_frame [simp]:
  "held (s\<lparr>pool := p\<rparr>) = held s" "held (s\<lparr>reconnecting := r\<rparr>) = held s"
  "held (s\<lparr>opened := o'\<rparr>) = held s" "held (s\<lparr>used := u\<rparr>) = held s"
  by (simp_all add: held_def)

lemma pc_release_pool:
  assumes "pc_release is_open pc p = (pc', p')"
  shows "p' = p \<or> (\<exists>c. pc_conn pc = Some c \<and> pc_pool pc \<and> is_open c \<and> p' = pool_release (Some c) p)"
  using assms by (auto simp: pc_release_def split: option.splits if_splits)

text \<open>Dropping the connection of handle \<open>h\<close>: the shared part of \<open>drop\<close> and \<open>move_assign\<close>.\<close>

lemma inv_drop:
  assumes "pool_sys_inv s" and "handles s h = Some pc"
    and "pc_release (\<lambda>c. c \<in> opened s) pc (pool s) = (pc', p)"
  shows "pool_sys_inv (s\<lparr>pool := p, handles := (handles s)(h := None)\<rparr>) \<and>
    capacity (s\<lparr>pool := p, handles := (handles s)(h := None)\<rparr>) \<le> capacity s"
proof -
  let ?t = "s\<lparr>pool := p, handles := (handles s)(h := None)\<rparr>"
  have held: "held ?t = held s - {h}" by (auto simp: held_def)
  have fin: "finite (held s)" using assms(1) by (simp add: pool_sys_inv_def)
  from pc_release_pool[OF assms(3)] show ?thesis
  proof (elim disjE exE conjE)
    assume "p = pool s"
    then show ?thesis
      using assms(1) held fin card_mono[OF fin, of "held s - {h}"]
      by (fastforce simp: pool_sys_inv_def capacity_def)
  next
    fix c assume c: "pc_conn pc = Some c" "p = pool_release (Some c) (pool s)"
    have "h \<in> held s" using assms(2) c(1) by (auto simp: held_def)
    then have "Suc (card (held s - {h})) = card (held s)" using fin by (metis card.remove)
    moreover have "c \<in> used s" "c \<notin> set (m_pool (pool s))"
      and "\<forall>h' pc'. handles s h' = Some pc' \<longrightarrow> pc_conn pc' = Some c \<longrightarrow> h' = h"
      using assms(1,2) c(1) unfolding pool_sys_inv_def by blast+
    ultimately show ?thesis
      using assms(1) held fin c(2)
      by (auto simp: pool_sys_inv_def capacity_def pool_release_def)
  qed
qed

text \<open>Giving a connection that nobody has to the free handle \<open>h\<close>.\<close>

lemma inv_give:
  assumes "pool_sys_inv s" and "h \<notin> held s" and "h \<notin> reconnecting s" and "c \<in> used s" and "c \<notin> set (m_pool (pool s))"
    and "\<forall>h' pc'. handles s h' = Some pc' \<longrightarrow> pc_conn pc' \<noteq> Some c"
  shows "pool_sys_inv (s\<lparr>handles := (handles s)(h \<mapsto> pc_new c)\<rparr>) \<and>
    capacity (s\<lparr>handles := (handles s)(h \<mapsto> pc_new c)\<rparr>) = Suc (capacity s)"
  using assms by (auto simp: pool_sys_inv_def capacity_def held_upd pc_new_def)

text \<open>Taking the front connection out of the queue.\<close>

lemma inv_take:
  assumes "pool_sys_inv s" and "acquire_locked (pool s) = Some (Inr c, p)"
  shows "pool_sys_inv (s\<lparr>pool := p\<rparr>) \<and> Suc (capacity (s\<lparr>pool := p\<rparr>)) = capacity s \<and>
    c \<in> used s \<and> c \<notin> set (m_pool p) \<and> (\<forall>h pc. handles s h = Some pc \<longrightarrow> pc_conn pc \<noteq> Some c)"
proof -
  obtain cs where p: "m_pool (pool s) = c # cs"
      "p = (pool s)\<lparr>m_pool := cs, m_available := m_available (pool s) - 1\<rparr>"
    using assms(2) by (auto simp: acquire_locked_Inr)
  have "pc_conn pc \<noteq> Some c" if "handles s h = Some pc" for h pc
    using assms(1) that p(1) by (auto simp: pool_sys_inv_def)
  then show ?thesis using assms(1) p by (auto simp: pool_sys_inv_def capacity_def)
qed

lemma inv_move:
  assumes "pool_sys_inv s" and "handles s h = Some pc" and "h' \<noteq> h" and "h' \<notin> held s"
    and "h' \<notin> reconnecting s"
  shows "pool_sys_inv (s\<lparr>handles := (handles s)(h' \<mapsto> pc, h \<mapsto> pc_moved)\<rparr>) \<and>
    capacity (s\<lparr>handles := (handles s)(h' \<mapsto> pc, h \<mapsto> pc_moved)\<rparr>) = capacity s"
proof -
  let ?t = "s\<lparr>handles := (handles s)(h' \<mapsto> pc, h \<mapsto> pc_moved)\<rparr>"
  have fin: "finite (held s)" using assms(1) by (simp add: pool_sys_inv_def)
  have held: "held ?t = (if pc_conn pc = None then held s else insert h' (held s - {h}))"
    using assms(2-4) by (auto simp: held_def pc_moved_def)
  have "card (held ?t) = card (held s)"
  proof (cases "pc_conn pc")
    case (Some c)
    then have "h \<in> held s" using assms(2) by (auto simp: held_def)
    then have "Suc (card (held s - {h})) = card (held s)" using fin by (metis card.remove)
    then show ?thesis using held Some fin assms(3,4) by simp
  qed (simp add: held)
  moreover have "h1 = h2"
    if "handles ?t h1 = Some p1" "handles ?t h2 = Some p2" "pc_conn p1 = Some c" "pc_conn p2 = Some c"
    for h1 h2 p1 p2 c
  proof -
    define g where "g x = (if x = h' then h else x)" for x
    have "handles s (g h1) = Some p1" "handles s (g h2) = Some p2" "h1 \<noteq> h" "h2 \<noteq> h"
      using that assms(2,3) by (auto simp: g_def pc_moved_def split: if_splits)
    moreover have "g h1 = g h2"
      using assms(1) calculation(1,2) that(3,4) unfolding pool_sys_inv_def by blast
    ultimately show ?thesis by (auto simp: g_def split: if_splits)
  qed
  moreover have "pc_pool p1 \<and> c \<in> used s \<and> c \<notin> set (m_pool (pool s))"
    if "handles ?t h1 = Some p1" "pc_conn p1 = Some c" for h1 p1 c
  proof -
    have "\<exists>x. handles s x = Some p1" using that assms(2) by (auto simp: pc_moved_def split: if_splits)
    then show ?thesis using assms(1) that(2) unfolding pool_sys_inv_def by blast
  qed
  moreover have "finite (held ?t)" using held fin by simp
  moreover have "\<forall>x \<in> reconnecting s. handles ?t x = None"
    using assms(1,2,5) by (auto simp: pool_sys_inv_def)
  ultimately show ?thesis
    using assms(1) unfolding pool_sys_inv_def capacity_def by (simp del: fun_upd_apply)
qed

lemma pool_step_inv:
  "pool_step s s' \<Longrightarrow> pool_sys_inv s \<Longrightarrow> pool_sys_inv s' \<and> capacity s' \<le> capacity s"
proof (induction rule: pool_step.induct)
  case (acquire_open s h c p)
  have "h \<notin> held s" using acquire_open(1) by (auto simp: held_def)
  then show ?case
    using inv_take[OF acquire_open(5,3)] inv_give[of "s\<lparr>pool := p\<rparr>" h c] acquire_open(2) by simp
next
  case (acquire_stale s h c p)
  have "finite (reconnecting s)" using acquire_stale(5) by (simp add: pool_sys_inv_def)
  then show ?case
    using inv_take[OF acquire_stale(5,3)] acquire_stale(1,2)
    by (simp add: pool_sys_inv_def capacity_def)
next
  case (reconnect_ok h s c)
  let ?t = "s\<lparr>reconnecting := reconnecting s - {h}, opened := insert c (opened s), used := insert c (used s)\<rparr>"
  have fin: "finite (reconnecting s)" and free: "handles s h = None"
    using reconnect_ok(1,3) by (auto simp: pool_sys_inv_def)
  have "\<forall>h' pc. handles s h' = Some pc \<longrightarrow> pc_conn pc \<noteq> Some c"
    using reconnect_ok(2,3) by (auto simp: pool_sys_inv_def)
  moreover have "pool_sys_inv ?t" using reconnect_ok(3) by (auto simp: pool_sys_inv_def)
  moreover have "Suc (capacity ?t) = capacity s"
    using card.remove[OF fin reconnect_ok(1)] by (simp add: capacity_def)
  moreover have "c \<notin> set (m_pool (pool s))" using reconnect_ok(2,3) by (auto simp: pool_sys_inv_def)
  moreover have "h \<notin> held s" using free by (simp add: held_def)
  ultimately show ?case using inv_give[of ?t h c] by simp
next
  case (reconnect_fail h s)
  then show ?case
    using card_Diff1_le[of "reconnecting s" h] by (auto simp: pool_sys_inv_def capacity_def)
next
  case (drop s h pc pc' p)
  then show ?case by (intro inv_drop)
next
  case (move s h pc h' a b)
  then have "h' \<noteq> h" "h' \<notin> held s" "a = pc" "b = pc_moved"
    by (auto simp: held_def pc_move_construct_def)
  then show ?case using inv_move[OF move(5,1)] move(3) by simp
next
  case (move_assign s h' this h pc a b p)
  obtain this' where r: "pc_release (\<lambda>c. c \<in> opened s) this (pool s) = (this', p)" "a = pc" "b = pc_moved"
    using move_assign(4) by (auto simp: pc_move_assign_def split: prod.splits)
  let ?t = "s\<lparr>pool := p, handles := (handles s)(h' := None)\<rparr>"
  note t = inv_drop[OF move_assign(5,1) r(1)]
  have "h' \<notin> reconnecting s" using move_assign(1,5) by (auto simp: pool_sys_inv_def)
  then show ?case
    using inv_move[of ?t h pc h'] t move_assign(2,3) r by (auto simp: held_def)
next
  case (connection_breaks s c)
  then show ?case by (simp add: pool_sys_inv_def capacity_def)
next
  case (destroy s)
  then show ?case by (auto simp: pool_sys_inv_def capacity_def ConnectionPool_destroy_def)
qed

lemma pool_start_inv: "pool_start s \<Longrightarrow> pool_sys_inv s \<and> capacity s \<le> m_pool_size (pool s)"
  by (auto simp: pool_start_def pool_sys_inv_def pool_inv_def held_def capacity_def)

lemma pool_reachable_inv:
  "pool_reachable s0 s \<Longrightarrow> pool_start s0 \<Longrightarrow> pool_sys_inv s \<and> capacity s \<le> capacity s0"
proof (induction rule: pool_reachable.induct)
  case start
  then show ?case using pool_start_inv by simp
next
  case (step s s')
  then show ?case using pool_step_inv[OF step(2)] by auto
qed

text \<open>C12: at every moment no connection is with two handles or both with a handle and in the queue,
  and queued, held and replaced connections together never exceed the configured pool size.\<close>

theorem pool_exclusive:
  assumes "pool_start s0" and "pool_reachable s0 s"
  shows "distinct (m_pool (pool s)) \<and> m_available (pool s) = length (m_pool (pool s)) \<and>
    (\<forall>h pc c. handles s h = Some pc \<and> pc_conn pc = Some c \<longrightarrow> c \<notin> set (m_pool (pool s)) \<and>
       (\<forall>h' pc'. handles s h' = Some pc' \<and> pc_conn pc' = Some c \<longrightarrow> h' = h)) \<and>
    length (m_pool (pool s)) + card (held s) + card (reconnecting s) \<le> m_pool_size (pool s0)"
proof -
  have inv: "pool_sys_inv s" and cap: "capacity s \<le> m_pool_size (pool s0)"
    using pool_reachable_inv[OF assms(2,1)] pool_start_inv[OF assms(1)] by auto
  from inv have "c \<notin> set (m_pool (pool s)) \<and>
       (\<forall>h' pc'. handles s h' = Some pc' \<and> pc_conn pc' = Some c \<longrightarrow> h' = h)"
    if "handles s h = Some pc" "pc_conn pc = Some c" for h pc c
    using that unfolding pool_sys_inv_def by blast
  moreover have "distinct (m_pool (pool s))" "m_available (pool s) = length (m_pool (pool s))"
    using inv unfolding pool_sys_inv_def by blast+
  ultimately show ?thesis using cap unfolding capacity_def by blast
qed

definition two_conns :: PoolSys where
  "two_conns = \<lparr>pool = sample_pool\<lparr>m_pool := [4, 5], m_available := 2\<rparr>, handles = (\<lambda>_. None),
     reconnecting = {}, opened = {4, 5}, used = {4, 5}\<rparr>"

lemma two_conns_start: "pool_start two_conns"
  by (simp add: two_conns_def pool_start_def pool_inv_def sample_pool_def)

definition one_taken :: PoolSys where
  "one_taken = two_conns\<lparr>pool := sample_pool\<lparr>m_pool := [5], m_available := 1\<rparr>,
     handles := [0 \<mapsto> pc_new 4]\<rparr>"

lemma one_taken_reachable: "pool_reachable two_conns one_taken"
proof -
  have "pool_step two_conns (two_conns\<lparr>pool := sample_pool\<lparr>m_pool := [5], m_available := 1\<rparr>,
      handles := (handles two_conns)(0 \<mapsto> pc_new 4)\<rparr>)"
    by (rule pool_step.acquire_open) (simp_all add: two_conns_def acquire_locked_def sample_pool_def)
  then have "pool_step two_conns one_taken" by (simp add: one_taken_def two_conns_def)
  then show ?thesis by (rule pool_reachable.step[OF pool_reachable.start])
qed

theorem pool_exclusive_witness:
  "handles one_taken 0 = Some (pc_new 4) \<and> 4 \<notin> set (m_pool (pool one_taken))"
proof -
  have "handles one_taken 0 = Some (pc_new 4)" by (simp add: one_taken_def)
  then show ?thesis
    using pool_exclusive[OF two_conns_start one_taken_reachable, THEN conjunct2, THEN conjunct2,
      THEN conjunct1, THEN spec[of _ 0], THEN spec[of _ "pc_new 4"], THEN spec[of _ 4]]
    by (simp add: pc_new_def)
qed

text \<open>C19: a connection that breaks while it is held is never given back: the capacity of the pool
  only falls. Once it has reached zero without a shutdown, every state the threads can reach has
  capacity zero, and every \<^verbatim>\<open>acquire\<close> there blocks, unless the pool is shut down.\<close>

theorem pool_leak:
  assumes "pool_start s0" and "pool_reachable s0 s" and "capacity s = 0" and "pool_reachable s s'"
  shows "capacity s' = 0 \<and> (\<not> m_shutdown (pool s') \<longrightarrow> acquire is_open net (pool s') = None)"
proof -
  have "pool_sys_inv s' \<and> capacity s' = 0" using assms(4)
  proof (induction rule: pool_reachable.induct)
    case start
    show ?case using pool_reachable_inv[OF assms(2,1)] assms(3) by simp
  next
    case (step t t')
    then show ?case using pool_step_inv[OF step(2)] by auto
  qed
  then show ?thesis
    by (auto simp: acquire_def acquire_locked_def pool_sys_inv_def capacity_def)
qed

definition one_conn :: PoolSys where
  "one_conn = \<lparr>pool = sample_pool\<lparr>m_pool_size := 1, m_pool := [4], m_available := 1\<rparr>, handles = (\<lambda>_. None),
     reconnecting = {}, opened = {4}, used = {4}\<rparr>"

definition drained :: PoolSys where
  "drained = one_conn\<lparr>pool := sample_pool\<lparr>m_pool_size := 1\<rparr>, opened := {}\<rparr>"

lemma drained_reachable: "pool_reachable one_conn drained"
proof -
  let ?s1 = "one_conn\<lparr>pool := sample_pool\<lparr>m_pool_size := 1\<rparr>, handles := (handles one_conn)(0 \<mapsto> pc_new 4)\<rparr>"
  let ?s2 = "?s1\<lparr>opened := opened ?s1 - {4}\<rparr>"
  have 1: "pool_step one_conn ?s1"
    by (rule pool_step.acquire_open) (simp_all add: one_conn_def acquire_locked_def sample_pool_def)
  have 2: "pool_step ?s1 ?s2" by (rule pool_step.connection_breaks)
  have 3: "pool_step ?s2 (?s2\<lparr>pool := pool ?s2, handles := (handles ?s2)(0 := None)\<rparr>)"
    by (rule pool_step.drop[where pc = "pc_new 4" and pc' = "(pc_new 4)\<lparr>pc_pool := False\<rparr>"])
       (simp_all add: pc_new_def pc_release_def one_conn_def)
  have "?s2\<lparr>pool := pool ?s2, handles := (handles ?s2)(0 := None)\<rparr> = drained"
    by (simp add: drained_def one_conn_def fun_upd_idem)
  with 3 have 4: "pool_step ?s2 drained" by (simp only:)
  show ?thesis
    by (rule pool_reachable.step[OF pool_reachable.step[OF pool_reachable.step[OF pool_reachable.start 1] 2] 4])
qed

theorem pool_leak_witness:
  "pool_start one_conn \<and> pool_reachable one_conn drained \<and> \<not> m_shutdown (pool drained) \<and>
   acquire (\<lambda>c. True) (\<lambda>i. Opened 9) (pool drained) = None"
proof -
  have st: "pool_start one_conn"
    by (simp add: one_conn_def pool_start_def pool_inv_def sample_pool_def)
  have cap: "capacity drained = 0"
    by (simp add: capacity_def drained_def one_conn_def sample_pool_def held_def)
  have nsd: "\<not> m_shutdown (pool drained)" by (simp add: drained_def sample_pool_def)
  from pool_leak[OF st drained_reachable cap pool_reachable.start] nsd st drained_reachable
  show ?thesis by blast
qed

end
