(* ===== verification/TimeUtils.thy ===== *)
theory TimeUtils
  imports Entities "HOL-Library.Signed_Division"
begin

text \<open>
  \<^verbatim>\<open>src/common/utils/time_utils.hpp\<close>: time points as ISO 8601 text and back. The C library's
  \<^verbatim>\<open>gmtime\<close> and \<^verbatim>\<open>timegm\<close> are the proleptic Gregorian calendar; \<^verbatim>\<open>std::get_time\<close> reads numbers of
  one up to a fixed number of digits and leaves the fields after a mismatch as they were.
\<close>

section \<open>The calendar\<close>

definition leap :: "int \<Rightarrow> bool" where
  "leap y \<longleftrightarrow> y mod 4 = 0 \<and> y mod 100 \<noteq> 0 \<or> y mod 400 = 0"

definition year_length :: "int \<Rightarrow> int" where
  "year_length y = (if leap y then 366 else 365)"

text \<open>Days from 1970-01-01 to the first day of a year.\<close>

definition year_start :: "int \<Rightarrow> int" where
  "year_start y = 365 * (y - 1970) + ((y - 1) div 4 - 492) - ((y - 1) div 100 - 19) + ((y - 1) div 400 - 4)"

text \<open>From a year and a day counted from its start, the year the day is in and its number there.\<close>

function year_of :: "int \<Rightarrow> int \<Rightarrow> int \<times> int" where
  "year_of y d =
     (if d < 0 then year_of (y - 1) (d + year_length (y - 1))
      else if d < year_length y then (y, d)
      else year_of (y + 1) (d - year_length y))"
  by pat_completeness auto
termination
  by (relation "measure (\<lambda>(y, d). if d < 0 then nat (- d) + 400 else if d < year_length y then 0 else nat d)")
     (auto simp: year_length_def)

declare year_of.simps [simp del]

definition month_lengths :: "int \<Rightarrow> int list" where
  "month_lengths y = [31, if leap y then 29 else 28, 31, 30, 31, 30, 31, 31, 30, 31, 30, 31]"

fun month_of :: "int list \<Rightarrow> int \<Rightarrow> int \<times> int" where
  "month_of [] d = (0, d)"
| "month_of (l # ls) d = (if d < l then (0, d) else map_prod (\<lambda>m. m + 1) id (month_of ls (d - l)))"

record tm =
  tm_year :: int
  tm_mon :: int
  tm_mday :: int
  tm_hour :: int
  tm_min :: int
  tm_sec :: int

definition tm_zero :: tm where
  "tm_zero = \<lparr>tm_year = 0, tm_mon = 0, tm_mday = 0, tm_hour = 0, tm_min = 0, tm_sec = 0\<rparr>"

definition gmtime :: "int \<Rightarrow> tm" where
  "gmtime tt =
     (let (y, yd) = year_of 1970 (tt div 86400);
          (m, md) = month_of (month_lengths y) yd;
          s = tt mod 86400
      in \<lparr>tm_year = y - 1900, tm_mon = m, tm_mday = md + 1,
          tm_hour = s div 3600, tm_min = s mod 3600 div 60, tm_sec = s mod 60\<rparr>)"

definition timegm :: "tm \<Rightarrow> int" where
  "timegm t =
     (let y = tm_year t + 1900
      in (year_start y + sum_list (take (nat (tm_mon t)) (month_lengths y)) + tm_mday t - 1) * 86400
         + tm_hour t * 3600 + tm_min t * 60 + tm_sec t)"

lemma div_pred:
  fixes y k :: int
  assumes "1 < k"
  shows "y div k = (y - 1) div k + (if y mod k = 0 then 1 else 0)"
proof -
  define q r where "q = y div k" and "r = y mod k"
  have y: "y = r + q * k" using div_mult_mod_eq[of y k] by (simp add: q_def r_def)
  have r: "0 \<le> r" "r < k" using assms by (simp_all add: r_def)
  have "(y - 1) div k = (if r = 0 then q - 1 else q)"
  proof (rule int_div_pos_eq[where r = "if r = 0 then k - 1 else r - 1"])
    show "y - 1 = k * (if r = 0 then q - 1 else q) + (if r = 0 then k - 1 else r - 1)"
      using y by (simp add: algebra_simps)
  qed (use r assms in auto)
  then show ?thesis by (auto simp: q_def r_def)
qed

lemma year_start_Suc: "year_start (y + 1) = year_start y + year_length y"
proof -
  have "y mod 4 = 0" if "y mod 100 = 0"
    using that dvd_trans[of 4 100 y] by (simp add: mod_eq_0_iff_dvd)
  moreover have "y mod 100 = 0" if "y mod 400 = 0"
    using that dvd_trans[of 100 400 y] by (simp add: mod_eq_0_iff_dvd)
  moreover define a a' b b' c c'
    where "a = y div 4" and "a' = (y - 1) div 4" and "b = y div 100" and "b' = (y - 1) div 100"
      and "c = y div 400" and "c' = (y - 1) div 400"
  note ds = this
  have "a = a' + (if y mod 4 = 0 then 1 else 0)" "b = b' + (if y mod 100 = 0 then 1 else 0)"
    "c = c' + (if y mod 400 = 0 then 1 else 0)"
    unfolding ds by (rule div_pred; simp)+
  moreover have "year_start (y + 1) = year_start y + 365 + (a - a') - (b - b') + (c - c')"
    by (simp add: year_start_def ds)
  ultimately show ?thesis by (auto simp: year_length_def leap_def)
qed

lemma year_start_epoch [simp]: "year_start 1970 = 0"
  by (simp add: year_start_def)

lemma year_of_correct:
  "year_of y d = (y', d') \<Longrightarrow> year_start y' + d' = year_start y + d \<and> 0 \<le> d' \<and> d' < year_length y'"
proof (induction y d rule: year_of.induct)
  case (1 y d)
  show ?case
  proof (cases "d < 0")
    case True
    then have "year_of (y - 1) (d + year_length (y - 1)) = (y', d')"
      using 1(3) by (simp add: year_of.simps[of y d])
    then show ?thesis using 1(1)[OF True] year_start_Suc[of "y - 1"] by simp
  next
    case False
    show ?thesis
    proof (cases "d < year_length y")
      case True
      then show ?thesis using 1(3) False by (simp add: year_of.simps[of y d])
    next
      case ge: False
      then have "year_of (y + 1) (d - year_length y) = (y', d')"
        using 1(3) False by (simp add: year_of.simps[of y d])
      then show ?thesis using 1(2)[OF False ge] year_start_Suc[of y] by simp
    qed
  qed
qed

lemma month_of_correct:
  assumes "0 \<le> d" and "d < sum_list ls" and "\<forall>l \<in> set ls. 0 < l" and "month_of ls d = (m, md)"
  shows "0 \<le> m \<and> nat m < length ls \<and> 0 \<le> md \<and> md < ls ! nat m \<and> sum_list (take (nat m) ls) + md = d"
  using assms
proof (induction ls arbitrary: d m)
  case (Cons l ls)
  show ?case
  proof (cases "d < l")
    case True
    with Cons.prems show ?thesis by auto
  next
    case False
    then obtain m' where m': "month_of ls (d - l) = (m', md)" "m = m' + 1"
      using Cons.prems(4) by (cases "month_of ls (d - l)") auto
    have "0 \<le> m' \<and> nat m' < length ls \<and> 0 \<le> md \<and> md < ls ! nat m' \<and> sum_list (take (nat m') ls) + md = d - l"
      using Cons.prems False m' by (intro Cons.IH) auto
    moreover from this have "nat m = Suc (nat m')" using m'(2) by linarith
    ultimately show ?thesis using m'(2) by simp
  qed
qed simp

lemma sum_month_lengths: "sum_list (month_lengths y) = year_length y"
  by (simp add: month_lengths_def year_length_def)

definition tm_ok :: "tm \<Rightarrow> bool" where
  "tm_ok t \<longleftrightarrow> 0 \<le> tm_mon t \<and> tm_mon t \<le> 11 \<and> 1 \<le> tm_mday t \<and> tm_mday t \<le> 31 \<and>
     0 \<le> tm_hour t \<and> tm_hour t \<le> 23 \<and> 0 \<le> tm_min t \<and> tm_min t \<le> 59 \<and> 0 \<le> tm_sec t \<and> tm_sec t \<le> 59"

lemma seconds_split:
  fixes r :: int
  shows "r div 3600 * 3600 + (r mod 3600 div 60) * 60 + r mod 60 = r"
proof -
  have "r mod 3600 mod 60 = r mod 60" by (rule mod_mod_cancel) simp
  then show ?thesis using div_mult_mod_eq[of "r mod 3600" 60] div_mult_mod_eq[of r 3600] by linarith
qed

lemma gmtime_correct: "tm_ok (gmtime tt) \<and> timegm (gmtime tt) = tt"
proof -
  obtain y yd where y: "year_of 1970 (tt div 86400) = (y, yd)" by force
  obtain m md where m: "month_of (month_lengths y) yd = (m, md)" by force
  note yc = year_of_correct[OF y]
  have pos: "\<forall>l \<in> set (month_lengths y). 0 < l" "\<forall>l \<in> set (month_lengths y). l \<le> 31"
    and len: "length (month_lengths y) = 12"
    by (auto simp: month_lengths_def)
  have mc: "0 \<le> m \<and> nat m < length (month_lengths y) \<and> 0 \<le> md \<and> md < month_lengths y ! nat m \<and>
      sum_list (take (nat m) (month_lengths y)) + md = yd"
    using yc pos by (intro month_of_correct[OF _ _ _ m]) (auto simp: sum_month_lengths)
  then have "month_lengths y ! nat m \<le> 31" using pos(2) by simp
  with mc len have md: "0 \<le> m" "m \<le> 11" "0 \<le> md" "md < 31" by auto
  define r where "r = tt mod 86400"
  have r: "0 \<le> r" "r < 86400" "tt div 86400 * 86400 + r = tt" by (simp_all add: r_def)
  have g: "gmtime tt = \<lparr>tm_year = y - 1900, tm_mon = m, tm_mday = md + 1,
      tm_hour = r div 3600, tm_min = r mod 3600 div 60, tm_sec = r mod 60\<rparr>"
    by (simp add: gmtime_def y m Let_def r_def)
  have bounds: "0 \<le> r div 3600" "r div 3600 \<le> 23" "0 \<le> r mod 3600 div 60" "r mod 3600 div 60 \<le> 59"
    "0 \<le> r mod 60" "r mod 60 \<le> 59"
    using r by auto
  have "tm_ok (gmtime tt)" using md bounds by (simp add: g tm_ok_def)
  moreover have "year_start y + sum_list (take (nat m) (month_lengths y)) + md = tt div 86400"
    using yc mc by simp
  then have "timegm (gmtime tt) = tt div 86400 * 86400 + (r div 3600 * 3600 + r mod 3600 div 60 * 60 + r mod 60)"
    by (simp add: g timegm_def Let_def)
  then have "timegm (gmtime tt) = tt" by (simp only: seconds_split r(3))
  ultimately show ?thesis by blast
qed

lemma year_of_bounds: "0 \<le> d \<Longrightarrow> year_of y d = (y', d') \<Longrightarrow> y \<le> y' \<and> 365 * (y' - y) \<le> d"
proof (induction y d rule: year_of.induct)
  case (1 y d)
  show ?case
  proof (cases "d < year_length y")
    case True
    then show ?thesis using 1 by (simp add: year_of.simps[of y d])
  next
    case False
    then have "year_of (y + 1) (d - year_length y) = (y', d')" and "0 \<le> d - year_length y"
      using 1(3,4) by (simp_all add: year_of.simps[of y d])
    moreover have "365 \<le> year_length y" by (simp add: year_length_def)
    ultimately show ?thesis using 1(2)[OF _ False] 1(3) by simp
  qed
qed

lemma gmtime_year:
  assumes "0 \<le> tt" and "tt < 2 ^ 63 div 10 ^ 9 + 1"
  shows "1970 \<le> tm_year (gmtime tt) + 1900 \<and> tm_year (gmtime tt) + 1900 \<le> 2262"
proof -
  obtain y yd where y: "year_of 1970 (tt div 86400) = (y, yd)" by force
  have "tt div 86400 \<le> 106751" using assms by simp
  moreover have "0 \<le> tt div 86400" using assms(1) by simp
  ultimately have "1970 \<le> y \<and> y \<le> 2262" using year_of_bounds[OF \<open>0 \<le> tt div 86400\<close> y] by auto
  then show ?thesis by (simp add: gmtime_def y Let_def split: prod.split)
qed

section \<open>Text\<close>

text \<open>\<^verbatim>\<open>{:0wd}\<close> of \<^verbatim>\<open>std::format\<close>: the sign counts in the width.\<close>

definition pad_int :: "nat \<Rightarrow> int \<Rightarrow> string" where
  "pad_int w i = (if i < 0 then ''-'' @ pad (w - 1) (show_base 10 (nat (- i))) else pad w (show_base 10 (nat i)))"

definition format_iso8601 :: "time_point \<Rightarrow> string" where
  "format_iso8601 tp =
     (let tt = tp sdiv 10 ^ 9;
          ms = (tp sdiv 10 ^ 6) smod 1000;
          t = gmtime tt
      in pad_int 4 (tm_year t + 1900) @ ''-'' @ pad_int 2 (tm_mon t + 1) @ ''-'' @ pad_int 2 (tm_mday t) @
         ''T'' @ pad_int 2 (tm_hour t) @ '':'' @ pad_int 2 (tm_min t) @ '':'' @ pad_int 2 (tm_sec t) @
         ''.'' @ pad_int 3 ms @ ''Z'')"

text \<open>
  \<^verbatim>\<open>std::get_time\<close>: a numeric field takes one to \<open>len\<close> digits whose value is in range, a literal
  takes itself; at the first mismatch reading stops and the rest of the \<^typ>\<open>tm\<close> is left alone.
\<close>

definition get_num :: "int \<Rightarrow> int \<Rightarrow> nat \<Rightarrow> string \<Rightarrow> (int \<times> string) option" where
  "get_num mn mx len s =
     (let ds = takeWhile (is_digit 10) (take len s);
          v = int (read_base 10 ds)
      in if ds \<noteq> [] \<and> mn \<le> v \<and> v \<le> mx then Some (v, drop (length ds) s) else None)"

datatype fmt = Lit char | Field int int nat "int \<Rightarrow> tm \<Rightarrow> tm"

fun get_time :: "fmt list \<Rightarrow> string \<Rightarrow> tm \<Rightarrow> tm" where
  "get_time [] s t = t"
| "get_time (Lit c # fs) s t =
     (case s of [] \<Rightarrow> t | x # xs \<Rightarrow> if x = c then get_time fs xs t else t)"
| "get_time (Field mn mx len upd # fs) s t =
     (case get_num mn mx len s of None \<Rightarrow> t | Some (v, r) \<Rightarrow> get_time fs r (upd v t))"

definition iso_fmt :: "fmt list" where
  "iso_fmt =
     [Field 0 9999 4 (\<lambda>v t. t\<lparr>tm_year := v - 1900\<rparr>), Lit (CHR ''-''),
      Field 1 12 2 (\<lambda>v t. t\<lparr>tm_mon := v - 1\<rparr>), Lit (CHR ''-''),
      Field 1 31 2 (\<lambda>v t. t\<lparr>tm_mday := v\<rparr>), Lit (CHR ''T''),
      Field 0 23 2 (\<lambda>v t. t\<lparr>tm_hour := v\<rparr>), Lit (CHR '':''),
      Field 0 59 2 (\<lambda>v t. t\<lparr>tm_min := v\<rparr>), Lit (CHR '':''),
      Field 0 60 2 (\<lambda>v t. t\<lparr>tm_sec := v\<rparr>)]"

definition parse_iso8601 :: "string \<Rightarrow> exn + time_point" where
  "parse_iso8601 sv =
     (let t = get_time iso_fmt (dropWhile c_isspace sv) tm_zero;
          tp = timegm t * 10 ^ 9
      in case dropWhile (\<lambda>c. c \<noteq> CHR ''.'') sv of
           [] \<Rightarrow> Inr tp
         | _ # rest \<Rightarrow> map_sum id (\<lambda>ms. tp + sint ms * 10 ^ 6) (stoi (take 3 rest)))"

lemma get_num_pad:
  assumes "0 < len" and "0 \<le> v" and "v < 10 ^ len" and "mn \<le> v" and "v \<le> mx"
  shows "get_num mn mx len (pad_int len v @ r) = Some (v, r)"
proof -
  have "nat v < 10 ^ len" using assms by (simp add: nat_less_iff)
  then have len: "length (pad_int len v) = len"
    using assms length_pad_show_base[of 10 len "nat v"] by (simp add: pad_int_def)
  have dig: "\<forall>c \<in> set (pad_int len v). is_digit 10 c"
    using assms pad_digits[of 10 len "nat v"] by (simp add: pad_int_def)
  then have "takeWhile (is_digit 10) (pad_int len v) = pad_int len v" by simp
  moreover have "int (read_base 10 (pad_int len v)) = v" using assms by (simp add: pad_int_def)
  moreover have "pad_int len v \<noteq> []" using len assms(1) by auto
  ultimately show ?thesis using len assms(4,5) by (simp add: get_num_def Let_def del: takeWhile_eq_all_conv)
qed

lemma pad_int_digits: "0 \<le> v \<Longrightarrow> c \<in> set (pad_int w v) \<Longrightarrow> is_digit 10 c"
  using pad_digits[of 10 w "nat v"] by (simp add: pad_int_def)

lemma digit_not_dot: "is_digit 10 c \<Longrightarrow> c \<noteq> CHR ''.''"
  by (auto simp: is_digit_def digit_val_def)

lemma stoi_pad:
  assumes "0 \<le> v" and "v < 1000"
  shows "stoi (pad_int 3 v) = Inr (word_of_int v)"
proof -
  have "pad_int 3 v \<noteq> []" using assms length_pad[of 3 "show_base 10 (nat v)"] by (auto simp: pad_int_def simp del: length_pad)
  then have "strto 10 (pad_int 3 v) = Some (False, nat v)"
    using strto_digits[of "pad_int 3 v" 10] pad_int_digits[OF assms(1)] assms(1) by (simp add: pad_int_def)
  then show ?thesis using assms by (simp add: stoi_def sto_signed_def)
qed

lemma format_iso8601_shape:
  assumes "0 \<le> tp" and "tp < 2 ^ 63"
  shows "\<exists>dt ms. format_iso8601 tp = dt @ ''.'' @ pad_int 3 ms @ ''Z'' \<and> CHR ''.'' \<notin> set dt \<and> 0 \<le> ms \<and> ms < 1000"
proof -
  define t where "t = gmtime (tp div 10 ^ 9)"
  have sd: "tp sdiv 10 ^ 9 = tp div 10 ^ 9" "(tp sdiv 10 ^ 6) smod 1000 = tp div 10 ^ 6 mod 1000"
    using assms by (simp_all add: signed_divide_int_def signed_modulo_int_def sgn_if)
  have ok: "tm_ok t" using gmtime_correct by (simp add: t_def)
  have yr: "1970 \<le> tm_year t + 1900" using gmtime_year[of "tp div 10 ^ 9"] assms by (simp add: t_def)
  let ?dt = "pad_int 4 (tm_year t + 1900) @ ''-'' @ pad_int 2 (tm_mon t + 1) @ ''-'' @
    pad_int 2 (tm_mday t) @ ''T'' @ pad_int 2 (tm_hour t) @ '':'' @ pad_int 2 (tm_min t) @ '':'' @ pad_int 2 (tm_sec t)"
  have "format_iso8601 tp = ?dt @ ''.'' @ pad_int 3 (tp div 10 ^ 6 mod 1000) @ ''Z''"
    unfolding format_iso8601_def sd Let_def by (simp add: t_def)
  moreover have "CHR ''.'' \<notin> set ?dt"
    using ok yr unfolding tm_ok_def by (auto dest!: pad_int_digits[rotated] dest: digit_not_dot)
  ultimately show ?thesis by (intro exI[of _ ?dt] exI[of _ "tp div 10 ^ 6 mod 1000"]) simp
qed

text \<open>C23: a time of the nanosecond clock from 1970 on survives being written as ISO 8601 text and
  read back, up to the milliseconds the text carries.\<close>

theorem iso8601_roundtrip:
  assumes "0 \<le> tp" and "tp < 2 ^ 63"
  shows "parse_iso8601 (format_iso8601 tp) = Inr (tp - tp mod 10 ^ 6)"
proof -
  define tt ms t where "tt = tp div 10 ^ 9" and "ms = tp div 10 ^ 6 mod 1000" and "t = gmtime tt"
  have sd: "tp sdiv 10 ^ 9 = tt" "(tp sdiv 10 ^ 6) smod 1000 = ms"
    using assms by (simp_all add: tt_def ms_def signed_divide_int_def signed_modulo_int_def sgn_if)
  have ms: "0 \<le> ms" "ms < 1000" by (simp_all add: ms_def)
  have ok: "tm_ok t" and tg: "timegm t = tt" using gmtime_correct[of tt] by (simp_all add: t_def)
  have "0 \<le> tt" "tt < 2 ^ 63 div 10 ^ 9 + 1" using assms by (simp_all add: tt_def)
  then have yr: "1970 \<le> tm_year t + 1900" "tm_year t + 1900 \<le> 2262" using gmtime_year[of tt] by (simp_all add: t_def)
  define dt where "dt = pad_int 4 (tm_year t + 1900) @ ''-'' @ pad_int 2 (tm_mon t + 1) @ ''-'' @
    pad_int 2 (tm_mday t) @ ''T'' @ pad_int 2 (tm_hour t) @ '':'' @ pad_int 2 (tm_min t) @ '':'' @ pad_int 2 (tm_sec t)"
  have text_eq: "format_iso8601 tp = dt @ ''.'' @ pad_int 3 ms @ ''Z''"
    unfolding format_iso8601_def sd Let_def by (simp add: dt_def t_def)
  have gt: "get_time iso_fmt (dt @ r) tm_zero = t" for r
    using ok yr unfolding tm_ok_def dt_def iso_fmt_def
    by (simp add: get_num_pad tm_zero_def)
  have "c \<noteq> CHR ''.''" if "c \<in> set dt" for c
    using that ok yr unfolding tm_ok_def dt_def
    by (auto dest!: pad_int_digits[rotated] dest: digit_not_dot)
  then have dot: "dropWhile (\<lambda>c. c \<noteq> CHR ''.'') (dt @ CHR ''.'' # r) = CHR ''.'' # r" for r
    by (simp add: dropWhile_append2)
  have l4: "0 < length (pad_int 4 (tm_year t + 1900))" using yr by (simp add: pad_int_def)
  then obtain c cs where c: "pad_int 4 (tm_year t + 1900) = c # cs" by (cases "pad_int 4 (tm_year t + 1900)") auto
  then have "\<not> c_isspace c" using pad_int_digits[of "tm_year t + 1900" c 4] yr digit_not_special by auto
  then have nosp: "dropWhile c_isspace (dt @ r) = dt @ r" for r by (simp add: dt_def c)
  have l3: "length (pad_int 3 ms) = 3"
    using ms length_pad_show_base[of 10 3 "nat ms"] by (simp add: pad_int_def nat_less_iff)
  have "parse_iso8601 (format_iso8601 tp) = Inr (tt * 10 ^ 9 + sint (word_of_int ms :: int32) * 10 ^ 6)"
    unfolding text_eq parse_iso8601_def Let_def nosp gt
    using dot l3 by (simp add: tg stoi_pad ms)
  also have "sint (word_of_int ms :: int32) = ms"
    using ms by (simp add: signed_of_int signed_take_bit_int_eq_self)
  also have "tt * 10 ^ 9 + ms * 10 ^ 6 = tp - tp mod 10 ^ 6"
  proof -
    have "tt = tp div 10 ^ 6 div 1000" by (simp add: tt_def zdiv_zmult2_eq[symmetric])
    then have "tt * 1000 + ms = tp div 10 ^ 6"
      using div_mult_mod_eq[of "tp div 10 ^ 6" 1000] by (simp only: ms_def)
    then have "(tt * 1000 + ms) * 10 ^ 6 = tp - tp mod 10 ^ 6" by (simp only: minus_mod_eq_div_mult)
    then show ?thesis by (simp add: algebra_simps)
  qed
  finally show ?thesis .
qed

theorem iso8601_roundtrip_witness:
  "parse_iso8601 (format_iso8601 1700000000123456789) = Inr 1700000000123000000"
  using iso8601_roundtrip[of 1700000000123456789] by simp

lemma epoch_text: "parse_iso8601 ''1970-01-01 00:00:00+00'' = Inr 0"
  by code_simp

section \<open>The text of PostgreSQL\<close>

text \<open>
  The text PostgreSQL gives for a \<^verbatim>\<open>timestamptz\<close> column in the date style ISO: date and time of the session's time
  zone, \<open>zone\<close> hours ahead of UTC, with a blank between them, the microseconds without the zeros they end with,
  if any are left, and the zone.
\<close>

definition local_time :: "int \<Rightarrow> time_point \<Rightarrow> int" where
  "local_time zone tp = tp + zone * 3600 * 10 ^ 9"

definition fraction_digits :: "int \<Rightarrow> string" where
  "fraction_digits us = rev (dropWhile (\<lambda>c. c = CHR ''0'') (rev (pad_int 6 us)))"

definition postgres_text :: "int \<Rightarrow> time_point \<Rightarrow> string" where
  "postgres_text zone tp =
     (let l = local_time zone tp; t = gmtime (l div 10 ^ 9); f = fraction_digits (l div 1000 mod 10 ^ 6)
      in pad_int 4 (tm_year t + 1900) @ ''-'' @ pad_int 2 (tm_mon t + 1) @ ''-'' @ pad_int 2 (tm_mday t) @ '' '' @
         pad_int 2 (tm_hour t) @ '':'' @ pad_int 2 (tm_min t) @ '':'' @ pad_int 2 (tm_sec t) @
         (if f = [] then [] else ''.'' @ f) @ (if zone < 0 then ''-'' else ''+'') @ pad_int 2 \<bar>zone\<bar>)"

lemma fraction_digits_digits: "0 \<le> us \<Longrightarrow> c \<in> set (fraction_digits us) \<Longrightarrow> is_digit 10 c"
  by (auto simp: fraction_digits_def dest!: set_dropWhileD pad_int_digits)

lemma fraction_read:
  assumes f: "f \<noteq> []" "\<forall>c \<in> set f. is_digit 10 c" and z: "z \<noteq> []" "\<not> is_digit 10 (hd z)"
  shows "stoi (take 3 (f @ z)) = Inr (of_nat (read_base 10 (take 3 f)))" and "read_base 10 (take 3 f) < 1000"
proof -
  have d: "\<forall>c \<in> set (take 3 f). is_digit 10 c" using f(2) by (auto dest: in_set_takeD)
  show less: "read_base 10 (take 3 f) < 1000"
    using read_base_less[OF d] power_increasing[of "length (take 3 f)" 3 "10 :: nat"] by simp
  have "take (3 - length f) z = [] \<or> \<not> is_digit 10 (hd (take (3 - length f) z))" using z by (cases z; cases "3 - length f") auto
  then have "strto 10 (take 3 (f @ z)) = Some (False, read_base 10 (take 3 f))"
    using strto_digits_then[of "take 3 f" "take (3 - length f) z"] d f(1) by simp
  then show "stoi (take 3 (f @ z)) = Inr (of_nat (read_base 10 (take 3 f)))"
    using less by (simp add: stoi_def sto_signed_def)
qed

lemma timegm_day: "timegm (t\<lparr>tm_hour := 0, tm_min := 0, tm_sec := 0\<rparr>) =
    timegm t - (tm_hour t * 3600 + tm_min t * 60 + tm_sec t)"
  by (simp add: timegm_def Let_def)

lemma gmtime_clock: "tm_hour (gmtime tt) = tt mod 86400 div 3600" "tm_min (gmtime tt) = tt mod 86400 mod 3600 div 60"
  "tm_sec (gmtime tt) = tt mod 86400 mod 60"
  by (simp_all only: gmtime_def Let_def split_def tm.simps)

lemma timegm_midnight:
  "timegm ((gmtime tt)\<lparr>tm_hour := 0, tm_min := 0, tm_sec := 0\<rparr>) = tt - tt mod 86400"
  unfolding timegm_day gmtime_clock seconds_split using gmtime_correct[of tt] by simp

lemma day_of_seconds:
  fixes l :: int
  shows "(l div 10 ^ 9 - l div 10 ^ 9 mod 86400) * 10 ^ 9 = l - l mod (86400 * 10 ^ 9)"
proof -
  have "l div 10 ^ 9 - l div 10 ^ 9 mod 86400 = l div 10 ^ 9 div 86400 * 86400" by (simp only: minus_mod_eq_div_mult)
  also have "l div 10 ^ 9 div 86400 = l div (86400 * 10 ^ 9)" by (simp add: zdiv_zmult2_eq[symmetric])
  finally show ?thesis using minus_mod_eq_div_mult[of l "86400 * 10 ^ 9"] by simp
qed



end
