(* ===== verification/Pqxx.thy ===== *)
theory Pqxx
  imports Pool TimeUtils
begin

text \<open>
  The shape every database operation of \<^verbatim>\<open>src/infrastructure/\<close> has: take a connection from the
  pool, run one transaction inside a \<^verbatim>\<open>try\<close> block, turn exceptions into errors, and give the
  connection back when the handle goes out of scope. The client library libpqxx and the database
  behind it are parameters: a record of the operations the code calls.
\<close>

section \<open>The client library\<close>

text \<open>\<^verbatim>\<open>pqxx::sql_error\<close> and the other exceptions, with their \<^verbatim>\<open>what()\<close>.\<close>

datatype db_exn = Sql_error string | Std_exception string

text \<open>Parameters of a statement, in the types the code passes.\<close>

datatype param = PText string | PInt64 int64 | PInt int32 | PBool bool

text \<open>A row gives the text of each column, \<open>None\<close> for NULL.\<close>

type_synonym row = "string \<Rightarrow> string option"

record pg_result =
  rows :: "row list"
  affected_rows :: nat

text \<open>
  \<open>work\<close> opens a transaction, \<open>exec_sql\<close> runs a statement in it, \<open>commit\<close> ends it; a transaction
  that is dropped without \<open>commit\<close> is rolled back. \<open>'d\<close> is the database server with its
  connections, \<open>'t\<close> an open transaction.
\<close>

record ('d, 't) pqxx =
  conn_open :: "'d \<Rightarrow> conn \<Rightarrow> bool"
  conn_attempt :: "'d \<Rightarrow> nat \<Rightarrow> attempt"
  work :: "conn \<Rightarrow> 'd \<Rightarrow> db_exn + 't"
  exec_sql :: "string \<Rightarrow> param list \<Rightarrow> 't \<Rightarrow> db_exn + (pg_result \<times> 't)"
  commit :: "'t \<Rightarrow> 'd \<Rightarrow> 'd \<times> (db_exn + unit)"
  parse_int64 :: "string \<Rightarrow> db_exn + int64"
  parse_size :: "string \<Rightarrow> db_exn + uint64"
  parse_bool :: "string \<Rightarrow> db_exn + bool"
  null_error :: db_exn

text \<open>\<^verbatim>\<open>row[col].as<T>()\<close> and \<^verbatim>\<open>as<T>(default)\<close>.\<close>

definition as_text :: "('d, 't) pqxx \<Rightarrow> string option \<Rightarrow> db_exn + string" where
  "as_text pq v = (case v of None \<Rightarrow> Inl (null_error pq) | Some x \<Rightarrow> Inr x)"

definition as_text_or :: "string \<Rightarrow> string option \<Rightarrow> string" where
  "as_text_or d v = (case v of None \<Rightarrow> d | Some x \<Rightarrow> x)"

definition as_int64 :: "('d, 't) pqxx \<Rightarrow> string option \<Rightarrow> db_exn + int64" where
  "as_int64 pq v = (case v of None \<Rightarrow> Inl (null_error pq) | Some x \<Rightarrow> parse_int64 pq x)"

definition as_size :: "('d, 't) pqxx \<Rightarrow> string option \<Rightarrow> db_exn + uint64" where
  "as_size pq v = (case v of None \<Rightarrow> Inl (null_error pq) | Some x \<Rightarrow> parse_size pq x)"

definition as_bool_or :: "('d, 't) pqxx \<Rightarrow> bool \<Rightarrow> string option \<Rightarrow> db_exn + bool" where
  "as_bool_or pq d v = (case v of None \<Rightarrow> Inr d | Some x \<Rightarrow> parse_bool pq x)"

text \<open>Exceptions of the standard library reach the same handlers.\<close>

definition lift_exn :: "exn + 'a \<Rightarrow> db_exn + 'a" where
  "lift_exn r = map_sum (\<lambda>e. Std_exception (what e)) id r"

lemma lift_exn_simps [simp]: "lift_exn (Inr x) = Inr x" "lift_exn (Inl e) = Inl (Std_exception (what e))"
  by (simp_all add: lift_exn_def)

section \<open>One transaction\<close>

text \<open>
  The bodies of the \<^verbatim>\<open>try\<close> blocks. \<open>txn_commit_first\<close>: execute, return an error without
  committing when \<open>reject\<close> gives one, else commit and then convert the result.
  \<open>txn_convert_first\<close>: execute, convert, then commit.
\<close>

definition txn_commit_first ::
  "('d, 't) pqxx \<Rightarrow> string \<Rightarrow> param list \<Rightarrow> (pg_result \<Rightarrow> Error option) \<Rightarrow> (pg_result \<Rightarrow> db_exn + 'a) \<Rightarrow>
   conn \<Rightarrow> 'd \<Rightarrow> (db_exn + 'a Result) \<times> 'd" where
  "txn_commit_first pq sql ps reject conv c d =
     (case work pq c d of
        Inl x \<Rightarrow> (Inl x, d)
      | Inr t \<Rightarrow>
     (case exec_sql pq sql ps t of
        Inl x \<Rightarrow> (Inl x, d)
      | Inr (res, t') \<Rightarrow>
     (case reject res of
        Some e \<Rightarrow> (Inr (Inl e), d)
      | None \<Rightarrow>
     (case commit pq t' d of
        (d', Inl x) \<Rightarrow> (Inl x, d')
      | (d', Inr _) \<Rightarrow> (map_sum id Inr (conv res), d')))))"

definition txn_convert_first ::
  "('d, 't) pqxx \<Rightarrow> string \<Rightarrow> param list \<Rightarrow> (pg_result \<Rightarrow> db_exn + 'a) \<Rightarrow>
   conn \<Rightarrow> 'd \<Rightarrow> (db_exn + 'a Result) \<times> 'd" where
  "txn_convert_first pq sql ps conv c d =
     (case work pq c d of
        Inl x \<Rightarrow> (Inl x, d)
      | Inr t \<Rightarrow>
     (case exec_sql pq sql ps t of
        Inl x \<Rightarrow> (Inl x, d)
      | Inr (res, t') \<Rightarrow>
     (case conv res of
        Inl x \<Rightarrow> (Inl x, d)
      | Inr y \<Rightarrow>
     (case commit pq t' d of
        (d', Inl x) \<Rightarrow> (Inl x, d')
      | (d', Inr _) \<Rightarrow> (Inr (Inr y), d')))))"

fun sum_list_map :: "('a \<Rightarrow> 'e + 'b) \<Rightarrow> 'a list \<Rightarrow> 'e + 'b list" where
  "sum_list_map f [] = Inr []"
| "sum_list_map f (x # xs) = sum_bind (f x) (\<lambda>y. sum_bind (sum_list_map f xs) (\<lambda>ys. Inr (y # ys)))"

lemma sum_list_map_Inr:
  "(\<And>x. x \<in> set xs \<Longrightarrow> f x = Inr (g x)) \<Longrightarrow> sum_list_map f xs = Inr (map g xs)"
  by (induction xs) auto

lemma sum_list_map_rows:
  "(\<And>x. x \<in> set xs \<Longrightarrow> f (g x) = Inr (h x)) \<Longrightarrow> sum_list_map f (map g xs) = Inr (map h xs)"
  by (induction xs) auto

section \<open>One session\<close>

record 'd Backend =
  bk_pool :: ConnectionPool
  bk_db :: 'd

definition catch_exn :: "(string \<Rightarrow> Error) \<Rightarrow> (string \<Rightarrow> Error) \<Rightarrow> db_exn + 'a Result \<Rightarrow> 'a Result" where
  "catch_exn on_sql on_std r =
     (case r of
        Inl (Sql_error w) \<Rightarrow> Inl (on_sql w)
      | Inl (Std_exception w) \<Rightarrow> Inl (on_std w)
      | Inr x \<Rightarrow> x)"

lemma catch_exn_simps [simp]:
  "catch_exn f g (Inr x) = x" "catch_exn f g (Inl (Sql_error w)) = Inl (f w)"
  "catch_exn f g (Inl (Std_exception w)) = Inl (g w)"
  by (simp_all add: catch_exn_def)

definition with_session ::
  "('d, 't) pqxx \<Rightarrow> (string \<Rightarrow> Error) \<Rightarrow> (string \<Rightarrow> Error) \<Rightarrow>
   (conn \<Rightarrow> 'd \<Rightarrow> (db_exn + 'a Result) \<times> 'd) \<Rightarrow> ('d Backend, 'a Result) op" where
  "with_session pq on_sql on_std body s =
     (case acquire (conn_open pq (bk_db s)) (conn_attempt pq (bk_db s)) (bk_pool s) of
        None \<Rightarrow> None
      | Some (Inl e, p) \<Rightarrow>
          Some (Inl (database (''Failed to acquire connection: '' @ err_message e)), s\<lparr>bk_pool := p\<rparr>)
      | Some (Inr c, p) \<Rightarrow>
          (case body c (bk_db s) of
             (r, d) \<Rightarrow> Some (catch_exn on_sql on_std r,
               s\<lparr>bk_pool := snd (pc_release (conn_open pq d) (pc_new c) p), bk_db := d\<rparr>)))"

section \<open>What a session does\<close>

lemma txn_commit_first_db:
  assumes "txn_commit_first pq sql ps reject conv c d = (r, d')"
  shows "d' = d \<or> (\<exists>t res t'. work pq c d = Inr t \<and> exec_sql pq sql ps t = Inr (res, t') \<and> reject res = None \<and>
    d' = fst (commit pq t' d))"
  using assms by (auto simp: txn_commit_first_def split: sum.splits prod.splits option.splits)

lemma txn_convert_first_db:
  assumes "txn_convert_first pq sql ps conv c d = (r, d')"
  shows "d' = d \<or> (\<exists>t res t' y. work pq c d = Inr t \<and> exec_sql pq sql ps t = Inr (res, t') \<and> conv res = Inr y \<and>
    d' = fst (commit pq t' d))"
  using assms by (auto simp: txn_convert_first_def split: sum.splits prod.splits)

text \<open>A pool that can serve: consistent, running, with a connection queued.\<close>

definition pool_ready :: "ConnectionPool \<Rightarrow> bool" where
  "pool_ready p \<longleftrightarrow> pool_inv p \<and> \<not> m_shutdown p \<and> m_pool p \<noteq> []"

lemma with_session_open:
  assumes "pool_ready (bk_pool s)" and "m_pool (bk_pool s) = c # cs" and "conn_open pq (bk_db s) c"
    and "body c (bk_db s) = (r, d)"
  shows "with_session pq f g body s = Some (catch_exn f g r,
    s\<lparr>bk_pool := (if conn_open pq d c then (bk_pool s)\<lparr>m_pool := cs @ [c]\<rparr>
        else (bk_pool s)\<lparr>m_pool := cs, m_available := m_available (bk_pool s) - 1\<rparr>), bk_db := d\<rparr>)"
proof -
  have "0 < m_available (bk_pool s)" and inv: "pool_inv (bk_pool s)" and "\<not> m_shutdown (bk_pool s)"
    using assms(1,2) by (auto simp: pool_ready_def pool_inv_def)
  then show ?thesis
    using assms by (simp add: with_session_def acquire_def acquire_locked_simps acquire_check_def
      pc_release_def pc_new_def pool_release_def)
qed

lemma pool_ready_rotate:
  "pool_ready p \<Longrightarrow> m_pool p = c # cs \<Longrightarrow> pool_ready (p\<lparr>m_pool := cs @ [c]\<rparr>)"
  by (simp add: pool_ready_def pool_inv_def)

text \<open>With a ready pool and reachable connections a session ends with both still so.\<close>

lemma with_session_ready:
  assumes "pool_ready (bk_pool s)" and "\<And>c. conn_open pq (bk_db s) c" and "\<And>c. conn_open pq d c"
    and "\<And>c. body c (bk_db s) = (r, d)"
  shows "\<exists>s'. with_session pq f g body s = Some (catch_exn f g r, s') \<and> pool_ready (bk_pool s') \<and> bk_db s' = d"
proof -
  obtain c cs where c: "m_pool (bk_pool s) = c # cs" using assms(1) by (cases "m_pool (bk_pool s)") (auto simp: pool_ready_def)
  show ?thesis
    using with_session_open[of s c cs pq body r d f g] assms c pool_ready_rotate[OF assms(1) c] by simp
qed

lemma with_session_some:
  assumes "pool_ready (bk_pool s)" and "\<And>c. conn_open pq (bk_db s) c"
    and "\<And>c. \<exists>r d. body c (bk_db s) = (r, d) \<and> Q r d \<and> (\<forall>c. conn_open pq d c)"
  shows "\<exists>r s'. with_session pq f g body s = Some (catch_exn f g r, s') \<and> pool_ready (bk_pool s') \<and> Q r (bk_db s')"
proof -
  obtain c cs where c: "m_pool (bk_pool s) = c # cs" using assms(1) by (cases "m_pool (bk_pool s)") (auto simp: pool_ready_def)
  obtain r d where d: "body c (bk_db s) = (r, d)" "Q r d" "\<forall>c. conn_open pq d c" using assms(3) by blast
  show ?thesis
    using with_session_open[of s c cs pq body r d f g] assms(1,2) c d pool_ready_rotate[OF assms(1) c] by auto
qed

end
