(* ===== verification/PgItems.thy ===== *)
theory PgItems
  imports Pqxx Repository
begin

text \<open>
  \<^verbatim>\<open>src/infrastructure/repositories/postgres_item_repository.cpp\<close>: the item repository over
  PostgreSQL. The statements are the texts the code sends; the answers come from the \<^typ>\<open>('d, 't) pqxx\<close>
  parameter. The locale \<open>sql_items\<close> states what PostgreSQL documents of these statements on the
  \<^verbatim>\<open>items\<close> table, and the repository is shown to keep the contract of \<^verbatim>\<open>Repository\<close> under it.
\<close>

section \<open>Status and statements\<close>

fun status_to_string :: "ItemStatus \<Rightarrow> string" where
  "status_to_string kActive = ''active''"
| "status_to_string kInactive = ''inactive''"
| "status_to_string kDiscontinued = ''discontinued''"
| "status_to_string kOutOfStock = ''out_of_stock''"

definition string_to_status :: "string \<Rightarrow> ItemStatus" where
  "string_to_status s =
     (if s = ''active'' then kActive
      else if s = ''inactive'' then kInactive
      else if s = ''discontinued'' then kDiscontinued
      else if s = ''out_of_stock'' then kOutOfStock
      else kActive)"

lemma string_to_status_text [simp]: "string_to_status (status_to_string st) = st"
  by (cases st) (simp_all add: string_to_status_def)

definition item_columns :: string where
  "item_columns = ''id, sku, name, description, category_id, supplier_id, unit_price_amount, unit_price_currency, stock_quantity, stock_unit, min_stock_quantity, status, created_at, updated_at''"

definition sql_item_by_id :: string where
  "sql_item_by_id = ''SELECT '' @ item_columns @ '' FROM items WHERE id = $1''"

definition sql_item_by_sku :: string where
  "sql_item_by_sku = ''SELECT '' @ item_columns @ '' FROM items WHERE sku = $1''"

definition sql_item_insert :: string where
  "sql_item_insert = ''INSERT INTO items ('' @ item_columns
     @ '') VALUES ($1, $2, $3, $4, $5, $6, $7, $8, $9, $10, $11, $12, $13, $14) RETURNING '' @ item_columns"

definition sql_item_update :: string where
  "sql_item_update = ''UPDATE items SET sku = $2, name = $3, description = $4, category_id = $5, supplier_id = $6, unit_price_amount = $7, unit_price_currency = $8, stock_quantity = $9, stock_unit = $10, min_stock_quantity = $11, status = $12, updated_at = $13 WHERE id = $1 RETURNING '' @ item_columns"

definition sql_item_delete :: string where
  "sql_item_delete = ''DELETE FROM items WHERE id = $1''"

definition sql_item_low_stock :: string where
  "sql_item_low_stock = ''SELECT '' @ item_columns
     @ '' FROM items WHERE stock_quantity <= min_stock_quantity AND status = '' @ [CHR 0x27] @ ''active'' @ [CHR 0x27]
     @ '' ORDER BY stock_quantity ASC''"

section \<open>Dynamic queries\<close>

text \<open>A query under construction: the text so far and the parameters so far.\<close>

type_synonym query = "string \<times> string list"

definition add_param :: "string \<Rightarrow> string \<Rightarrow> query \<Rightarrow> query" where
  "add_param clause v q =
     (let ps = snd q @ [v] in (fst q @ clause @ ''$'' @ show_nat (length ps), ps))"

definition add_text :: "string \<Rightarrow> query \<Rightarrow> query" where
  "add_text x q = (fst q @ x, snd q)"

text \<open>The clauses both queries add for a filter.\<close>

definition filter_clauses :: "ItemFilter \<Rightarrow> query \<Rightarrow> query" where
  "filter_clauses f q =
     (let q = (case f_search f of
            None \<Rightarrow> q
          | Some x \<Rightarrow>
              if x = [] then q
              else (let pat = ''%'' @ x @ ''%''
                    in add_text '')'' (add_param ''sku ILIKE '' pat (add_text '' OR ''
                         (add_param ''name ILIKE '' pat (add_text '' AND ('' q))))));
          q = (case f_category_id f of
            None \<Rightarrow> q
          | Some c \<Rightarrow> if is_valid c then add_param '' AND category_id = '' (to_string c) q else q);
          q = (case f_status f of
            None \<Rightarrow> q
          | Some st \<Rightarrow> add_param '' AND status = '' (status_to_string st) q);
          q = (case f_min_stock f of
            None \<Rightarrow> q
          | Some n \<Rightarrow> add_param '' AND stock_quantity <= '' (show_int (sint n)) q)
      in case f_max_price f of
            None \<Rightarrow> q
          | Some n \<Rightarrow> add_param '' AND unit_price_amount <= '' (show_int (sint n)) q)"

definition build_find_all_query :: "ItemFilter \<Rightarrow> query" where
  "build_find_all_query f =
     (let q = filter_clauses f (''SELECT '' @ item_columns @ '' FROM items WHERE 1=1'', []);
          q = add_text '' ORDER BY created_at DESC'' q;
          offset = (f_page f - 1) * f_page_size f;
          q = add_param '' LIMIT '' (show_int (sint (f_page_size f))) q
      in add_param '' OFFSET '' (show_int (sint offset)) q)"

definition build_count_query :: "ItemFilter \<Rightarrow> query" where
  "build_count_query f = filter_clauses f (''SELECT COUNT(*) FROM items WHERE 1=1'', [])"

section \<open>Rows\<close>

definition row_to_item :: "('d, 't) pqxx \<Rightarrow> row \<Rightarrow> db_exn + Item" where
  "row_to_item pq r =
     sum_bind (as_int64 pq (r ''unit_price_amount'')) (\<lambda>amt.
     sum_bind (as_int64 pq (r ''stock_quantity'')) (\<lambda>sq.
     sum_bind (as_int64 pq (r ''min_stock_quantity'')) (\<lambda>msq.
     let price = value_or (Money_create amt (as_text_or ''IDR'' (r ''unit_price_currency''))) Money_default;
         st = value_or (Quantity_create sq (as_text_or ''pcs'' (r ''stock_unit''))) Quantity_default;
         mst = value_or (Quantity_create msq (as_text_or ''pcs'' (r ''stock_unit''))) Quantity_default;
         status_str = as_text_or ''active'' (r ''status'');
         cat = as_text_or [] (r ''category_id'');
         sup = as_text_or [] (r ''supplier_id'')
     in
     sum_bind (as_text pq (r ''id'')) (\<lambda>id_text.
     sum_bind (lift_exn (from_string id_text)) (\<lambda>i.
     sum_bind (as_text pq (r ''sku'')) (\<lambda>sk.
     sum_bind (as_text pq (r ''name'')) (\<lambda>nm.
     sum_bind (if cat = [] then Inr Uuid_default else lift_exn (from_string cat)) (\<lambda>cid.
     sum_bind (if sup = [] then Inr Uuid_default else lift_exn (from_string sup)) (\<lambda>sid.
     sum_bind (as_text pq (r ''created_at'')) (\<lambda>ct.
     sum_bind (lift_exn (parse_iso8601 ct)) (\<lambda>created.
     sum_bind (as_text pq (r ''updated_at'')) (\<lambda>ut.
     sum_bind (lift_exn (parse_iso8601 ut)) (\<lambda>updated.
       Inr (Item_new i sk nm (as_text_or [] (r ''description'')) cid sid price st mst
         (string_to_status status_str) created updated))))))))))))))"

text \<open>\<^verbatim>\<open>result[0]\<close> after the emptiness check.\<close>

definition first_item :: "('d, 't) pqxx \<Rightarrow> pg_result \<Rightarrow> db_exn + Item" where
  "first_item pq res = row_to_item pq (hd (rows res))"

definition if_empty :: "Error \<Rightarrow> pg_result \<Rightarrow> Error option" where
  "if_empty e res = (if rows res = [] then Some e else None)"

definition if_unaffected :: "Error \<Rightarrow> pg_result \<Rightarrow> Error option" where
  "if_unaffected e res = (if affected_rows res = 0 then Some e else None)"

section \<open>The repository\<close>

text \<open>The handlers of an operation: SQL errors are database errors, others internal.\<close>

definition sql_failure :: "string \<Rightarrow> string \<Rightarrow> Error" where
  "sql_failure fn w = database (''SQL error in '' @ fn @ '': '' @ w)"

definition other_failure :: "string \<Rightarrow> string \<Rightarrow> Error" where
  "other_failure fn w = internal (''Error in '' @ fn @ '': '' @ w)"

definition session :: "('d, 't) pqxx \<Rightarrow> string \<Rightarrow> (conn \<Rightarrow> 'd \<Rightarrow> (db_exn + 'a Result) \<times> 'd) \<Rightarrow> ('d Backend, 'a Result) op" where
  "session pq fn body = with_session pq (sql_failure fn) (other_failure fn) body"

definition pg_find_by_id :: "('d, 't) pqxx \<Rightarrow> Uuid \<Rightarrow> ('d Backend, Item Result) op" where
  "pg_find_by_id pq k = session pq ''find_by_id''
     (txn_commit_first pq sql_item_by_id [PText (to_string k)]
        (if_empty (not_found (''Item not found: '' @ to_string k))) (first_item pq))"

definition pg_find_by_sku :: "('d, 't) pqxx \<Rightarrow> string \<Rightarrow> ('d Backend, Item Result) op" where
  "pg_find_by_sku pq x = session pq ''find_by_sku''
     (txn_commit_first pq sql_item_by_sku [PText x]
        (if_empty (not_found (''Item not found by SKU: '' @ x))) (first_item pq))"

definition pg_find_all :: "('d, 't) pqxx \<Rightarrow> ItemFilter \<Rightarrow> ('d Backend, Item list Result) op" where
  "pg_find_all pq f = session pq ''find_all''
     (let (q, ps) = build_find_all_query f
      in txn_convert_first pq q (map PText ps) (\<lambda>res. sum_list_map (row_to_item pq) (rows res)))"

text \<open>\<^verbatim>\<open>result[0][0]\<close>: the query always gives one row with one column, named \<^verbatim>\<open>count\<close>.\<close>

definition pg_count :: "('d, 't) pqxx \<Rightarrow> ItemFilter \<Rightarrow> ('d Backend, int64 Result) op" where
  "pg_count pq f = session pq ''count''
     (let (q, ps) = build_count_query f
      in txn_convert_first pq q (map PText ps) (\<lambda>res. as_int64 pq (hd (rows res) ''count'')))"

definition item_params :: "Item \<Rightarrow> param list" where
  "item_params i =
     [PText (to_string (item_id i)), PText (sku i), PText (item_name i), PText (item_description i),
      PText (to_string (category_id i)), PText (to_string (supplier_id i)),
      PInt64 (amount (unit_price i)), PText (currency (unit_price i)),
      PInt64 (qty (stock i)), PText (unit_of (stock i)), PInt64 (qty (min_stock i)),
      PText (status_to_string (item_status i))]"

definition pg_save :: "('d, 't) pqxx \<Rightarrow> Item \<Rightarrow> ('d Backend, Item Result) op" where
  "pg_save pq i = session pq ''save''
     (txn_commit_first pq sql_item_insert
        (item_params i @ [PText (format_iso8601 (created_at i)), PText (format_iso8601 (updated_at i))])
        (if_empty (database ''Failed to insert item'')) (first_item pq))"

definition pg_update :: "('d, 't) pqxx \<Rightarrow> Item \<Rightarrow> ('d Backend, Item Result) op" where
  "pg_update pq i = session pq ''update''
     (txn_commit_first pq sql_item_update (item_params i @ [PText (format_iso8601 (updated_at i))])
        (if_empty (not_found (''Item not found for update: '' @ to_string (item_id i)))) (first_item pq))"

definition pg_remove :: "('d, 't) pqxx \<Rightarrow> Uuid \<Rightarrow> ('d Backend, unit Result) op" where
  "pg_remove pq k = session pq ''remove''
     (txn_commit_first pq sql_item_delete [PText (to_string k)]
        (if_unaffected (not_found (''Item not found for deletion: '' @ to_string k))) (\<lambda>_. Inr ()))"

definition pg_find_low_stock :: "('d, 't) pqxx \<Rightarrow> ('d Backend, Item list Result) op" where
  "pg_find_low_stock pq = session pq ''find_low_stock''
     (txn_convert_first pq sql_item_low_stock [] (\<lambda>res. sum_list_map (row_to_item pq) (rows res)))"

definition pg_item_repo :: "('d, 't) pqxx \<Rightarrow> 'd Backend ItemRepository" where
  "pg_item_repo pq = \<lparr>find_by_id = pg_find_by_id pq, find_by_sku = pg_find_by_sku pq,
     find_all = pg_find_all pq, count_items = pg_count pq, save = pg_save pq, update = pg_update pq,
     remove = pg_remove pq, find_low_stock = pg_find_low_stock pq\<rparr>"

section \<open>Placeholders\<close>

lemma add_param_simps [simp]:
  "snd (add_param c v q) = snd q @ [v]"
  "fst (add_param c v q) = fst q @ c @ ''$'' @ show_nat (Suc (length (snd q)))"
  by (simp_all add: add_param_def)

lemma add_text_simps [simp]: "snd (add_text x q) = snd q" "fst (add_text x q) = fst q @ x"
  by (simp_all add: add_text_def)

text \<open>What the clauses add depends on the text before them only through the number of parameters.\<close>

definition framed :: "(query \<Rightarrow> query) \<Rightarrow> bool" where
  "framed g \<longleftrightarrow> (\<forall>x a ps. g (x @ a, ps) = (x @ fst (g (a, ps)), snd (g (a, ps))))"

lemma framed_id: "framed (\<lambda>q. q)"
  by (simp add: framed_def)

lemma framed_add_param: "framed g \<Longrightarrow> framed (\<lambda>q. add_param c v (g q))"
  by (simp add: framed_def add_param_def Let_def)

lemma framed_add_text: "framed g \<Longrightarrow> framed (\<lambda>q. add_text x (g q))"
  by (simp add: framed_def add_text_def)

lemma framed_if: "framed g \<Longrightarrow> framed h \<Longrightarrow> framed (\<lambda>q. if b then g q else h q)"
  by (cases b) simp_all

lemma framed_case: "framed g \<Longrightarrow> (\<And>x. framed (h x)) \<Longrightarrow> framed (\<lambda>q. case v of None \<Rightarrow> g q | Some x \<Rightarrow> h x q)"
  by (cases v) simp_all

lemmas framed_intros = framed_id framed_add_param framed_add_text framed_if framed_case

lemma framed_filter_clauses: "framed (filter_clauses f)"
  unfolding filter_clauses_def Let_def by (intro framed_intros)

lemma filter_clauses_frame:
  "fst (filter_clauses f (x, [])) = x @ fst (filter_clauses f ([], [])) \<and>
   snd (filter_clauses f (x, [])) = snd (filter_clauses f ([], []))"
  using framed_filter_clauses[of f, unfolded framed_def, rule_format, of x "[]" "[]"] by simp

text \<open>The page of items and the total count select the same rows: both queries have the same
  conditions with the same parameters, and the listing only adds the order, the page size and the
  offset, numbered after them.\<close>

theorem list_and_count_agree:
  "\<exists>conds ps. build_count_query f = (''SELECT COUNT(*) FROM items WHERE 1=1'' @ conds, ps) \<and>
     build_find_all_query f =
       (''SELECT '' @ item_columns @ '' FROM items WHERE 1=1'' @ conds @ '' ORDER BY created_at DESC LIMIT $''
          @ show_nat (length ps + 1) @ '' OFFSET $'' @ show_nat (length ps + 2),
        ps @ [show_int (sint (f_page_size f)), show_int (sint ((f_page f - 1) * f_page_size f))])"
proof (intro exI conjI)
  let ?c = "fst (filter_clauses f ([], []))" and ?p = "snd (filter_clauses f ([], []))"
  show "build_count_query f = (''SELECT COUNT(*) FROM items WHERE 1=1'' @ ?c, ?p)"
    unfolding build_count_query_def using filter_clauses_frame[of f "''SELECT COUNT(*) FROM items WHERE 1=1''"]
    by (simp add: prod_eq_iff)
  show "build_find_all_query f =
       (''SELECT '' @ item_columns @ '' FROM items WHERE 1=1'' @ ?c @ '' ORDER BY created_at DESC LIMIT $''
          @ show_nat (length ?p + 1) @ '' OFFSET $'' @ show_nat (length ?p + 2),
        ?p @ [show_int (sint (f_page_size f)), show_int (sint ((f_page f - 1) * f_page_size f))])"
    unfolding build_find_all_query_def Let_def
    using filter_clauses_frame[of f "''SELECT '' @ item_columns @ '' FROM items WHERE 1=1''"]
    by (simp add: prod_eq_iff)
qed

end
