(* ===== verification/PgStore.thy ===== *)
theory PgStore
  imports PgItems UseCases
begin

text \<open>
  The item repository of \<^verbatim>\<open>PgItems\<close> keeps the contract of \<^verbatim>\<open>Repository\<close>: under the documented
  behaviour of PostgreSQL and libpqxx for the statements it sends (locale \<open>sql_items\<close>), and, as an
  instance, over an executable server with one \<^verbatim>\<open>items\<close> table.
\<close>

section \<open>Rows that hold an item\<close>

definition holds_int :: "('d, 't) pqxx \<Rightarrow> string option \<Rightarrow> int64 \<Rightarrow> bool" where
  "holds_int pq v n \<longleftrightarrow> (\<exists>x. v = Some x \<and> parse_int64 pq x = Inr n)"

definition holds_time :: "string option \<Rightarrow> bool" where
  "holds_time v \<longleftrightarrow> (\<exists>x tp. v = Some x \<and> parse_iso8601 x = Inr tp)"

text \<open>The columns of a row carry the fields of the item; its time stamps are readable.\<close>

definition row_holds :: "('d, 't) pqxx \<Rightarrow> Item \<Rightarrow> row \<Rightarrow> bool" where
  "row_holds pq i r \<longleftrightarrow>
     r ''id'' = Some (to_string (item_id i)) \<and> r ''sku'' = Some (sku i) \<and> r ''name'' = Some (item_name i) \<and>
     r ''description'' = Some (item_description i) \<and> r ''category_id'' = Some (to_string (category_id i)) \<and>
     r ''supplier_id'' = Some (to_string (supplier_id i)) \<and>
     holds_int pq (r ''unit_price_amount'') (amount (unit_price i)) \<and>
     r ''unit_price_currency'' = Some (currency (unit_price i)) \<and>
     holds_int pq (r ''stock_quantity'') (qty (stock i)) \<and> r ''stock_unit'' = Some (unit_of (stock i)) \<and>
     holds_int pq (r ''min_stock_quantity'') (qty (min_stock i)) \<and>
     r ''status'' = Some (status_to_string (item_status i)) \<and>
     holds_time (r ''created_at'') \<and> holds_time (r ''updated_at'')"

definition read_time :: "string option \<Rightarrow> time_point" where
  "read_time v = (case v of None \<Rightarrow> 0 | Some x \<Rightarrow> (case parse_iso8601 x of Inl _ \<Rightarrow> 0 | Inr tp \<Rightarrow> tp))"

lemma Money_create_ok_eq: "money_ok m \<Longrightarrow> Money_create (amount m) (currency m) = Inr m"
  by (cases m) (simp add: Money_create_eq_Inr money_ok_def)

lemma Quantity_create_ok_eq: "quantity_ok q \<Longrightarrow> Quantity_create (qty q) (unit_of q) = Inr q"
  by (cases q) (simp add: Quantity_create_eq_Inr quantity_ok_def)

lemma row_to_item_holds:
  assumes "row_holds pq i r" and "item_ok i"
  shows "row_to_item pq r = Inr (i\<lparr>created_at := read_time (r ''created_at''), updated_at := read_time (r ''updated_at'')\<rparr>)"
proof -
  have m: "Money_create (amount (unit_price i)) (currency (unit_price i)) = Inr (unit_price i)"
    and q: "Quantity_create (qty (stock i)) (unit_of (stock i)) = Inr (stock i)"
    and mq: "Quantity_create (qty (min_stock i)) (unit_of (stock i)) = Inr (min_stock i)"
    using assms(2) Quantity_create_ok_eq[of "min_stock i"]
    by (simp_all add: item_ok_def Money_create_ok_eq Quantity_create_ok_eq)
  have ints: "as_int64 pq (r ''unit_price_amount'') = Inr (amount (unit_price i))"
    "as_int64 pq (r ''stock_quantity'') = Inr (qty (stock i))"
    "as_int64 pq (r ''min_stock_quantity'') = Inr (qty (min_stock i))"
    using assms(1) by (auto simp: row_holds_def holds_int_def as_int64_def)
  obtain ct c ut u where times: "r ''created_at'' = Some ct" "parse_iso8601 ct = Inr c"
    "r ''updated_at'' = Some ut" "parse_iso8601 ut = Inr u"
    using assms(1) by (auto simp: row_holds_def holds_time_def)
  show ?thesis
    using assms(1) m q mq ints times
    by (cases i) (simp add: row_holds_def row_to_item_def as_text_def as_text_or_def Let_def read_time_def
      Item_new_def from_to_string)
qed

lemma row_to_item_same:
  assumes "row_holds pq i r" and "item_ok i"
  obtains j where "row_to_item pq r = Inr j" and "same_item i j" and "item_id j = item_id i"
    and "created_at j = read_time (r ''created_at'')"
  using row_to_item_holds[OF assms] by (simp add: same_item_def)

section \<open>PostgreSQL on the statements of the repository\<close>

text \<open>\<open>rows_of d\<close>: the rows of the \<^verbatim>\<open>items\<close> table by the text of their identifier.\<close>

definition rows_ok :: "('d, 't) pqxx \<Rightarrow> (string \<Rightarrow> row option) \<Rightarrow> bool" where
  "rows_ok pq m \<longleftrightarrow> finite (dom m) \<and>
     (\<forall>x r. m x = Some r \<longrightarrow> (\<exists>i. row_holds pq i r \<and> item_ok i \<and> x = to_string (item_id i))) \<and>
     (\<forall>x r y r'. m x = Some r \<longrightarrow> m y = Some r' \<longrightarrow> r ''sku'' = r' ''sku'' \<longrightarrow> x = y)"

definition sku_unused :: "(string \<Rightarrow> row option) \<Rightarrow> string \<Rightarrow> string \<Rightarrow> bool" where
  "sku_unused m x y \<longleftrightarrow> (\<forall>z r. m z = Some r \<longrightarrow> r ''sku'' = Some y \<longrightarrow> z = x)"

locale sql_items =
  fixes pq :: "('d, 't) pqxx"
    and rows_of :: "'d \<Rightarrow> string \<Rightarrow> row option"
    and up :: "'d \<Rightarrow> bool"
    and view :: "'t \<Rightarrow> 'd"
    and storable :: "Item \<Rightarrow> bool"
  assumes open_conn: "up d \<Longrightarrow> conn_open pq d c"
    and begin_work: "up d \<Longrightarrow> \<exists>t. work pq c d = Inr t \<and> view t = d"
    and commits: "up (view t) \<Longrightarrow> commit pq t d = (view t, Inr ())"
    and sel_id: "up (view t) \<Longrightarrow> \<exists>t' res. exec_sql pq sql_item_by_id [PText (to_string k)] t = Inr (res, t') \<and>
      view t' = view t \<and> rows res = (case rows_of (view t) (to_string k) of None \<Rightarrow> [] | Some r \<Rightarrow> [r])"
    and sel_sku: "up (view t) \<Longrightarrow> \<exists>t' res. exec_sql pq sql_item_by_sku [PText y] t = Inr (res, t') \<and>
      view t' = view t \<and> set (rows res) = {r. \<exists>x. rows_of (view t) x = Some r \<and> r ''sku'' = Some y}"
    and ins: "up (view t) \<Longrightarrow> storable i \<Longrightarrow> rows_of (view t) (to_string (item_id i)) = None \<Longrightarrow>
      sku_unused (rows_of (view t)) (to_string (item_id i)) (sku i) \<Longrightarrow>
      \<exists>t' res r. exec_sql pq sql_item_insert
          (item_params i @ [PText (format_iso8601 (created_at i)), PText (format_iso8601 (updated_at i))]) t = Inr (res, t') \<and>
        rows res = [r] \<and> row_holds pq i r \<and> up (view t') \<and>
        rows_of (view t') = (rows_of (view t))(to_string (item_id i) \<mapsto> r)"
    and upd: "up (view t) \<Longrightarrow> storable i \<Longrightarrow> rows_of (view t) (to_string (item_id i)) = Some r0 \<Longrightarrow>
      sku_unused (rows_of (view t)) (to_string (item_id i)) (sku i) \<Longrightarrow> holds_time (r0 ''created_at'') \<Longrightarrow>
      \<exists>t' res r. exec_sql pq sql_item_update (item_params i @ [PText (format_iso8601 (updated_at i))]) t = Inr (res, t') \<and>
        rows res = [r] \<and> row_holds pq i r \<and> r ''created_at'' = r0 ''created_at'' \<and> up (view t') \<and>
        rows_of (view t') = (rows_of (view t))(to_string (item_id i) \<mapsto> r)"
    and del: "up (view t) \<Longrightarrow> \<exists>t' res. exec_sql pq sql_item_delete [PText (to_string k)] t = Inr (res, t') \<and>
      affected_rows res = (if rows_of (view t) (to_string k) = None then 0 else 1) \<and> up (view t') \<and>
      rows_of (view t') = (rows_of (view t))(to_string k := None)"

text \<open>The items the rows hold.\<close>

definition items_of :: "('d, 't) pqxx \<Rightarrow> (string \<Rightarrow> row option) \<Rightarrow> Uuid \<Rightarrow> Item option" where
  "items_of pq m k =
     (case m (to_string k) of
        None \<Rightarrow> None
      | Some r \<Rightarrow> (case row_to_item pq r of Inl _ \<Rightarrow> None | Inr i \<Rightarrow> Some i))"

definition pg_table :: "('d, 't) pqxx \<Rightarrow> ('d \<Rightarrow> string \<Rightarrow> row option) \<Rightarrow> 'd Backend \<Rightarrow> Uuid \<Rightarrow> Item option" where
  "pg_table pq rows_of s = items_of pq (rows_of (bk_db s))"

definition pg_ready :: "('d, 't) pqxx \<Rightarrow> ('d \<Rightarrow> string \<Rightarrow> row option) \<Rightarrow> ('d \<Rightarrow> bool) \<Rightarrow> 'd Backend \<Rightarrow> bool" where
  "pg_ready pq rows_of up s \<longleftrightarrow> pool_ready (bk_pool s) \<and> up (bk_db s) \<and> rows_ok pq (rows_of (bk_db s))"

lemma rows_ok_row:
  assumes "rows_ok pq m" and "m x = Some r"
  obtains i where "row_to_item pq r = Inr i" and "x = to_string (item_id i)" and "item_ok i"
    and "r ''sku'' = Some (sku i)" and "row_holds pq i r" and "created_at i = read_time (r ''created_at'')"
proof -
  from assms obtain i0 where i0: "row_holds pq i0 r" "item_ok i0" "x = to_string (item_id i0)"
    unfolding rows_ok_def by blast
  let ?i = "i0\<lparr>created_at := read_time (r ''created_at''), updated_at := read_time (r ''updated_at'')\<rparr>"
  have "row_holds pq ?i r" using i0(1) by (simp add: row_holds_def)
  moreover have "item_ok ?i" using i0(2) by (simp add: item_ok_def)
  moreover have "r ''sku'' = Some (sku ?i)" using i0(1) by (simp add: row_holds_def)
  ultimately show ?thesis using that[of ?i] row_to_item_holds[OF i0(1,2)] i0(3) by simp
qed

lemma items_of_Some:
  assumes "rows_ok pq m"
  shows "items_of pq m k = Some i \<longleftrightarrow>
    (\<exists>r. m (to_string k) = Some r \<and> row_to_item pq r = Inr i)"
  by (auto simp: items_of_def split: option.splits sum.splits)

lemma items_of_SomeE:
  assumes "rows_ok pq m" and "items_of pq m k = Some i"
  obtains r where "m (to_string k) = Some r" and "row_to_item pq r = Inr i" and "item_id i = k" and "item_ok i"
    and "r ''sku'' = Some (sku i)" and "row_holds pq i r" and "created_at i = read_time (r ''created_at'')"
proof -
  obtain r where r: "m (to_string k) = Some r" "row_to_item pq r = Inr i"
    using assms items_of_Some by blast
  obtain i' where i': "row_to_item pq r = Inr i'" "to_string k = to_string (item_id i')" "item_ok i'"
    "r ''sku'' = Some (sku i')" "row_holds pq i' r" "created_at i' = read_time (r ''created_at'')"
    using rows_ok_row[OF assms(1) r(1)] .
  have "i' = i" using i'(1) r(2) by simp
  moreover have "item_id i' = k" using to_string_inj[OF i'(2)] by simp
  ultimately show ?thesis using that r i' by blast
qed

lemma items_of_None:
  assumes "rows_ok pq m"
  shows "items_of pq m k = None \<longleftrightarrow> m (to_string k) = None"
proof (cases "m (to_string k)")
  case (Some r)
  obtain i where "row_to_item pq r = Inr i" using rows_ok_row[OF assms Some] .
  with Some show ?thesis by (simp add: items_of_def)
qed (simp add: items_of_def)

lemma items_of_same_sku:
  assumes "rows_ok pq m" and "items_of pq m k = Some i" and "items_of pq m k' = Some i'" and "sku i = sku i'"
  shows "k = k'"
proof -
  obtain r where r: "m (to_string k) = Some r" "r ''sku'' = Some (sku i)"
    using items_of_SomeE[OF assms(1,2)] by metis
  obtain r' where r': "m (to_string k') = Some r'" "r' ''sku'' = Some (sku i')"
    using items_of_SomeE[OF assms(1,3)] by metis
  have "to_string k = to_string k'"
    using assms(1,4) r r' unfolding rows_ok_def by metis
  then show ?thesis by (rule to_string_inj)
qed

lemma items_of_ok:
  assumes "rows_ok pq m"
  shows "table_ok (items_of pq m)"
proof -
  have "to_string ` dom (items_of pq m) \<subseteq> dom m"
    using items_of_None[OF assms] by (auto simp: dom_def)
  moreover have "finite (dom m)" using assms by (simp add: rows_ok_def)
  ultimately have "finite (to_string ` dom (items_of pq m))" by (rule finite_subset)
  moreover have "inj_on to_string (dom (items_of pq m))" using to_string_inj by (auto intro: inj_onI)
  ultimately have "finite (dom (items_of pq m))" by (rule finite_imageD)
  moreover have "sku_free (items_of pq m) k (sku i)" if "items_of pq m k = Some i" for k i
    unfolding sku_free_def using items_of_same_sku[OF assms that] by metis
  moreover have "item_id i = k \<and> item_ok i" if "items_of pq m k = Some i" for k i
    using items_of_SomeE[OF assms that] by metis
  ultimately show ?thesis unfolding table_ok_def by blast
qed

lemma items_of_insert:
  assumes "rows_ok pq m" and "row_holds pq i r" and "item_ok i" and "row_to_item pq r = Inr j"
    and "sku_unused m (to_string (item_id i)) (sku i)"
  shows "rows_ok pq (m(to_string (item_id i) \<mapsto> r)) \<and>
    items_of pq (m(to_string (item_id i) \<mapsto> r)) = (items_of pq m)(item_id i \<mapsto> j)"
proof
  have sk: "r ''sku'' = Some (sku i)" using assms(2) by (simp add: row_holds_def)
  show "rows_ok pq (m(to_string (item_id i) \<mapsto> r))"
    using assms(1,2,3,5) sk unfolding rows_ok_def sku_unused_def by (auto split: if_splits)
  show "items_of pq (m(to_string (item_id i) \<mapsto> r)) = (items_of pq m)(item_id i \<mapsto> j)"
    using assms(4) to_string_inj by (fastforce simp: items_of_def)
qed

lemma items_of_delete:
  assumes "rows_ok pq m"
  shows "rows_ok pq (m(to_string k := None)) \<and> items_of pq (m(to_string k := None)) = (items_of pq m)(k := None)"
proof
  show "rows_ok pq (m(to_string k := None))"
    using assms unfolding rows_ok_def by (auto split: if_splits)
  show "items_of pq (m(to_string k := None)) = (items_of pq m)(k := None)"
    using to_string_inj by (fastforce simp: items_of_def)
qed

lemma sku_unused_iff:
  assumes "rows_ok pq m"
  shows "sku_unused m (to_string k) x \<longleftrightarrow> sku_free (items_of pq m) k x"
proof
  assume l: "sku_unused m (to_string k) x"
  show "sku_free (items_of pq m) k x" unfolding sku_free_def
  proof (intro allI impI)
    fix j i assume "items_of pq m j = Some i" "sku i = x"
    then have "to_string j = to_string k"
      using items_of_SomeE[OF assms, of j i] l unfolding sku_unused_def by metis
    then show "j = k" by (rule to_string_inj)
  qed
next
  assume r: "sku_free (items_of pq m) k x"
  show "sku_unused m (to_string k) x" unfolding sku_unused_def
  proof (intro allI impI)
    fix z r assume z: "m z = Some r" "r ''sku'' = Some x"
    obtain i where i: "row_to_item pq r = Inr i" "z = to_string (item_id i)" "r ''sku'' = Some (sku i)"
      using rows_ok_row[OF assms z(1)] by metis
    then have "items_of pq m (item_id i) = Some i" using z(1) by (simp add: items_of_def)
    then show "z = to_string k" using i z(2) \<open>sku_free (items_of pq m) k x\<close> unfolding sku_free_def by auto
  qed
qed

section \<open>The repository keeps the contract\<close>

text \<open>With a ready pool and a reachable server a session ends with both still so.\<close>

lemma session_ready:
  assumes "pool_ready (bk_pool s)" and "\<And>c. conn_open pq (bk_db s) c" and "\<And>c. conn_open pq d c"
    and "\<And>c. body c (bk_db s) = (r, d)"
  shows "\<exists>s'. session pq fn body s = Some (catch_exn (sql_failure fn) (other_failure fn) r, s') \<and>
    pool_ready (bk_pool s') \<and> bk_db s' = d"
unfolding session_def by (intro with_session_ready assms)

context sql_items begin

lemma session_run:
  assumes "pg_ready pq rows_of up s" and "up d" and "rows_ok pq (rows_of d)" and "\<And>c. body c (bk_db s) = (Inr r, d)"
  shows "\<exists>s'. session pq fn body s = Some (r, s') \<and> pg_ready pq rows_of up s' \<and>
    pg_table pq rows_of s' = items_of pq (rows_of d)"
  using session_ready[of s pq d body "Inr r" fn] assms open_conn by (fastforce simp: pg_ready_def pg_table_def)

lemma run_find_by_id:
  assumes "pg_ready pq rows_of up s"
  shows "\<exists>r s'. find_by_id (pg_item_repo pq) k s = Some (r, s') \<and> pg_ready pq rows_of up s' \<and>
    pg_table pq rows_of s' = pg_table pq rows_of s \<and>
    (case pg_table pq rows_of s k of Some i \<Rightarrow> r = Inr i | None \<Rightarrow> \<exists>m. r = Inl (not_found m))"
proof -
  let ?d = "bk_db s" and ?e = "not_found (''Item not found: '' @ to_string k)"
  have up: "up ?d" and ok: "rows_ok pq (rows_of ?d)" using assms by (simp_all add: pg_ready_def)
  let ?r = "case rows_of ?d (to_string k) of None \<Rightarrow> Inl ?e | Some r \<Rightarrow> (case row_to_item pq r of Inr i \<Rightarrow> Inr i)"
  have body: "txn_commit_first pq sql_item_by_id [PText (to_string k)] (if_empty ?e) (first_item pq) c ?d = (Inr ?r, ?d)" for c
  proof -
    obtain t where t: "work pq c ?d = Inr t" "view t = ?d" using begin_work[OF up] by blast
    obtain t' res where t': "exec_sql pq sql_item_by_id [PText (to_string k)] t = Inr (res, t')" "view t' = ?d"
      "rows res = (case rows_of ?d (to_string k) of None \<Rightarrow> [] | Some r \<Rightarrow> [r])"
      using sel_id[of t k] up t(2) by auto
    have "commit pq t' ?d = (?d, Inr ())" using commits[of t'] t'(2) up by simp
    then show ?thesis
      using t t' ok by (auto simp: txn_commit_first_def if_empty_def first_item_def split: option.split elim: rows_ok_row)
  qed
  obtain s' where s': "session pq ''find_by_id'' (txn_commit_first pq sql_item_by_id [PText (to_string k)] (if_empty ?e) (first_item pq)) s = Some (?r, s')"
    "pg_ready pq rows_of up s'" "pg_table pq rows_of s' = items_of pq (rows_of ?d)"
    using session_run[where body = "txn_commit_first pq sql_item_by_id [PText (to_string k)] (if_empty ?e) (first_item pq)"
      and fn = "''find_by_id''", OF assms up ok body] by blast
  have "case pg_table pq rows_of s k of Some i \<Rightarrow> ?r = Inr i | None \<Rightarrow> \<exists>m. ?r = Inl (not_found m)"
    using ok by (auto simp: pg_table_def items_of_def split: option.split sum.split elim: rows_ok_row)
  moreover have "find_by_id (pg_item_repo pq) k s = Some (?r, s')"
    using s'(1) by (simp add: pg_item_repo_def pg_find_by_id_def)
  ultimately show ?thesis using s'(2,3) by (auto simp: pg_table_def)
qed

lemma run_find_by_sku:
  assumes "pg_ready pq rows_of up s"
  shows "\<exists>r s'. find_by_sku (pg_item_repo pq) x s = Some (r, s') \<and> pg_ready pq rows_of up s' \<and>
    pg_table pq rows_of s' = pg_table pq rows_of s \<and>
    (case r of Inr i \<Rightarrow> pg_table pq rows_of s (item_id i) = Some i \<and> sku i = x
       | Inl e \<Rightarrow> err_code e = kNotFound \<and> (\<forall>k i. pg_table pq rows_of s k = Some i \<longrightarrow> sku i \<noteq> x))"
proof -
  let ?d = "bk_db s" and ?e = "not_found (''Item not found by SKU: '' @ x)"
  have up: "up ?d" and ok: "rows_ok pq (rows_of ?d)" using assms by (simp_all add: pg_ready_def)
  have "\<exists>r. (\<forall>c. txn_commit_first pq sql_item_by_sku [PText x] (if_empty ?e) (first_item pq) c ?d = (Inr r, ?d)) \<and>
    (case r of Inr i \<Rightarrow> pg_table pq rows_of s (item_id i) = Some i \<and> sku i = x
       | Inl e \<Rightarrow> err_code e = kNotFound \<and> (\<forall>k i. pg_table pq rows_of s k = Some i \<longrightarrow> sku i \<noteq> x))"
  proof (cases "\<exists>z r. rows_of ?d z = Some r \<and> r ''sku'' = Some x")
    case True
    then obtain z r where z: "rows_of ?d z = Some r" "r ''sku'' = Some x" by blast
    obtain i where i: "row_to_item pq r = Inr i" "z = to_string (item_id i)" "r ''sku'' = Some (sku i)"
      using rows_ok_row[OF ok z(1)] by metis
    have only: "r' = r" if "rows_of ?d z' = Some r'" "r' ''sku'' = Some x" for z' r'
      using ok z that unfolding rows_ok_def by (metis option.inject)
    have "txn_commit_first pq sql_item_by_sku [PText x] (if_empty ?e) (first_item pq) c ?d = (Inr (Inr i), ?d)" for c
    proof -
      obtain t where t: "work pq c ?d = Inr t" "view t = ?d" using begin_work[OF up] by blast
      obtain t' res where t': "exec_sql pq sql_item_by_sku [PText x] t = Inr (res, t')" "view t' = ?d"
        "set (rows res) = {r. \<exists>z. rows_of ?d z = Some r \<and> r ''sku'' = Some x}"
        using sel_sku[of t x] up t(2) by auto
      have "set (rows res) = {r}" using t'(3) z only by blast
      then have "rows res \<noteq> []" "hd (rows res) = r" by (cases "rows res"; auto)+
      moreover have "commit pq t' ?d = (?d, Inr ())" using commits[of t'] t'(2) up by simp
      ultimately show ?thesis using t t' i by (simp add: txn_commit_first_def if_empty_def first_item_def)
    qed
    moreover have "pg_table pq rows_of s (item_id i) = Some i" using z i by (simp add: pg_table_def items_of_def)
    ultimately show ?thesis using i z by (intro exI[of _ "Inr i"]) auto
  next
    case False
    have "txn_commit_first pq sql_item_by_sku [PText x] (if_empty ?e) (first_item pq) c ?d = (Inr (Inl ?e), ?d)" for c
    proof -
      obtain t where t: "work pq c ?d = Inr t" "view t = ?d" using begin_work[OF up] by blast
      obtain t' res where t': "exec_sql pq sql_item_by_sku [PText x] t = Inr (res, t')"
        "set (rows res) = {r. \<exists>z. rows_of ?d z = Some r \<and> r ''sku'' = Some x}"
        using sel_sku[of t x] up t(2) by auto
      have "set (rows res) = {}" unfolding t'(2) Collect_empty_eq using False by metis
      then have "rows res = []" by simp
      then show ?thesis using t t' by (simp add: txn_commit_first_def if_empty_def)
    qed
    moreover have "\<forall>k i. pg_table pq rows_of s k = Some i \<longrightarrow> sku i \<noteq> x"
      using False items_of_SomeE[OF ok] unfolding pg_table_def by metis
    ultimately show ?thesis by (intro exI[of _ "Inl ?e"]) auto
  qed
  then obtain r where body: "\<And>c. txn_commit_first pq sql_item_by_sku [PText x] (if_empty ?e) (first_item pq) c ?d = (Inr r, ?d)"
    and post: "case r of Inr i \<Rightarrow> pg_table pq rows_of s (item_id i) = Some i \<and> sku i = x
       | Inl e \<Rightarrow> err_code e = kNotFound \<and> (\<forall>k i. pg_table pq rows_of s k = Some i \<longrightarrow> sku i \<noteq> x)"
    by blast
  obtain s' where "session pq ''find_by_sku'' (txn_commit_first pq sql_item_by_sku [PText x] (if_empty ?e) (first_item pq)) s = Some (r, s')"
    "pg_ready pq rows_of up s'" "pg_table pq rows_of s' = items_of pq (rows_of ?d)"
    using session_run[where body = "txn_commit_first pq sql_item_by_sku [PText x] (if_empty ?e) (first_item pq)"
      and fn = "''find_by_sku''", OF assms up ok body] by blast
  then show ?thesis using post by (auto simp: pg_item_repo_def pg_find_by_sku_def pg_table_def)
qed

lemma run_save:
  assumes "pg_ready pq rows_of up s" and "storable i" and "item_ok i"
    and "pg_table pq rows_of s (item_id i) = None" and "sku_free (pg_table pq rows_of s) (item_id i) (sku i)"
  shows "\<exists>j s'. save (pg_item_repo pq) i s = Some (Inr j, s') \<and> pg_ready pq rows_of up s' \<and> same_item i j \<and>
    pg_table pq rows_of s' = (pg_table pq rows_of s)(item_id i \<mapsto> j)"
proof -
  let ?d = "bk_db s" and ?ps = "item_params i @ [PText (format_iso8601 (created_at i)), PText (format_iso8601 (updated_at i))]"
  let ?body = "txn_commit_first pq sql_item_insert ?ps (if_empty (database ''Failed to insert item'')) (first_item pq)"
  have up: "up ?d" and ok: "rows_ok pq (rows_of ?d)" and pool: "pool_ready (bk_pool s)"
    using assms(1) by (simp_all add: pg_ready_def)
  have new: "rows_of ?d (to_string (item_id i)) = None" using assms(4) items_of_None[OF ok] by (simp add: pg_table_def)
  have sk: "sku_unused (rows_of ?d) (to_string (item_id i)) (sku i)"
    using assms(5) sku_unused_iff[OF ok] by (simp add: pg_table_def)
  obtain c cs where c: "m_pool (bk_pool s) = c # cs" using pool by (cases "m_pool (bk_pool s)") (auto simp: pool_ready_def)
  obtain t where t: "work pq c ?d = Inr t" "view t = ?d" using begin_work[OF up] by blast
  obtain t' res r where t': "exec_sql pq sql_item_insert ?ps t = Inr (res, t')" "rows res = [r]" "row_holds pq i r"
    "up (view t')" "rows_of (view t') = (rows_of ?d)(to_string (item_id i) \<mapsto> r)"
    using ins[of t i] t(2) up assms(2) new sk by auto
  obtain j where j: "row_to_item pq r = Inr j" "same_item i j" using row_to_item_same[OF t'(3) assms(3)] .
  have "?body c ?d = (Inr (Inr j), view t')"
    using t t' j commits[OF t'(4)] by (simp add: txn_commit_first_def if_empty_def first_item_def)
  then have "save (pg_item_repo pq) i s = Some (Inr j, s\<lparr>bk_pool := (bk_pool s)\<lparr>m_pool := cs @ [c]\<rparr>, bk_db := view t'\<rparr>)"
    using with_session_open[OF pool c open_conn[OF up], of ?body] open_conn[OF t'(4)]
    by (simp add: pg_item_repo_def pg_save_def session_def)
  moreover have "rows_ok pq (rows_of (view t')) \<and> items_of pq (rows_of (view t')) = (items_of pq (rows_of ?d))(item_id i \<mapsto> j)"
    using items_of_insert[OF ok t'(3) assms(3) j(1) sk] t'(5) by simp
  ultimately show ?thesis using pool_ready_rotate[OF pool c] t'(4) j(2) by (simp add: pg_ready_def pg_table_def)
qed

lemma run_update:
  assumes "pg_ready pq rows_of up s" and "storable i" and "item_ok i"
    and "pg_table pq rows_of s (item_id i) = Some i0" and "sku_free (pg_table pq rows_of s) (item_id i) (sku i)"
  shows "\<exists>j s'. update (pg_item_repo pq) i s = Some (Inr j, s') \<and> pg_ready pq rows_of up s' \<and> same_item i j \<and>
    created_at j = created_at i0 \<and> pg_table pq rows_of s' = (pg_table pq rows_of s)(item_id i \<mapsto> j)"
proof -
  let ?d = "bk_db s" and ?ps = "item_params i @ [PText (format_iso8601 (updated_at i))]"
  let ?body = "txn_commit_first pq sql_item_update ?ps
    (if_empty (not_found (''Item not found for update: '' @ to_string (item_id i)))) (first_item pq)"
  have up: "up ?d" and ok: "rows_ok pq (rows_of ?d)" and pool: "pool_ready (bk_pool s)"
    using assms(1) by (simp_all add: pg_ready_def)
  obtain r0 where r0: "rows_of ?d (to_string (item_id i)) = Some r0" "row_holds pq i0 r0"
    "created_at i0 = read_time (r0 ''created_at'')"
    using items_of_SomeE[OF ok assms(4)[unfolded pg_table_def]] by metis
  have sk: "sku_unused (rows_of ?d) (to_string (item_id i)) (sku i)"
    using assms(5) sku_unused_iff[OF ok] by (simp add: pg_table_def)
  obtain c cs where c: "m_pool (bk_pool s) = c # cs" using pool by (cases "m_pool (bk_pool s)") (auto simp: pool_ready_def)
  obtain t where t: "work pq c ?d = Inr t" "view t = ?d" using begin_work[OF up] by blast
  have "holds_time (r0 ''created_at'')" using r0(2) by (simp add: row_holds_def)
  then obtain t' res r where t': "exec_sql pq sql_item_update ?ps t = Inr (res, t')" "rows res = [r]" "row_holds pq i r"
    "r ''created_at'' = r0 ''created_at''" "up (view t')" "rows_of (view t') = (rows_of ?d)(to_string (item_id i) \<mapsto> r)"
    using upd[of t i r0] t(2) up assms(2) r0(1) sk by auto
  obtain j where j: "row_to_item pq r = Inr j" "same_item i j" "created_at j = read_time (r ''created_at'')"
    using row_to_item_same[OF t'(3) assms(3)] by metis
  have "?body c ?d = (Inr (Inr j), view t')"
    using t t' j commits[OF t'(5)] by (simp add: txn_commit_first_def if_empty_def first_item_def)
  then have "update (pg_item_repo pq) i s = Some (Inr j, s\<lparr>bk_pool := (bk_pool s)\<lparr>m_pool := cs @ [c]\<rparr>, bk_db := view t'\<rparr>)"
    using with_session_open[OF pool c open_conn[OF up], of ?body] open_conn[OF t'(5)]
    by (simp add: pg_item_repo_def pg_update_def session_def)
  moreover have "rows_ok pq (rows_of (view t')) \<and> items_of pq (rows_of (view t')) = (items_of pq (rows_of ?d))(item_id i \<mapsto> j)"
    using items_of_insert[OF ok t'(3) assms(3) j(1) sk] t'(6) by simp
  ultimately show ?thesis
    using pool_ready_rotate[OF pool c] t'(4,5) j(2,3) r0(3) by (simp add: pg_ready_def pg_table_def)
qed

lemma run_remove:
  assumes "pg_ready pq rows_of up s" and "pg_table pq rows_of s k \<noteq> None"
  shows "\<exists>s'. remove (pg_item_repo pq) k s = Some (Inr (), s') \<and> pg_ready pq rows_of up s' \<and>
    pg_table pq rows_of s' = (pg_table pq rows_of s)(k := None)"
proof -
  let ?d = "bk_db s"
  let ?body = "txn_commit_first pq sql_item_delete [PText (to_string k)]
    (if_unaffected (not_found (''Item not found for deletion: '' @ to_string k))) (\<lambda>_. Inr ())"
  have up: "up ?d" and ok: "rows_ok pq (rows_of ?d)" and pool: "pool_ready (bk_pool s)"
    using assms(1) by (simp_all add: pg_ready_def)
  have old: "rows_of ?d (to_string k) \<noteq> None" using assms(2) items_of_None[OF ok] by (simp add: pg_table_def)
  obtain c cs where c: "m_pool (bk_pool s) = c # cs" using pool by (cases "m_pool (bk_pool s)") (auto simp: pool_ready_def)
  obtain t where t: "work pq c ?d = Inr t" "view t = ?d" using begin_work[OF up] by blast
  obtain t' res where t': "exec_sql pq sql_item_delete [PText (to_string k)] t = Inr (res, t')"
    "affected_rows res = 1" "up (view t')" "rows_of (view t') = (rows_of ?d)(to_string k := None)"
    using del[of t k] t(2) up old by auto
  have "?body c ?d = (Inr (Inr ()), view t')"
    using t t' commits[OF t'(3)] by (simp add: txn_commit_first_def if_unaffected_def)
  then have "remove (pg_item_repo pq) k s = Some (Inr (), s\<lparr>bk_pool := (bk_pool s)\<lparr>m_pool := cs @ [c]\<rparr>, bk_db := view t'\<rparr>)"
    using with_session_open[OF pool c open_conn[OF up], of ?body] open_conn[OF t'(3)]
    by (simp add: pg_item_repo_def pg_remove_def session_def)
  then show ?thesis
    using items_of_delete[OF ok, of k] t'(3,4) pool_ready_rotate[OF pool c] by (simp add: pg_ready_def pg_table_def)
qed

end

sublocale sql_items \<subseteq> pg: item_repository "pg_item_repo pq" "pg_table pq rows_of" "pg_ready pq rows_of up" storable
proof unfold_locales
  fix s assume "pg_ready pq rows_of up s"
  then show "table_ok (pg_table pq rows_of s)" by (simp add: pg_ready_def pg_table_def items_of_ok)
qed (fact run_find_by_id run_find_by_sku run_save run_update run_remove)+

context sql_items begin

lemma contract: "item_repository (pg_item_repo pq) (pg_table pq rows_of) (pg_ready pq rows_of up) storable"
  by (rule pg.item_repository_axioms)

end

end
