(* ===== verification/Listing.thy ===== *)
theory Listing
  imports PgStore
begin

text \<open>
  Listing items: what \<^verbatim>\<open>build_find_all_query\<close> and \<^verbatim>\<open>build_count_query\<close> of
  \<^verbatim>\<open>postgres_item_repository.cpp\<close> ask for, as conditions on rows, and what \<^verbatim>\<open>find_all\<close>, \<^verbatim>\<open>count\<close> and
  the use case of \<^verbatim>\<open>list_items_use_case.cpp\<close> answer. The locale \<open>sql_listing\<close> states what PostgreSQL
  documents of such queries, \<open>listing_repository\<close> what the use case relies on.
\<close>

section \<open>The conditions of a filter\<close>

datatype cond = Search string | Category Uuid | Status ItemStatus | Stock_at_most int64 | Price_at_most int64

fun cond_params :: "cond \<Rightarrow> string list" where
  "cond_params (Search p) = [p, p]"
| "cond_params (Category c) = [to_string c]"
| "cond_params (Status st) = [status_to_string st]"
| "cond_params (Stock_at_most n) = [show_int (sint n)]"
| "cond_params (Price_at_most n) = [show_int (sint n)]"

text \<open>The text of a condition after \<open>n\<close> parameters.\<close>

fun cond_text :: "nat \<Rightarrow> cond \<Rightarrow> string" where
  "cond_text n (Search p) = '' AND (name ILIKE $'' @ show_nat (Suc n) @ '' OR sku ILIKE $'' @ show_nat (Suc (Suc n)) @ '')''"
| "cond_text n (Category c) = '' AND category_id = $'' @ show_nat (Suc n)"
| "cond_text n (Status st) = '' AND status = $'' @ show_nat (Suc n)"
| "cond_text n (Stock_at_most k) = '' AND stock_quantity <= $'' @ show_nat (Suc n)"
| "cond_text n (Price_at_most k) = '' AND unit_price_amount <= $'' @ show_nat (Suc n)"

definition conds_params :: "cond list \<Rightarrow> string list" where
  "conds_params cs = concat (map cond_params cs)"

fun conds_text :: "nat \<Rightarrow> cond list \<Rightarrow> string" where
  "conds_text n [] = []"
| "conds_text n (c # cs) = cond_text n c @ conds_text (n + length (cond_params c)) cs"

definition page_head :: string where
  "page_head = ''SELECT '' @ item_columns @ '' FROM items WHERE 1=1''"

definition page_tail :: "nat \<Rightarrow> string" where
  "page_tail n = '' ORDER BY created_at DESC LIMIT $'' @ show_nat (Suc n) @ '' OFFSET $'' @ show_nat (Suc (Suc n))"

definition count_head :: string where
  "count_head = ''SELECT COUNT(*) FROM items WHERE 1=1''"

definition page_sql :: "cond list \<Rightarrow> string" where
  "page_sql cs = page_head @ conds_text 0 cs @ page_tail (length (conds_params cs))"

definition count_sql :: "cond list \<Rightarrow> string" where
  "count_sql cs = count_head @ conds_text 0 cs"

definition opt_cond :: "('a \<Rightarrow> cond) \<Rightarrow> 'a option \<Rightarrow> cond list" where
  "opt_cond g v = (case v of None \<Rightarrow> [] | Some x \<Rightarrow> [g x])"

definition filter_conds :: "ItemFilter \<Rightarrow> cond list" where
  "filter_conds f =
     (case f_search f of None \<Rightarrow> [] | Some x \<Rightarrow> if x = [] then [] else [Search (''%'' @ x @ ''%'')]) @
     (case f_category_id f of None \<Rightarrow> [] | Some c \<Rightarrow> if is_valid c then [Category c] else []) @
     opt_cond Status (f_status f) @ opt_cond Stock_at_most (f_min_stock f) @ opt_cond Price_at_most (f_max_price f)"

text \<open>A query and the conditions that have been added to it.\<close>

definition add_conds :: "cond list \<Rightarrow> query \<Rightarrow> query" where
  "add_conds cs q = (fst q @ conds_text (length (snd q)) cs, snd q @ conds_params cs)"

lemma conds_params_simps [simp]:
  "conds_params [] = []" "conds_params (c # cs) = cond_params c @ conds_params cs"
  by (simp_all add: conds_params_def)

lemma conds_append:
  "conds_text n (cs @ ds) = conds_text n cs @ conds_text (n + length (conds_params cs)) ds"
  "conds_params (cs @ ds) = conds_params cs @ conds_params ds"
  by (induction cs arbitrary: n) (simp_all add: add.assoc)

lemma add_conds_append: "add_conds (cs @ ds) q = add_conds ds (add_conds cs q)"
  by (simp add: add_conds_def conds_append)

lemma add_conds_Nil [simp]: "add_conds [] q = q"
  by (simp add: add_conds_def)

lemma add_conds_opt: "add_conds (opt_cond g v) q = (case v of None \<Rightarrow> q | Some x \<Rightarrow> add_conds [g x] q)"
  by (cases v) (simp_all add: opt_cond_def)

lemma add_conds_one:
  "add_conds [Search p] q = add_text '')'' (add_param ''sku ILIKE '' p (add_text '' OR ''
     (add_param ''name ILIKE '' p (add_text '' AND ('' q))))"
  "add_conds [Category c] q = add_param '' AND category_id = '' (to_string c) q"
  "add_conds [Status st] q = add_param '' AND status = '' (status_to_string st) q"
  "add_conds [Stock_at_most n] q = add_param '' AND stock_quantity <= '' (show_int (sint n)) q"
  "add_conds [Price_at_most n] q = add_param '' AND unit_price_amount <= '' (show_int (sint n)) q"
  by (simp_all add: add_conds_def prod_eq_iff)

lemma filter_clauses_conds: "filter_clauses f q = add_conds (filter_conds f) q"
  unfolding filter_clauses_def filter_conds_def add_conds_append add_conds_opt add_conds_one Let_def
  by (cases "f_search f"; cases "f_category_id f") (simp_all add: add_conds_one cong: option.case_cong)

lemma count_query_conds: "build_count_query f = (count_sql (filter_conds f), conds_params (filter_conds f))"
  by (simp add: build_count_query_def filter_clauses_conds add_conds_def count_sql_def count_head_def)

lemma page_query_conds:
  "build_find_all_query f = (page_sql (filter_conds f), conds_params (filter_conds f) @
     [show_int (sint (f_page_size f)), show_int (sint ((f_page f - 1) * f_page_size f))])"
  by (simp add: build_find_all_query_def filter_clauses_conds add_conds_def page_sql_def page_head_def page_tail_def
      Let_def prod_eq_iff)

section \<open>What the conditions select\<close>

text \<open>\<open>rd\<close> reads the text of a number, \<open>ilike x p\<close> matches the text \<open>x\<close> with the pattern \<open>p\<close>.\<close>

definition cell_at_most :: "(string \<Rightarrow> db_exn + int64) \<Rightarrow> string option \<Rightarrow> int64 \<Rightarrow> bool" where
  "cell_at_most rd v n = (case v of None \<Rightarrow> False | Some x \<Rightarrow> (case rd x of Inl _ \<Rightarrow> False | Inr m \<Rightarrow> m \<le>s n))"

definition cell_like :: "(string \<Rightarrow> string \<Rightarrow> bool) \<Rightarrow> string option \<Rightarrow> string \<Rightarrow> bool" where
  "cell_like ilike v p = (case v of None \<Rightarrow> False | Some x \<Rightarrow> ilike x p)"

fun cond_holds :: "(string \<Rightarrow> db_exn + int64) \<Rightarrow> (string \<Rightarrow> string \<Rightarrow> bool) \<Rightarrow> row \<Rightarrow> cond \<Rightarrow> bool" where
  "cond_holds rd ilike r (Search p) = (cell_like ilike (r ''name'') p \<or> cell_like ilike (r ''sku'') p)"
| "cond_holds rd ilike r (Category c) = (r ''category_id'' = Some (to_string c))"
| "cond_holds rd ilike r (Status st) = (r ''status'' = Some (status_to_string st))"
| "cond_holds rd ilike r (Stock_at_most n) = cell_at_most rd (r ''stock_quantity'') n"
| "cond_holds rd ilike r (Price_at_most n) = cell_at_most rd (r ''unit_price_amount'') n"

text \<open>The items a filter selects. A pattern is searched in the name and the stock keeping unit; the field
  \<^verbatim>\<open>min_stock\<close> is an upper bound of the stock.\<close>

definition item_matches :: "(string \<Rightarrow> string \<Rightarrow> bool) \<Rightarrow> ItemFilter \<Rightarrow> Item \<Rightarrow> bool" where
  "item_matches ilike f i \<longleftrightarrow>
     (case f_search f of None \<Rightarrow> True | Some x \<Rightarrow>
        x = [] \<or> ilike (item_name i) (''%'' @ x @ ''%'') \<or> ilike (sku i) (''%'' @ x @ ''%'')) \<and>
     (case f_category_id f of None \<Rightarrow> True | Some c \<Rightarrow> is_valid c \<longrightarrow> category_id i = c) \<and>
     (case f_status f of None \<Rightarrow> True | Some st \<Rightarrow> item_status i = st) \<and>
     (case f_min_stock f of None \<Rightarrow> True | Some n \<Rightarrow> qty (stock i) \<le>s n) \<and>
     (case f_max_price f of None \<Rightarrow> True | Some n \<Rightarrow> amount (unit_price i) \<le>s n)"

lemma status_to_string_inj [simp]: "status_to_string a = status_to_string b \<longleftrightarrow> a = b"
  using string_to_status_text by metis

lemma to_string_eq_iff [simp]: "to_string a = to_string b \<longleftrightarrow> a = b"
  using to_string_inj by blast

lemma conds_select:
  assumes "row_holds pq i r"
  shows "(\<forall>c \<in> set (filter_conds f). cond_holds (parse_int64 pq) ilike r c) \<longleftrightarrow> item_matches ilike f i"
proof -
  have nums: "cell_at_most (parse_int64 pq) (r ''stock_quantity'') n \<longleftrightarrow> qty (stock i) \<le>s n"
    "cell_at_most (parse_int64 pq) (r ''unit_price_amount'') n \<longleftrightarrow> amount (unit_price i) \<le>s n" for n
    using assms by (auto simp: row_holds_def holds_int_def cell_at_most_def)
  have texts: "r ''name'' = Some (item_name i)" "r ''sku'' = Some (sku i)" "r ''category_id'' = Some (to_string (category_id i))"
    "r ''status'' = Some (status_to_string (item_status i))"
    using assms by (simp_all add: row_holds_def)
  have parts:
    "(\<forall>c \<in> set (case f_search f of None \<Rightarrow> [] | Some x \<Rightarrow> if x = [] then [] else [Search (''%'' @ x @ ''%'')]).
        cond_holds (parse_int64 pq) ilike r c) \<longleftrightarrow> (case f_search f of None \<Rightarrow> True | Some x \<Rightarrow>
        x = [] \<or> ilike (item_name i) (''%'' @ x @ ''%'') \<or> ilike (sku i) (''%'' @ x @ ''%''))"
    "(\<forall>c \<in> set (case f_category_id f of None \<Rightarrow> [] | Some c \<Rightarrow> if is_valid c then [Category c] else []).
        cond_holds (parse_int64 pq) ilike r c) \<longleftrightarrow>
     (case f_category_id f of None \<Rightarrow> True | Some c \<Rightarrow> is_valid c \<longrightarrow> category_id i = c)"
    "(\<forall>c \<in> set (opt_cond Status (f_status f)). cond_holds (parse_int64 pq) ilike r c) \<longleftrightarrow>
     (case f_status f of None \<Rightarrow> True | Some st \<Rightarrow> item_status i = st)"
    "(\<forall>c \<in> set (opt_cond Stock_at_most (f_min_stock f)). cond_holds (parse_int64 pq) ilike r c) \<longleftrightarrow>
     (case f_min_stock f of None \<Rightarrow> True | Some n \<Rightarrow> qty (stock i) \<le>s n)"
    "(\<forall>c \<in> set (opt_cond Price_at_most (f_max_price f)). cond_holds (parse_int64 pq) ilike r c) \<longleftrightarrow>
     (case f_max_price f of None \<Rightarrow> True | Some n \<Rightarrow> amount (unit_price i) \<le>s n)"
    by (cases "f_search f"; cases "the (f_search f) = []"; simp add: cell_like_def texts)
      (simp_all add: opt_cond_def texts nums split: option.split)
  show ?thesis unfolding filter_conds_def item_matches_def set_append ball_Un parts ..
qed

section \<open>PostgreSQL on these queries\<close>

text \<open>\<open>xs\<close> are the keys of the rows that satisfy the conditions, those created last first.\<close>

definition selects_rows ::
  "('d, 't) pqxx \<Rightarrow> (string \<Rightarrow> string \<Rightarrow> bool) \<Rightarrow> (string option \<Rightarrow> int) \<Rightarrow> (string \<Rightarrow> row option) \<Rightarrow> cond list \<Rightarrow>
   string list \<Rightarrow> bool" where
  "selects_rows pq ilike stamp m cs xs \<longleftrightarrow> distinct xs \<and>
     set xs = {x. \<exists>r. m x = Some r \<and> (\<forall>c \<in> set cs. cond_holds (parse_int64 pq) ilike r c)} \<and>
     sorted_wrt (\<lambda>x y. stamp (the (m y) ''created_at'') \<le> stamp (the (m x) ''created_at'')) xs"

definition readable :: "(string \<Rightarrow> bool) \<Rightarrow> cond list \<Rightarrow> bool" where
  "readable text_ok cs \<longleftrightarrow> (\<forall>p. Search p \<in> set cs \<longrightarrow> text_ok p)"

definition in_bigint :: "int \<Rightarrow> bool" where
  "in_bigint n \<longleftrightarrow> - (2 ^ 63) \<le> n \<and> n < 2 ^ 63"

text \<open>
  \<open>ilike\<close> is the match of the operator \<^verbatim>\<open>ILIKE\<close> in the database's locale, \<open>stamp\<close> the time a column
  holds, \<open>text_ok\<close> the texts that are valid in the database's encoding. A negative limit or offset is an
  error of PostgreSQL.
\<close>

locale sql_listing = sql_items pq rows_of up view storable
  for pq :: "('d, 't) pqxx" and rows_of :: "'d \<Rightarrow> string \<Rightarrow> row option" and up :: "'d \<Rightarrow> bool"
    and view :: "'t \<Rightarrow> 'd" and storable :: "Item \<Rightarrow> bool" +
  fixes ilike :: "string \<Rightarrow> string \<Rightarrow> bool" and stamp :: "string option \<Rightarrow> int" and text_ok :: "string \<Rightarrow> bool"
  assumes sel_page: "up (view t) \<Longrightarrow> readable text_ok cs \<Longrightarrow> in_bigint lm \<Longrightarrow> in_bigint off \<Longrightarrow> 0 \<le> lm \<Longrightarrow> 0 \<le> off \<Longrightarrow>
      \<exists>t' res xs. exec_sql pq (page_sql cs) (map PText (conds_params cs @ [show_int lm, show_int off])) t = Inr (res, t') \<and>
        view t' = view t \<and> selects_rows pq ilike stamp (rows_of (view t)) cs xs \<and>
        rows res = map (\<lambda>x. the (rows_of (view t) x)) (take (nat lm) (drop (nat off) xs))"
    and sel_negative: "up (view t) \<Longrightarrow> readable text_ok cs \<Longrightarrow> in_bigint lm \<Longrightarrow> in_bigint off \<Longrightarrow> lm < 0 \<or> off < 0 \<Longrightarrow>
      \<exists>w. exec_sql pq (page_sql cs) (map PText (conds_params cs @ [show_int lm, show_int off])) t = Inl (Sql_error w)"
    and sel_count: "up (view t) \<Longrightarrow> readable text_ok cs \<Longrightarrow> selects_rows pq ilike stamp (rows_of (view t)) cs xs \<Longrightarrow>
      length xs < 2 ^ 63 \<Longrightarrow>
      \<exists>t' res r. exec_sql pq (count_sql cs) (map PText (conds_params cs)) t = Inr (res, t') \<and> view t' = view t \<and>
        rows res = [r] \<and> as_int64 pq (r ''count'') = Inr (of_nat (length xs))"

text \<open>What the repository lists, in terms of items.\<close>

definition pg_born :: "('d \<Rightarrow> string \<Rightarrow> row option) \<Rightarrow> (string option \<Rightarrow> int) \<Rightarrow> 'd Backend \<Rightarrow> Uuid \<Rightarrow> int" where
  "pg_born rows_of stamp s k = stamp (the (rows_of (bk_db s) (to_string k)) ''created_at'')"

definition filter_readable :: "(string \<Rightarrow> bool) \<Rightarrow> ItemFilter \<Rightarrow> bool" where
  "filter_readable text_ok f \<longleftrightarrow> readable text_ok (filter_conds f)"

definition key_of :: "('d, 't) pqxx \<Rightarrow> row \<Rightarrow> Uuid" where
  "key_of pq r = (case row_to_item pq r of Inl _ \<Rightarrow> Uuid_default | Inr i \<Rightarrow> item_id i)"

text \<open>A selection of rows is a selection of items, in the same order.\<close>

lemma keyed_selection:
  assumes ok: "rows_ok pq m" and "distinct xs" and sel: "set xs = {x. \<exists>r. m x = Some r \<and> hold r}"
    and agree: "\<And>i r. row_holds pq i r \<Longrightarrow> hold r \<longleftrightarrow> pick i"
  obtains ks where "xs = map to_string ks" and "distinct ks" and "set ks = {k. \<exists>i. items_of pq m k = Some i \<and> pick i}"
    and "\<forall>k \<in> set ks. row_to_item pq (the (m (to_string k))) = Inr (the (items_of pq m k))"
proof -
  define ks where "ks = map (\<lambda>x. key_of pq (the (m x))) xs"
  have keys: "to_string (key_of pq (the (m x))) = x" if "x \<in> set xs" for x
  proof -
    note x = that
    obtain r where r: "m x = Some r" using sel x by auto
    obtain i where "row_to_item pq r = Inr i" "x = to_string (item_id i)" using rows_ok_row[OF ok r] by metis
    then show ?thesis using r by (simp add: key_of_def)
  qed
  then have xs: "xs = map to_string ks" by (simp add: ks_def map_idI)
  have row: "row_to_item pq (the (m (to_string k))) = Inr (the (items_of pq m k))" if "k \<in> set ks" for k
  proof -
    have "to_string k \<in> set xs" unfolding xs set_map by (rule imageI[OF that])
    then obtain r where r: "m (to_string k) = Some r" using sel by auto
    obtain i where "row_to_item pq r = Inr i" using rows_ok_row[OF ok r] by metis
    then show ?thesis using r by (simp add: items_of_def)
  qed
  have "k \<in> set ks \<longleftrightarrow> (\<exists>i. items_of pq m k = Some i \<and> pick i)" for k
  proof -
    have "to_string k \<in> set (map to_string ks) \<longleftrightarrow> k \<in> set ks"
      unfolding set_map[of to_string] by (intro inj_image_mem_iff injI) simp
    then have "k \<in> set ks \<longleftrightarrow> to_string k \<in> set xs" unfolding xs[symmetric] ..
    also have "\<dots> \<longleftrightarrow> (\<exists>r. m (to_string k) = Some r \<and> hold r)" using sel by simp
    also have "\<dots> \<longleftrightarrow> (\<exists>i. items_of pq m k = Some i \<and> pick i)"
    proof
      assume "\<exists>r. m (to_string k) = Some r \<and> hold r"
      then obtain r where r: "m (to_string k) = Some r" "hold r" by blast
      obtain i where "row_to_item pq r = Inr i" "row_holds pq i r" using rows_ok_row[OF ok r(1)] by metis
      then show "\<exists>i. items_of pq m k = Some i \<and> pick i" using r agree by (auto simp: items_of_def)
    next
      assume "\<exists>i. items_of pq m k = Some i \<and> pick i"
      then show "\<exists>r. m (to_string k) = Some r \<and> hold r" using items_of_SomeE[OF ok] agree by metis
    qed
    finally show ?thesis .
  qed
  then have set: "set ks = {k. \<exists>i. items_of pq m k = Some i \<and> pick i}" by blast
  have "distinct (map to_string ks)" using assms(2) xs by simp
  then have "distinct ks" by (simp add: distinct_map)
  then show ?thesis using that[OF xs] set row by blast
qed

lemma selected_keys:
  assumes ok: "rows_ok pq m" and sel: "selects_rows pq ilike stamp m (filter_conds f) xs"
  obtains ks where "xs = map to_string ks"
    and "listing (items_of pq m) (item_matches ilike f) (\<lambda>k. stamp (the (m (to_string k)) ''created_at'')) ks"
    and "\<forall>k \<in> set ks. row_to_item pq (the (m (to_string k))) = Inr (the (items_of pq m k))"
proof -
  have "distinct xs" "set xs = {x. \<exists>r. m x = Some r \<and> (\<forall>c \<in> set (filter_conds f). cond_holds (parse_int64 pq) ilike r c)}"
    using sel by (simp_all add: selects_rows_def)
  from keyed_selection[where pick = "item_matches ilike f", OF ok this conds_select]
  obtain ks where ks: "xs = map to_string ks" "distinct ks" "set ks = {k. \<exists>i. items_of pq m k = Some i \<and> item_matches ilike f i}"
    "\<forall>k \<in> set ks. row_to_item pq (the (m (to_string k))) = Inr (the (items_of pq m k))" by blast
  have "sorted_wrt (\<lambda>x y. stamp (the (m y) ''created_at'') \<le> stamp (the (m x) ''created_at'')) (map to_string ks)"
    using sel ks(1) by (simp add: selects_rows_def)
  then have "sorted_wrt (\<lambda>k k'. stamp (the (m (to_string k')) ''created_at'') \<le> stamp (the (m (to_string k)) ''created_at'')) ks"
    by (simp only: sorted_wrt_map)
  then show ?thesis using that[OF ks(1) _ ks(4)] ks(2,3) unfolding listing_def by blast
qed

context sql_listing begin

lemma run_find_all:
  assumes ready: "pg_ready pq rows_of up s" and acc: "filter_readable text_ok f" and pos: "\<not> negative_page f"
  shows "\<exists>ks s'. find_all (pg_item_repo pq) f s = Some (Inr (map (the \<circ> pg_table pq rows_of s)
        (take (nat (sint (f_page_size f))) (drop (nat (sint (page_offset f))) ks))), s') \<and>
      pg_ready pq rows_of up s' \<and> pg_table pq rows_of s' = pg_table pq rows_of s \<and>
      listing (pg_table pq rows_of s) (item_matches ilike f) (pg_born rows_of stamp s) ks"
proof -
  let ?d = "bk_db s" and ?cs = "filter_conds f" and ?l = "sint (f_page_size f)" and ?o = "sint (page_offset f)"
  let ?ps = "map PText (conds_params ?cs @ [show_int ?l, show_int ?o])"
  let ?conv = "\<lambda>res. sum_list_map (row_to_item pq) (rows res)"
  have up: "up ?d" and ok: "rows_ok pq (rows_of ?d)" and pool: "pool_ready (bk_pool s)"
    using ready by (simp_all add: pg_ready_def)
  have rd: "readable text_ok ?cs" using acc by (simp add: filter_readable_def)
  have big: "in_bigint ?l" "in_bigint ?o" "0 \<le> ?l" "0 \<le> ?o"
    using pos sint_lt[of "f_page_size f"] sint_lt[of "page_offset f"] by (simp_all add: in_bigint_def negative_page_def)
  define P where "P r d \<longleftrightarrow> d = ?d \<and> (\<exists>ks. listing (pg_table pq rows_of s) (item_matches ilike f) (pg_born rows_of stamp s) ks \<and>
      r = Inr (Inr (map (the \<circ> pg_table pq rows_of s) (take (nat ?l) (drop (nat ?o) ks)))))"
    for r :: "db_exn + Item list Result" and d
  have body: "\<exists>r d. txn_convert_first pq (page_sql ?cs) ?ps ?conv c ?d = (r, d) \<and> P r d \<and> (\<forall>c. conn_open pq d c)" for c
  proof -
    obtain t where t: "work pq c ?d = Inr t" "view t = ?d" using begin_work[OF up] by blast
    obtain t' res xs where t': "exec_sql pq (page_sql ?cs) ?ps t = Inr (res, t')" "view t' = ?d"
      "selects_rows pq ilike stamp (rows_of ?d) ?cs xs"
      "rows res = map (\<lambda>x. the (rows_of ?d x)) (take (nat ?l) (drop (nat ?o) xs))"
      using sel_page[OF _ rd big, of t] t(2) up by auto
    obtain ks where ks: "xs = map to_string ks"
      "listing (pg_table pq rows_of s) (item_matches ilike f) (pg_born rows_of stamp s) ks"
      "\<forall>k \<in> set ks. row_to_item pq (the (rows_of ?d (to_string k))) = Inr (the (pg_table pq rows_of s k))"
      using selected_keys[OF ok t'(3)] unfolding pg_table_def pg_born_def by metis
    have "?conv res = Inr (map (the \<circ> pg_table pq rows_of s) (take (nat ?l) (drop (nat ?o) ks)))"
      unfolding t'(4) ks(1) take_map drop_map map_map
      by (rule sum_list_map_rows) (use ks(3) in \<open>auto dest: in_set_takeD in_set_dropD\<close>)
    then show ?thesis
      using t t' ks(2) commits[of t'] up open_conn by (auto simp: txn_convert_first_def P_def)
  qed
  obtain r s' where r: "with_session pq (sql_failure ''find_all'') (other_failure ''find_all'')
      (txn_convert_first pq (page_sql ?cs) ?ps ?conv) s = Some (catch_exn (sql_failure ''find_all'') (other_failure ''find_all'') r, s')"
    "pool_ready (bk_pool s')" "P r (bk_db s')"
    using with_session_some[where body = "txn_convert_first pq (page_sql ?cs) ?ps ?conv" and Q = P, OF pool open_conn[OF up] body]
    by blast
  then show ?thesis
    using ok up by (auto simp: P_def pg_item_repo_def pg_find_all_def session_def page_query_conds page_offset_def[symmetric]
      pg_ready_def pg_table_def)
qed

lemma run_find_all_negative:
  assumes ready: "pg_ready pq rows_of up s" and acc: "filter_readable text_ok f" and neg: "negative_page f"
  shows "\<exists>m s'. find_all (pg_item_repo pq) f s = Some (Inl (database m), s') \<and>
    pg_ready pq rows_of up s' \<and> pg_table pq rows_of s' = pg_table pq rows_of s"
proof -
  let ?d = "bk_db s" and ?cs = "filter_conds f" and ?l = "sint (f_page_size f)" and ?o = "sint (page_offset f)"
  let ?ps = "map PText (conds_params ?cs @ [show_int ?l, show_int ?o])"
  let ?body = "txn_convert_first pq (page_sql ?cs) ?ps (\<lambda>res. sum_list_map (row_to_item pq) (rows res))"
  have up: "up ?d" and ok: "rows_ok pq (rows_of ?d)" and pool: "pool_ready (bk_pool s)"
    using ready by (simp_all add: pg_ready_def)
  have rd: "readable text_ok ?cs" using acc by (simp add: filter_readable_def)
  have big: "in_bigint ?l" "in_bigint ?o" "?l < 0 \<or> ?o < 0"
    using neg sint_lt[of "f_page_size f"] sint_lt[of "page_offset f"] sint_ge[of "f_page_size f"] sint_ge[of "page_offset f"]
    by (simp_all add: in_bigint_def negative_page_def)
  define P where "P r d \<longleftrightarrow> d = ?d \<and> (\<exists>w. r = Inl (Sql_error w))" for r :: "db_exn + Item list Result" and d
  have body: "\<exists>r d. ?body c ?d = (r, d) \<and> P r d \<and> (\<forall>c. conn_open pq d c)" for c
  proof -
    obtain t where t: "work pq c ?d = Inr t" "view t = ?d" using begin_work[OF up] by blast
    obtain w where "exec_sql pq (page_sql ?cs) ?ps t = Inl (Sql_error w)"
      using sel_negative[OF _ rd big, of t] t(2) up by auto
    then show ?thesis using t up open_conn by (auto simp: txn_convert_first_def P_def)
  qed
  obtain r s' where "with_session pq (sql_failure ''find_all'') (other_failure ''find_all'') ?body s =
      Some (catch_exn (sql_failure ''find_all'') (other_failure ''find_all'') r, s')" "pool_ready (bk_pool s')" "P r (bk_db s')"
    using with_session_some[where body = ?body and Q = P, OF pool open_conn[OF up] body] by blast
  then show ?thesis
    using ok up by (auto simp: P_def pg_item_repo_def pg_find_all_def session_def page_query_conds page_offset_def[symmetric]
      pg_ready_def pg_table_def sql_failure_def)
qed

lemma select_exists:
  assumes "up (view t)" and "readable text_ok cs"
  obtains xs where "selects_rows pq ilike stamp (rows_of (view t)) cs xs"
  using sel_page[OF assms, of 0 0] by (auto simp: in_bigint_def)

lemma run_count:
  assumes ready: "pg_ready pq rows_of up s" and acc: "filter_readable text_ok f"
    and small: "card {k. \<exists>i. pg_table pq rows_of s k = Some i \<and> item_matches ilike f i} < 2 ^ 63"
  shows "\<exists>s'. count_items (pg_item_repo pq) f s =
      Some (Inr (of_nat (card {k. \<exists>i. pg_table pq rows_of s k = Some i \<and> item_matches ilike f i})), s') \<and>
    pg_ready pq rows_of up s' \<and> pg_table pq rows_of s' = pg_table pq rows_of s"
proof -
  let ?d = "bk_db s" and ?cs = "filter_conds f" and ?K = "{k. \<exists>i. pg_table pq rows_of s k = Some i \<and> item_matches ilike f i}"
  let ?body = "txn_convert_first pq (count_sql ?cs) (map PText (conds_params ?cs)) (\<lambda>res. as_int64 pq (hd (rows res) ''count''))"
  have up: "up ?d" and ok: "rows_ok pq (rows_of ?d)" using ready by (simp_all add: pg_ready_def)
  have rd: "readable text_ok ?cs" using acc by (simp add: filter_readable_def)
  have body: "?body c ?d = (Inr (Inr (of_nat (card ?K))), ?d)" for c
  proof -
    obtain t where t: "work pq c ?d = Inr t" "view t = ?d" using begin_work[OF up] by blast
    obtain xs where xs: "selects_rows pq ilike stamp (rows_of ?d) ?cs xs" using select_exists[of t, OF _ rd] t(2) up by auto
    obtain ks where ks: "xs = map to_string ks" "listing (pg_table pq rows_of s) (item_matches ilike f) (pg_born rows_of stamp s) ks"
      using selected_keys[OF ok xs] unfolding pg_table_def pg_born_def by metis
    have len: "length xs = card ?K" using length_listing[OF ks(2)] ks(1) by simp
    obtain t' res r where "exec_sql pq (count_sql ?cs) (map PText (conds_params ?cs)) t = Inr (res, t')" "view t' = ?d"
      "rows res = [r]" "as_int64 pq (r ''count'') = Inr (of_nat (card ?K))"
      using sel_count[of t ?cs xs] t(2) up rd xs small len by auto
    then show ?thesis using t commits[of t'] up by (simp add: txn_convert_first_def)
  qed
  show ?thesis
    using session_run[where body = ?body and fn = "''count''", OF ready up ok body]
    by (auto simp: pg_item_repo_def pg_count_def count_query_conds pg_table_def)
qed

end

sublocale sql_listing \<subseteq> lst: listing_repository "pg_item_repo pq" "pg_table pq rows_of" "pg_ready pq rows_of up" storable
  "item_matches ilike" "pg_born rows_of stamp" "filter_readable text_ok"
  by unfold_locales (fact run_find_all run_find_all_negative run_count)+

context sql_listing begin

lemma listing_contract: "listing_repository (pg_item_repo pq) (pg_table pq rows_of) (pg_ready pq rows_of up) storable
  (item_matches ilike) (pg_born rows_of stamp) (filter_readable text_ok)"
  by (rule lst.listing_repository_axioms)

end

end
