(* ===== verification/Server.thy ===== *)
theory Server
  imports Listing "HOL-Library.Sublist"
begin

text \<open>
  An executable server with one \<^verbatim>\<open>items\<close> table, as \<^verbatim>\<open>migrations/001_initial_schema.sql\<close> declares it:
  primary key, unique stock keeping unit, references to categories and suppliers, length limits,
  time stamps printed the way PostgreSQL prints them. It instantiates \<open>sql_items\<close>, so the
  contract of the repository is met by the code's model over it.
\<close>

section \<open>Time stamps as PostgreSQL prints them\<close>

text \<open>The date and the time are separated by a blank, trailing zeros of the fraction are dropped, the
  zone is written \<^verbatim>\<open>+00\<close>.\<close>

definition strip_zeros :: "string \<Rightarrow> string" where
  "strip_zeros x = rev (dropWhile (\<lambda>c. c = CHR ''0'') (rev x))"

definition timestamp_text :: "string \<Rightarrow> string" where
  "timestamp_text x =
     (let y = map (\<lambda>c. if c = CHR ''T'' then CHR '' '' else c) (butlast x);
          z = strip_zeros y;
          z = (if z \<noteq> [] \<and> last z = CHR ''.'' then butlast z else z)
      in z @ ''+00'')"

lemma strip_zeros_append:
  "strip_zeros (x @ CHR ''.'' # f) = x @ CHR ''.'' # strip_zeros f"
proof -
  have "dropWhile (\<lambda>c. c = CHR ''0'') (rev f @ CHR ''.'' # rev x) =
      dropWhile (\<lambda>c. c = CHR ''0'') (rev f) @ CHR ''.'' # rev x"
    by (induction "rev f" rule: list.induct) (auto simp: dropWhile_append split: if_splits)
  then show ?thesis by (simp add: strip_zeros_def)
qed

lemma strip_zeros_prefix: "\<exists>r. x = strip_zeros x @ r"
proof -
  have "rev x = takeWhile (\<lambda>c. c = CHR ''0'') (rev x) @ dropWhile (\<lambda>c. c = CHR ''0'') (rev x)" by simp
  then have "x = rev (dropWhile (\<lambda>c. c = CHR ''0'') (rev x)) @ rev (takeWhile (\<lambda>c. c = CHR ''0'') (rev x))"
    by (metis rev_append rev_rev_ident)
  then show ?thesis by (auto simp: strip_zeros_def)
qed

lemma stoi_fraction:
  assumes "g \<noteq> []" and "length g \<le> 3" and "\<forall>c \<in> set g. is_digit 10 c"
  shows "\<exists>v. stoi (take 3 (g @ ''+00'')) = Inr v"
proof -
  have t: "take 3 (g @ ''+00'') = g @ take (3 - length g) ''+00''" using assms(2) by simp
  have "take (3 - length g) ''+00'' = [] \<or> \<not> is_digit 10 (hd (take (3 - length g) ''+00''))"
    by (cases "3 - length g") (simp_all add: is_digit_def digit_val_def)
  then have "strto 10 (take 3 (g @ ''+00'')) = Some (False, read_base 10 g)"
    unfolding t using assms by (intro strto_digits_then)
  moreover have "read_base 10 g < 10 ^ 3"
    using read_base_less[OF assms(3)] power_increasing[of "length g" 3 "10::nat"] assms(2) by simp
  ultimately show ?thesis by (simp add: stoi_def sto_signed_def)
qed

lemma parse_timestamp_text:
  assumes "0 \<le> tp" and "tp < 2 ^ 63"
  shows "holds_time (Some (timestamp_text (format_iso8601 tp)))"
proof -
  obtain dt ms where f: "format_iso8601 tp = dt @ ''.'' @ pad_int 3 ms @ ''Z''" "CHR ''.'' \<notin> set dt" "0 \<le> ms" "ms < 1000"
    using format_iso8601_shape[OF assms] by blast
  define h where "h = map (\<lambda>c. if c = CHR ''T'' then CHR '' '' else c) dt"
  define g where "g = strip_zeros (pad_int 3 ms)"
  have dig: "\<forall>c \<in> set (pad_int 3 ms). is_digit 10 c" using pad_int_digits f(3) by blast
  then have noT: "map (\<lambda>c. if c = CHR ''T'' then CHR '' '' else c) (pad_int 3 ms) = pad_int 3 ms"
    by (intro map_idI) (auto simp: is_digit_def digit_val_def)
  have len: "length (pad_int 3 ms) = 3"
    using f(3,4) length_pad_show_base[of 10 3 "nat ms"] by (simp add: pad_int_def nat_less_iff)
  obtain r where r: "pad_int 3 ms = g @ r" using strip_zeros_prefix g_def by blast
  have gd: "\<forall>c \<in> set g. is_digit 10 c" and gl: "length g \<le> 3" using dig len r by auto
  have nodot: "CHR ''.'' \<notin> set h" using f(2) by (auto simp: h_def)
  have z: "strip_zeros (map (\<lambda>c. if c = CHR ''T'' then CHR '' '' else c) (butlast (format_iso8601 tp))) = h @ CHR ''.'' # g"
    unfolding f(1) by (simp add: butlast_append noT h_def[symmetric] strip_zeros_append g_def)
  show ?thesis
  proof (cases "g = []")
    case True
    then have "timestamp_text (format_iso8601 tp) = h @ ''+00''" unfolding timestamp_text_def Let_def z by simp
    moreover have "dropWhile (\<lambda>c. c \<noteq> CHR ''.'') (h @ ''+00'') = []"
      using nodot by (auto simp: dropWhile_eq_Nil_conv)
    ultimately show ?thesis by (simp add: holds_time_def parse_iso8601_def Let_def)
  next
    case False
    then have "last (h @ CHR ''.'' # g) \<noteq> CHR ''.''" using gd digit_not_dot last_in_set[OF False] by auto
    then have "timestamp_text (format_iso8601 tp) = h @ CHR ''.'' # g @ ''+00''" unfolding timestamp_text_def Let_def z by simp
    moreover have "dropWhile (\<lambda>c. c \<noteq> CHR ''.'') (h @ CHR ''.'' # g @ ''+00'') = CHR ''.'' # g @ ''+00''"
      using nodot by (subst dropWhile_append2) auto
    moreover obtain v where "stoi (take 3 (g @ ''+00'')) = Inr v" using stoi_fraction[OF False gl gd] by blast
    ultimately show ?thesis by (simp add: holds_time_def parse_iso8601_def Let_def)
  qed
qed

section \<open>Listing queries\<close>

text \<open>\<open>ILIKE\<close> on ASCII texts: \<^verbatim>\<open>%\<close> stands for any text, \<^verbatim>\<open>_\<close> for any character, a backslash quotes the next one.\<close>

definition lower :: "char \<Rightarrow> char" where
  "lower c = (let n = of_char c :: nat in if 65 \<le> n \<and> n \<le> 90 then char_of (n + 32) else c)"

fun like :: "string \<Rightarrow> string \<Rightarrow> bool" where
  "like [] x = (x = [])"
| "like (c # p) x =
     (if c = CHR ''%'' then like p x \<or> (case x of [] \<Rightarrow> False | _ # y \<Rightarrow> like (c # p) y)
      else if c = CHR ''_'' then (case x of [] \<Rightarrow> False | _ # y \<Rightarrow> like p y)
      else if c = CHR 0x5C then (case (p, x) of (e # q, d # y) \<Rightarrow> d = e \<and> like q y | _ \<Rightarrow> False)
      else (case x of [] \<Rightarrow> False | d # y \<Rightarrow> d = c \<and> like p y))"

definition server_ilike :: "string \<Rightarrow> string \<Rightarrow> bool" where
  "server_ilike x p = like (map lower p) (map lower x)"

text \<open>The digits of a printed time stamp, year first, as one number in milliseconds.\<close>

definition stamp_of :: "string option \<Rightarrow> int" where
  "stamp_of v = (case v of None \<Rightarrow> 0
     | Some x \<Rightarrow> int (read_base 10 (take 17 (filter (is_digit 10) (takeWhile (\<lambda>c. c \<noteq> CHR ''+'') x) @ replicate 17 CHR ''0''))))"

text \<open>Reading the conditions back out of a query. The shape of a condition is the condition without its
  parameters; \<open>bind_cond\<close> fills them in.\<close>

fun shape :: "cond \<Rightarrow> cond" where
  "shape (Search p) = Search []"
| "shape (Category c) = Category Uuid_default"
| "shape (Status st) = Status kActive"
| "shape (Stock_at_most n) = Stock_at_most 0"
| "shape (Price_at_most n) = Price_at_most 0"

definition shapes :: "cond list" where
  "shapes = [Search [], Category Uuid_default, Status kActive, Stock_at_most 0, Price_at_most 0]"

fun bind_cond :: "cond \<Rightarrow> string list \<Rightarrow> cond option" where
  "bind_cond (Search _) (p # q # _) = (if p = q then Some (Search p) else None)"
| "bind_cond (Category _) (p # _) = (case from_string p of Inl _ \<Rightarrow> None | Inr c \<Rightarrow> Some (Category c))"
| "bind_cond (Status _) (p # _) = Some (Status (string_to_status p))"
| "bind_cond (Stock_at_most _) (p # _) = (case stoll p of Inl _ \<Rightarrow> None | Inr n \<Rightarrow> Some (Stock_at_most n))"
| "bind_cond (Price_at_most _) (p # _) = (case stoll p of Inl _ \<Rightarrow> None | Inr n \<Rightarrow> Some (Price_at_most n))"
| "bind_cond _ _ = None"

fun parse_conds :: "nat \<Rightarrow> nat \<Rightarrow> string \<Rightarrow> string list \<Rightarrow> cond list \<times> string \<times> string list" where
  "parse_conds 0 n x ps = ([], x, ps)"
| "parse_conds (Suc fuel) n x ps =
     (case List.find (\<lambda>sh. prefix (cond_text n sh) x) shapes of
        None \<Rightarrow> ([], x, ps)
      | Some sh \<Rightarrow>
          (case bind_cond sh ps of
             None \<Rightarrow> ([], x, ps)
           | Some c \<Rightarrow>
               (let k = length (cond_params sh);
                    (cs, y, qs) = parse_conds fuel (n + k) (drop (length (cond_text n sh)) x) (drop k ps)
                in (c # cs, y, qs))))"

definition parse_query :: "string \<Rightarrow> string \<Rightarrow> string list \<Rightarrow> (cond list \<times> string \<times> string list) option" where
  "parse_query h sql ps = (if prefix h sql then Some (parse_conds (length sql) 0 (drop (length h) sql) ps) else None)"

lemma find_shape: "List.find (\<lambda>sh. prefix (cond_text n sh) (cond_text n c @ x)) shapes = Some (shape c)"
  by (cases c) (simp_all add: shapes_def)

lemma shape_simps [simp]: "cond_text n (shape c) = cond_text n c" "length (cond_params (shape c)) = length (cond_params c)"
  by (cases c; simp)+

lemma bind_shape: "bind_cond (shape c) (cond_params c @ qs) = Some c"
  by (cases c) (simp_all add: from_to_string)

lemma parse_conds_text:
  assumes "length cs \<le> fuel" and "\<forall>n. \<forall>sh \<in> set shapes. \<not> prefix (cond_text n sh) rest"
  shows "parse_conds fuel n (conds_text n cs @ rest) (conds_params cs @ qs) = (cs, rest, qs)"
  using assms(1)
proof (induction cs arbitrary: fuel n)
  case Nil
  have "List.find (\<lambda>sh. prefix (cond_text n sh) rest) shapes = None" using assms(2) by (auto simp: find_None_iff)
  then show ?case by (cases fuel) simp_all
next
  case (Cons c cs)
  then obtain m where m: "fuel = Suc m" "length cs \<le> m" by (cases fuel) auto
  show ?case using Cons.IH[OF m(2), of "n + length (cond_params c)"] by (simp add: m(1) find_shape bind_shape Let_def)
qed

lemma length_conds_text: "length cs \<le> length (conds_text n cs)"
proof (induction cs arbitrary: n)
  case (Cons c cs)
  have "1 \<le> length (cond_text n c)" by (cases c) simp_all
  then show ?case using Cons[of "n + length (cond_params c)"] by simp
qed simp

lemma parse_query_text:
  assumes "\<forall>n. \<forall>sh \<in> set shapes. \<not> prefix (cond_text n sh) rest"
  shows "parse_query h (h @ conds_text 0 cs @ rest) (conds_params cs @ qs) = Some (cs, rest, qs)"
proof -
  have "length cs \<le> length (h @ conds_text 0 cs @ rest)" using length_conds_text[of cs 0] by simp
  from parse_conds_text[OF this assms, of 0 qs] show ?thesis by (simp add: parse_query_def)
qed

section \<open>The server\<close>

record Server =
  srv_items :: "(string \<times> row) list"
  srv_categories :: "string list"
  srv_suppliers :: "string list"

fun param_text :: "param \<Rightarrow> string" where
  "param_text (PText x) = x"
| "param_text (PInt64 n) = show_int (sint n)"
| "param_text (PInt n) = show_int (sint n)"
| "param_text (PBool b) = (if b then ''t'' else ''f'')"

definition item_cols :: "string list" where
  "item_cols = [''id'', ''sku'', ''name'', ''description'', ''category_id'', ''supplier_id'', ''unit_price_amount'',
     ''unit_price_currency'', ''stock_quantity'', ''stock_unit'', ''min_stock_quantity'', ''status'']"

definition item_cells :: "param list \<Rightarrow> row" where
  "item_cells ps = map_of (zip item_cols (map param_text ps))"

definition no_rows :: pg_result where
  "no_rows = \<lparr>rows = [], affected_rows = 0\<rparr>"

text \<open>The constraints of the table on the cells of a row; \<open>self\<close> is the key being updated.\<close>

definition cells_ok :: "Server \<Rightarrow> string \<Rightarrow> row \<Rightarrow> bool" where
  "cells_ok d self r \<longleftrightarrow>
     (\<forall>(x, r') \<in> set (srv_items d). x \<noteq> self \<longrightarrow> r' ''sku'' \<noteq> r ''sku'') \<and>
     the (r ''category_id'') \<in> set (srv_categories d) \<and> the (r ''supplier_id'') \<in> set (srv_suppliers d) \<and>
     length (the (r ''sku'')) \<le> 100 \<and> length (the (r ''name'')) \<le> 200 \<and>
     length (the (r ''stock_unit'')) \<le> 20"

definition server_selected :: "cond list \<Rightarrow> Server \<Rightarrow> (string \<times> row) list" where
  "server_selected cs d = sort_key (\<lambda>(x, r). - stamp_of (r ''created_at''))
     (filter (\<lambda>(x, r). list_all (cond_holds (\<lambda>x. lift_exn (stoll x)) server_ilike r) cs) (srv_items d))"

definition server_page :: "cond list \<Rightarrow> int64 \<Rightarrow> int64 \<Rightarrow> Server \<Rightarrow> db_exn + pg_result" where
  "server_page cs l k d =
     (if l <s 0 then Inl (Sql_error ''LIMIT must not be negative'')
      else if k <s 0 then Inl (Sql_error ''OFFSET must not be negative'')
      else Inr (no_rows\<lparr>rows := take (nat (sint l)) (drop (nat (sint k)) (map snd (server_selected cs d)))\<rparr>))"

definition server_count :: "cond list \<Rightarrow> Server \<Rightarrow> pg_result" where
  "server_count cs d = no_rows\<lparr>rows := [[''count'' \<mapsto> show_int (int (length (server_selected cs d)))]]\<rparr>"

definition server_list :: "string \<Rightarrow> string list \<Rightarrow> Server \<Rightarrow> db_exn + pg_result" where
  "server_list sql ps d =
     (case parse_query page_head sql ps of
        Some (cs, rest, [l, k]) \<Rightarrow>
          (case (stoll l, stoll k) of
             (Inr l, Inr k) \<Rightarrow>
               if rest = page_tail (length (conds_params cs)) then server_page cs l k d
               else Inl (Sql_error ''unknown statement'')
           | _ \<Rightarrow> Inl (Sql_error ''invalid input syntax''))
      | _ \<Rightarrow>
          (case parse_query count_head sql ps of
             Some (cs, [], []) \<Rightarrow> Inr (server_count cs d)
           | _ \<Rightarrow> Inl (Sql_error ''unknown statement'')))"

text \<open>The rows of \<^verbatim>\<open>find_low_stock\<close>.\<close>

definition cell_number :: "string option \<Rightarrow> int" where
  "cell_number v = (case v of None \<Rightarrow> 0 | Some x \<Rightarrow> (case stoll x of Inl _ \<Rightarrow> 0 | Inr n \<Rightarrow> sint n))"

definition server_low :: "Server \<Rightarrow> (string \<times> row) list" where
  "server_low d = sort_key (\<lambda>(x, r). cell_number (r ''stock_quantity''))
     (filter (\<lambda>(x, r). cell_number (r ''stock_quantity'') \<le> cell_number (r ''min_stock_quantity'') \<and> r ''status'' = Some ''active'')
        (srv_items d))"

definition server_exec :: "string \<Rightarrow> param list \<Rightarrow> Server \<Rightarrow> db_exn + (pg_result \<times> Server)" where
  "server_exec sql ps d =
     (if sql = sql_item_by_id \<and> length ps = 1 then
        Inr (no_rows\<lparr>rows := map snd (filter (\<lambda>(x, r). x = param_text (ps ! 0)) (srv_items d))\<rparr>, d)
      else if sql = sql_item_by_sku \<and> length ps = 1 then
        Inr (no_rows\<lparr>rows := map snd (filter (\<lambda>(x, r). r ''sku'' = Some (param_text (ps ! 0))) (srv_items d))\<rparr>, d)
      else if sql = sql_item_insert \<and> length ps = 14 then
        (let k = param_text (ps ! 0);
             r = (item_cells (take 12 ps))(''created_at'' \<mapsto> timestamp_text (param_text (ps ! 12)),
               ''updated_at'' \<mapsto> timestamp_text (param_text (ps ! 13)))
         in if k \<in> fst ` set (srv_items d) \<or> \<not> cells_ok d k r then Inl (Sql_error ''constraint violation'')
            else Inr (no_rows\<lparr>rows := [r], affected_rows := 1\<rparr>, d\<lparr>srv_items := srv_items d @ [(k, r)]\<rparr>))
      else if sql = sql_item_update \<and> length ps = 13 then
        (let k = param_text (ps ! 0)
         in case map_of (srv_items d) k of
              None \<Rightarrow> Inr (no_rows, d)
            | Some r0 \<Rightarrow>
                (let r = (item_cells (take 12 ps))(''created_at'' := r0 ''created_at'',
                   ''updated_at'' \<mapsto> timestamp_text (param_text (ps ! 12)))
                 in if \<not> cells_ok d k r then Inl (Sql_error ''constraint violation'')
                    else Inr (no_rows\<lparr>rows := [r], affected_rows := 1\<rparr>,
                      d\<lparr>srv_items := map (\<lambda>(x, q). (x, if x = k then r else q)) (srv_items d)\<rparr>)))
      else if sql = sql_item_delete \<and> length ps = 1 then
        (let k = param_text (ps ! 0)
         in Inr (no_rows\<lparr>affected_rows := length (filter (\<lambda>(x, r). x = k) (srv_items d))\<rparr>,
              d\<lparr>srv_items := filter (\<lambda>(x, r). x \<noteq> k) (srv_items d)\<rparr>))
      else if sql = sql_item_low_stock \<and> ps = [] then Inr (no_rows\<lparr>rows := map snd (server_low d)\<rparr>, d)
      else map_sum id (\<lambda>res. (res, d)) (server_list sql (map param_text ps) d))"

definition server_pq :: "(Server, Server) pqxx" where
  "server_pq = \<lparr>conn_open = (\<lambda>d c. True), conn_attempt = (\<lambda>d n. Not_open), work = (\<lambda>c d. Inr d),
     exec_sql = server_exec, commit = (\<lambda>t d. (t, Inr ())), parse_int64 = (\<lambda>x. lift_exn (stoll x)), parse_size = (\<lambda>x. lift_exn (stoll x)),
     parse_bool = (\<lambda>x. Inr (x = ''t'')), null_error = Std_exception ''null''\<rparr>"

definition server_rows :: "Server \<Rightarrow> string \<Rightarrow> row option" where
  "server_rows d = map_of (srv_items d)"

definition server_up :: "string list \<Rightarrow> string list \<Rightarrow> Server \<Rightarrow> bool" where
  "server_up cats sups d \<longleftrightarrow> distinct (map fst (srv_items d)) \<and> srv_categories d = cats \<and> srv_suppliers d = sups"

definition server_storable :: "string list \<Rightarrow> string list \<Rightarrow> Item \<Rightarrow> bool" where
  "server_storable cats sups i \<longleftrightarrow> item_ok i \<and>
     to_string (category_id i) \<in> set cats \<and> to_string (supplier_id i) \<in> set sups \<and>
     length (sku i) \<le> 100 \<and> length (item_name i) \<le> 200 \<and> length (unit_of (stock i)) \<le> 20 \<and>
     0 \<le> created_at i \<and> created_at i < 2 ^ 63 \<and> 0 \<le> updated_at i \<and> updated_at i < 2 ^ 63"

lemma length_item_params [simp]: "length (item_params i) = 12"
  by (simp add: item_params_def)

lemma statements_differ [simp]:
  "sql_item_by_id \<noteq> sql_item_by_sku" "sql_item_by_sku \<noteq> sql_item_by_id"
  "sql_item_insert \<noteq> sql_item_by_id" "sql_item_insert \<noteq> sql_item_by_sku"
  "sql_item_update \<noteq> sql_item_by_id" "sql_item_update \<noteq> sql_item_by_sku" "sql_item_update \<noteq> sql_item_insert"
  "sql_item_delete \<noteq> sql_item_by_id" "sql_item_delete \<noteq> sql_item_by_sku" "sql_item_delete \<noteq> sql_item_insert"
  "sql_item_delete \<noteq> sql_item_update"
  by (simp_all add: sql_item_by_id_def sql_item_by_sku_def sql_item_insert_def sql_item_update_def sql_item_delete_def)

lemma item_cells_simps:
  "item_cells (item_params i) ''id'' = Some (to_string (item_id i))"
  "item_cells (item_params i) ''sku'' = Some (sku i)"
  "item_cells (item_params i) ''name'' = Some (item_name i)"
  "item_cells (item_params i) ''description'' = Some (item_description i)"
  "item_cells (item_params i) ''category_id'' = Some (to_string (category_id i))"
  "item_cells (item_params i) ''supplier_id'' = Some (to_string (supplier_id i))"
  "item_cells (item_params i) ''unit_price_amount'' = Some (show_int (sint (amount (unit_price i))))"
  "item_cells (item_params i) ''unit_price_currency'' = Some (currency (unit_price i))"
  "item_cells (item_params i) ''stock_quantity'' = Some (show_int (sint (qty (stock i))))"
  "item_cells (item_params i) ''stock_unit'' = Some (unit_of (stock i))"
  "item_cells (item_params i) ''min_stock_quantity'' = Some (show_int (sint (qty (min_stock i))))"
  "item_cells (item_params i) ''status'' = Some (status_to_string (item_status i))"
  by (simp_all add: item_cells_def item_cols_def item_params_def)

lemma server_row_holds:
  assumes "item_ok i" and "holds_time c" and "holds_time u"
  shows "row_holds server_pq i ((item_cells (item_params i))(''created_at'' := c, ''updated_at'' := u))"
  using assms by (simp add: row_holds_def item_cells_simps holds_int_def server_pq_def item_ok_def money_ok_iff
    quantity_ok_iff)

lemma map_of_update_map:
  "map_of (map (\<lambda>(x, q). (x, if x = k then r else q)) l) =
     (if k \<in> fst ` set l then (map_of l)(k \<mapsto> r) else map_of l)"
  by (induction l) (auto simp: fun_eq_iff)

lemma cells_ok_item:
  assumes "server_storable cats sups i" and "server_up cats sups d"
    and "sku_unused (server_rows d) (to_string (item_id i)) (sku i)"
  shows "cells_ok d (to_string (item_id i)) ((item_cells (item_params i))(''created_at'' := c, ''updated_at'' := u))"
  using assms by (auto simp: cells_ok_def server_storable_def server_up_def item_cells_simps sku_unused_def server_rows_def)

lemma map_of_snoc: "k \<notin> fst ` set l \<Longrightarrow> map_of (l @ [(k, r)]) = (map_of l)(k \<mapsto> r)"
  by (induction l) (auto simp: fun_eq_iff)

lemma filter_no_key: "k \<notin> fst ` set l \<Longrightarrow> filter (\<lambda>(x, r). x = k) l = []"
  by (induction l) auto

lemma filter_key:
  "distinct (map fst l) \<Longrightarrow> map snd (filter (\<lambda>(x, r). x = k) l) = (case map_of l k of None \<Rightarrow> [] | Some r \<Rightarrow> [r])"
  by (induction l) (auto simp: filter_no_key)

lemma map_of_filter_key: "map_of (filter (\<lambda>(x, r). x \<noteq> k) l) = (map_of l)(k := None)"
  by (induction l) (auto simp: fun_eq_iff)

lemma length_filter_key:
  "distinct (map fst l) \<Longrightarrow> length (filter (\<lambda>(x, r). x = k) l) = (if map_of l k = None then 0 else 1)"
  using arg_cong[OF filter_key[of l k], of length] by (auto split: option.splits)

interpretation srv: sql_items server_pq server_rows "server_up cats sups" "\<lambda>d. d" "server_storable cats sups"
  for cats sups
proof unfold_locales
  fix t x assume up: "server_up cats sups t"
  show "\<exists>t' res. exec_sql server_pq sql_item_by_id [PText x] t = Inr (res, t') \<and> t' = t \<and>
      rows res = (case server_rows t x of None \<Rightarrow> [] | Some r \<Rightarrow> [r])"
    using up by (simp add: server_pq_def server_exec_def server_up_def filter_key server_rows_def)
next
  fix t y assume up: "server_up cats sups t"
  show "\<exists>t' res. exec_sql server_pq sql_item_by_sku [PText y] t = Inr (res, t') \<and> t' = t \<and>
      set (rows res) = {r. \<exists>x. server_rows t x = Some r \<and> r ''sku'' = Some y}"
    using up by (force simp add: server_pq_def server_exec_def server_up_def server_rows_def dest: map_of_SomeD)
next
  fix t i assume up: "server_up cats sups t" and st: "server_storable cats sups i"
    and new: "server_rows t (to_string (item_id i)) = None"
    and sk: "sku_unused (server_rows t) (to_string (item_id i)) (sku i)"
  let ?ct = "timestamp_text (format_iso8601 (created_at i))" and ?ut = "timestamp_text (format_iso8601 (updated_at i))"
  let ?r = "(item_cells (item_params i))(''created_at'' \<mapsto> ?ct, ''updated_at'' \<mapsto> ?ut)"
  let ?k = "to_string (item_id i)"
  have k: "?k \<notin> fst ` set (srv_items t)" using new by (simp add: server_rows_def map_of_eq_None_iff)
  have "cells_ok t ?k ?r" using cells_ok_item[OF st up sk] .
  moreover have k0: "param_text (item_params i ! 0) = ?k" by (simp add: item_params_def)
  ultimately have "exec_sql server_pq sql_item_insert (item_params i @ [PText (format_iso8601 (created_at i)),
      PText (format_iso8601 (updated_at i))]) t =
      Inr (no_rows\<lparr>rows := [?r], affected_rows := 1\<rparr>, t\<lparr>srv_items := srv_items t @ [(?k, ?r)]\<rparr>)"
    using k by (simp add: server_pq_def server_exec_def nth_append Let_def del: fun_upd_apply)
  moreover have "row_holds server_pq i ?r"
    using st by (intro server_row_holds parse_timestamp_text) (auto simp: server_storable_def)
  moreover have "server_up cats sups (t\<lparr>srv_items := srv_items t @ [(?k, ?r)]\<rparr>)"
    using up k by (simp add: server_up_def)
  moreover have "server_rows (t\<lparr>srv_items := srv_items t @ [(?k, ?r)]\<rparr>) = (server_rows t)(?k \<mapsto> ?r)"
    using k by (simp add: server_rows_def map_of_snoc del: fun_upd_apply map_of_append)
  ultimately show "\<exists>t' res r. exec_sql server_pq sql_item_insert (item_params i @ [PText (format_iso8601 (created_at i)),
        PText (format_iso8601 (updated_at i))]) t = Inr (res, t') \<and>
      rows res = [r] \<and> row_holds server_pq i r \<and> server_up cats sups t' \<and>
      server_rows t' = (server_rows t)(to_string (item_id i) \<mapsto> r)"
    by (simp del: fun_upd_apply)
next
  fix t i r0 assume up: "server_up cats sups t" and st: "server_storable cats sups i"
    and old: "server_rows t (to_string (item_id i)) = Some r0"
    and sk: "sku_unused (server_rows t) (to_string (item_id i)) (sku i)" and ht: "holds_time (r0 ''created_at'')"
  let ?ut = "timestamp_text (format_iso8601 (updated_at i))"
  let ?r = "(item_cells (item_params i))(''created_at'' := r0 ''created_at'', ''updated_at'' \<mapsto> ?ut)"
  let ?k = "to_string (item_id i)"
  let ?t = "t\<lparr>srv_items := map (\<lambda>(x, q). (x, if x = ?k then ?r else q)) (srv_items t)\<rparr>"
  have k: "?k \<in> fst ` set (srv_items t)" using old by (metis map_of_eq_None_iff option.distinct(1) server_rows_def)
  have "cells_ok t ?k ?r" using cells_ok_item[OF st up sk] .
  moreover have k0: "param_text (item_params i ! 0) = ?k" by (simp add: item_params_def)
  ultimately have "exec_sql server_pq sql_item_update (item_params i @ [PText (format_iso8601 (updated_at i))]) t =
      Inr (no_rows\<lparr>rows := [?r], affected_rows := 1\<rparr>, ?t)"
    using old by (simp add: server_pq_def server_exec_def nth_append Let_def server_rows_def del: fun_upd_apply)
  moreover have "row_holds server_pq i ?r"
    using st ht by (intro server_row_holds parse_timestamp_text) (auto simp: server_storable_def)
  moreover have "server_up cats sups ?t"
    using up by (simp add: server_up_def case_prod_unfold comp_def del: fun_upd_apply)
  moreover have "server_rows ?t = (server_rows t)(?k \<mapsto> ?r)"
    using k by (simp add: server_rows_def map_of_update_map del: fun_upd_apply)
  moreover have "?r ''created_at'' = r0 ''created_at''" by simp
  ultimately show "\<exists>t' res r. exec_sql server_pq sql_item_update (item_params i @ [PText (format_iso8601 (updated_at i))]) t = Inr (res, t') \<and>
      rows res = [r] \<and> row_holds server_pq i r \<and> r ''created_at'' = r0 ''created_at'' \<and> server_up cats sups t' \<and>
      server_rows t' = (server_rows t)(to_string (item_id i) \<mapsto> r)"
    by (intro exI[of _ ?t] exI[of _ "no_rows\<lparr>rows := [?r], affected_rows := 1\<rparr>"] exI[of _ ?r] conjI) (assumption | simp del: fun_upd_apply)+
next
  fix t x assume up: "server_up cats sups t"
  then show "\<exists>t' res. exec_sql server_pq sql_item_delete [PText x] t = Inr (res, t') \<and>
      affected_rows res = (if server_rows t x = None then 0 else 1) \<and> server_up cats sups t' \<and>
      server_rows t' = (server_rows t)(x := None)"
    by (simp add: server_pq_def server_exec_def server_up_def server_rows_def Let_def length_filter_key
      map_of_filter_key distinct_map_filter)
qed (simp_all add: server_pq_def)

section \<open>The server lists\<close>

lemma queries_differ:
  "page_sql cs \<noteq> sql_item_by_id" "page_sql cs \<noteq> sql_item_by_sku" "page_sql cs \<noteq> sql_item_insert"
  "page_sql cs \<noteq> sql_item_update" "page_sql cs \<noteq> sql_item_delete"
  "count_sql cs \<noteq> sql_item_by_id" "count_sql cs \<noteq> sql_item_by_sku" "count_sql cs \<noteq> sql_item_insert"
  "count_sql cs \<noteq> sql_item_update" "count_sql cs \<noteq> sql_item_delete"
  "page_sql cs \<noteq> sql_item_low_stock" "count_sql cs \<noteq> sql_item_low_stock"
  by (simp_all add: sql_item_low_stock_def page_sql_def count_sql_def page_head_def count_head_def item_columns_def sql_item_by_id_def
      sql_item_by_sku_def sql_item_insert_def sql_item_update_def sql_item_delete_def)

lemma tails_end:
  "\<forall>n. \<forall>sh \<in> set shapes. \<not> prefix (cond_text n sh) (page_tail k)"
  "\<forall>n. \<forall>sh \<in> set shapes. \<not> prefix (cond_text n sh) []"
  by (simp_all add: shapes_def page_tail_def)

lemma param_texts: "map (param_text \<circ> PText) xs = xs"
  by (induction xs) simp_all

lemma server_lists_page:
  assumes "in_bigint l" and "in_bigint k"
  shows "server_exec (page_sql cs) (map PText (conds_params cs @ [show_int l, show_int k])) d =
    map_sum id (\<lambda>res. (res, d)) (server_page cs (word_of_int l) (word_of_int k) d)"
proof -
  have "parse_query page_head (page_sql cs) (conds_params cs @ [show_int l, show_int k]) =
      Some (cs, page_tail (length (conds_params cs)), [show_int l, show_int k])"
    unfolding page_sql_def by (rule parse_query_text[OF tails_end(1)])
  then show ?thesis
    using assms by (simp add: server_exec_def queries_differ param_texts server_list_def stoll_show in_bigint_def del: map_append)
qed

lemma server_counts:
  "server_exec (count_sql cs) (map PText (conds_params cs)) d = Inr (server_count cs d, d)"
proof -
  have "parse_query count_head (count_sql cs) (conds_params cs) = Some (cs, [], [])"
    using parse_query_text[OF tails_end(2), of count_head cs "[]"] by (simp add: count_sql_def)
  moreover have "parse_query page_head (count_sql cs) (conds_params cs) = None"
    by (simp add: parse_query_def count_sql_def count_head_def page_head_def item_columns_def)
  ultimately show ?thesis by (simp add: server_exec_def queries_differ param_texts server_list_def)
qed

lemma server_selects:
  assumes "server_up cats sups d"
  shows "selects_rows server_pq server_ilike stamp_of (server_rows d) cs (map fst (server_selected cs d))"
    and "map snd (server_selected cs d) = map (\<lambda>x. the (server_rows d x)) (map fst (server_selected cs d))"
proof -
  let ?P = "\<lambda>(x, r). list_all (cond_holds (\<lambda>x. lift_exn (stoll x)) server_ilike r) cs"
  let ?sel = "server_selected cs d"
  have dist: "distinct (map fst (srv_items d))" using assms by (simp add: server_up_def)
  have row: "server_rows d x = Some r \<longleftrightarrow> (x, r) \<in> set (srv_items d)" for x r
    using map_of_eq_Some_iff[OF dist] by (simp add: server_rows_def)
  have set: "set ?sel = {p \<in> set (srv_items d). ?P p}" by (simp add: server_selected_def)
  have "distinct (map fst (filter ?P (srv_items d)))" by (rule distinct_map_filter[OF dist])
  then have "distinct (map fst ?sel)" by (simp add: server_selected_def distinct_map)
  moreover have "set (map fst ?sel) = {x. \<exists>r. server_rows d x = Some r \<and>
      (\<forall>c \<in> set cs. cond_holds (parse_int64 server_pq) server_ilike r c)}"
    by (force simp: set row list_all_iff server_pq_def)
  moreover have "sorted (map (\<lambda>(x, r). - stamp_of (r ''created_at'')) ?sel)" by (simp add: server_selected_def)
  then have "sorted_wrt (\<lambda>p q. stamp_of (snd q ''created_at'') \<le> stamp_of (snd p ''created_at'')) ?sel"
    by (simp add: sorted_map case_prod_unfold)
  then have "sorted_wrt (\<lambda>p q. stamp_of (the (server_rows d (fst q)) ''created_at'') \<le> stamp_of (the (server_rows d (fst p)) ''created_at'')) ?sel"
    by (rule sorted_wrt_mono_rel[rotated]) (auto simp: set row[THEN iffD2])
  ultimately show "selects_rows server_pq server_ilike stamp_of (server_rows d) cs (map fst ?sel)"
    by (simp add: selects_rows_def sorted_wrt_map)
  show "map snd ?sel = map (\<lambda>x. the (server_rows d x)) (map fst ?sel)"
    by (auto simp: set row[THEN iffD2])
qed

lemma selects_rows_length:
  "selects_rows pq ilike stamp m cs xs \<Longrightarrow> selects_rows pq ilike stamp m cs ys \<Longrightarrow> length xs = length ys"
  using distinct_card[of xs] distinct_card[of ys] by (simp add: selects_rows_def)

interpretation lister: sql_listing server_pq server_rows "server_up cats sups" "\<lambda>d. d" "server_storable cats sups"
  server_ilike stamp_of "\<lambda>_. True"
  for cats sups
proof unfold_locales
  fix t :: Server and cs l k
  assume up: "server_up cats sups t" and big: "in_bigint l" "in_bigint k" and pos: "0 \<le> l" "0 \<le> k"
  have exec: "exec_sql server_pq = server_exec" by (simp add: server_pq_def)
  have page: "take (nat l) (drop (nat k) (map snd (server_selected cs t))) =
      map (\<lambda>x. the (server_rows t x)) (take (nat l) (drop (nat k) (map fst (server_selected cs t))))"
    by (simp only: server_selects(2)[OF up] take_map drop_map)
  have "sint (word_of_int l :: int64) = l" "sint (word_of_int k :: int64) = k"
    using big pos by (simp_all add: in_bigint_def signed_of_int signed_take_bit_int_eq_self)
  then have "server_exec (page_sql cs) (map PText (conds_params cs @ [show_int l, show_int k])) t =
      Inr (no_rows\<lparr>rows := take (nat l) (drop (nat k) (map snd (server_selected cs t)))\<rparr>, t)"
    unfolding server_lists_page[OF big] using pos by (simp add: server_page_def word_sless_alt)
  then show "\<exists>t' res xs. exec_sql server_pq (page_sql cs) (map PText (conds_params cs @ [show_int l, show_int k])) t = Inr (res, t') \<and>
      t' = t \<and> selects_rows server_pq server_ilike stamp_of (server_rows t) cs xs \<and>
      rows res = map (\<lambda>x. the (server_rows t x)) (take (nat l) (drop (nat k) xs))"
    unfolding exec
    by (intro exI[of _ t] exI[of _ "no_rows\<lparr>rows := take (nat l) (drop (nat k) (map snd (server_selected cs t)))\<rparr>"]
        exI[of _ "map fst (server_selected cs t)"] conjI server_selects(1)[OF up]) (assumption, simp_all only: page, simp_all)
next
  fix t :: Server and cs l k
  assume big: "in_bigint l" "in_bigint k" and neg: "l < 0 \<or> k < 0"
  have "sint (word_of_int l :: int64) = l" "sint (word_of_int k :: int64) = k"
    using big by (simp_all add: in_bigint_def signed_of_int signed_take_bit_int_eq_self)
  then show "\<exists>w. exec_sql server_pq (page_sql cs) (map PText (conds_params cs @ [show_int l, show_int k])) t = Inl (Sql_error w)"
    using neg server_lists_page[OF big, of cs t] by (auto simp: server_pq_def server_page_def word_sless_alt)
next
  fix t :: Server and cs xs
  assume up: "server_up cats sups t" and sel: "selects_rows server_pq server_ilike stamp_of (server_rows t) cs xs"
    and small: "length xs < 2 ^ 63"
  have len: "length (server_selected cs t) = length xs"
    using selects_rows_length[OF server_selects(1)[OF up] sel] by simp
  have "int (length xs) < 2 ^ 63" using small by simp
  then have "stoll (show_int (int (length xs))) = Inr (of_nat (length xs))" by (simp add: stoll_show)
  then show "\<exists>t' res r. exec_sql server_pq (count_sql cs) (map PText (conds_params cs)) t = Inr (res, t') \<and> t' = t \<and>
      rows res = [r] \<and> as_int64 server_pq (r ''count'') = Inr (of_nat (length xs))"
    using server_counts[of cs t] by (simp add: server_pq_def server_count_def len as_int64_def)
qed

end
