(* ===== verification/Inventory.thy ===== *)
theory Inventory
  imports Server
begin

text \<open>
  The item use cases over the PostgreSQL repository, end to end: what a caller of the use cases
  sees, given the documented behaviour of the database (the hypothesis \<^verbatim>\<open>sql_items\<close>), with the
  executable server of \<^verbatim>\<open>Server\<close> as the instance in every witness.
\<close>

section \<open>A state for the witnesses\<close>

definition shop_cat :: string where
  "shop_cat = to_string (category_id sample_item)"

definition shop_sup :: string where
  "shop_sup = to_string (supplier_id sample_item)"

definition empty_shop :: "Server Backend" where
  "empty_shop = \<lparr>bk_pool = sample_pool\<lparr>m_pool := [4, 5], m_available := 2\<rparr>,
     bk_db = \<lparr>srv_items = [], srv_categories = [shop_cat], srv_suppliers = [shop_sup]\<rparr>\<rparr>"

definition shop_request :: CreateRequest where
  "shop_request = \<lparr>cr_sku = ''SKU-100'', cr_name = ''Test Item'', cr_description = ''Description'',
     cr_category_id = category_id sample_item, cr_supplier_id = supplier_id sample_item,
     cr_unit_price_amount = 50000, cr_currency = ''IDR'', cr_stock_quantity = 100,
     cr_min_stock_quantity = 10, cr_stock_unit = ''pcs''\<rparr>"

abbreviation "shop_ready \<equiv> pg_ready server_pq server_rows (server_up [shop_cat] [shop_sup])"
abbreviation "shop_storable \<equiv> server_storable [shop_cat] [shop_sup]"

lemma empty_shop_ready: "shop_ready empty_shop"
  by (simp add: pg_ready_def empty_shop_def pool_ready_def pool_inv_def sample_pool_def server_up_def
      rows_ok_def server_rows_def)

lemma empty_shop_table [simp]: "pg_table server_pq server_rows empty_shop = (\<lambda>_. None)"
  by (simp add: pg_table_def items_of_def server_rows_def empty_shop_def fun_eq_iff)

lemma shop_request_valid: "create_valid shop_request"
  by (simp add: create_valid_def shop_request_def)

lemma shop_request_storable:
  "0 \<le> now \<Longrightarrow> now < 2 ^ 63 \<Longrightarrow> shop_storable (requested_item r0 r1 now shop_request)"
  using requested_item_ok[OF shop_request_valid, of r0 r1 now]
  by (simp add: server_storable_def) (simp add: requested_item_def Item_new_def shop_request_def shop_cat_def shop_sup_def)

lemma shop_server: "sql_items server_pq server_rows (server_up [shop_cat] [shop_sup]) (\<lambda>d. d) shop_storable"
  by (rule srv.sql_items_axioms)

section \<open>Creating and reading\<close>

text \<open>C2: a valid creation request with an unused stock keeping unit is stored under the fresh
  identifier, the answer is the stored item, and reading that identifier afterwards gives the same item.\<close>

theorem create_then_get:
  assumes "sql_items pq rows_of up view storable" and "pg_ready pq rows_of up s" and "create_valid req"
    and "storable (requested_item r0 r1 now req)" and "pg_table pq rows_of s (generate r0 r1) = None"
    and "\<forall>k i. pg_table pq rows_of s k = Some i \<longrightarrow> sku i \<noteq> cr_sku req"
  shows "\<exists>j s1 s2. create_execute (pg_item_repo pq) r0 r1 now req s = Some (Inr j, s1) \<and>
    same_item (requested_item r0 r1 now req) j \<and>
    pg_table pq rows_of s1 = (pg_table pq rows_of s)(generate r0 r1 \<mapsto> j) \<and>
    get_execute (pg_item_repo pq) (generate r0 r1) s1 = Some (Inr j, s2) \<and>
    pg_ready pq rows_of up s2 \<and> pg_table pq rows_of s2 = pg_table pq rows_of s1"
proof -
  note c = sql_items.contract[OF assms(1)]
  obtain j s1 where 1: "create_execute (pg_item_repo pq) r0 r1 now req s = Some (Inr j, s1)" "pg_ready pq rows_of up s1"
    "same_item (requested_item r0 r1 now req) j" "pg_table pq rows_of s1 = (pg_table pq rows_of s)(generate r0 r1 \<mapsto> j)"
    using item_repository.create_fresh[OF c assms(2-6)] by blast
  obtain r s2 where "get_execute (pg_item_repo pq) (generate r0 r1) s1 = Some (r, s2)" "pg_ready pq rows_of up s2"
    "pg_table pq rows_of s2 = pg_table pq rows_of s1" "r = Inr j"
    using item_repository.get_stored[OF c 1(2) generate_valid, of r0 r1] 1(4) by auto
  with 1 show ?thesis by blast
qed

theorem create_then_get_witness:
  "\<exists>j s1 s2. create_execute (pg_item_repo server_pq) 1 2 1700000000000000000 shop_request empty_shop = Some (Inr j, s1) \<and>
     get_execute (pg_item_repo server_pq) (generate 1 2) s1 = Some (Inr j, s2) \<and> sku j = ''SKU-100''"
proof -
  obtain j s1 s2 where "create_execute (pg_item_repo server_pq) 1 2 1700000000000000000 shop_request empty_shop = Some (Inr j, s1)"
    "get_execute (pg_item_repo server_pq) (generate 1 2) s1 = Some (Inr j, s2)"
    "same_item (requested_item 1 2 1700000000000000000 shop_request) j"
    using create_then_get[OF shop_server empty_shop_ready shop_request_valid shop_request_storable, of 1700000000000000000 1 2]
    by auto
  then show ?thesis using same_item_fields by (fastforce simp: shop_request_def)
qed

text \<open>C5: a second item with a stock keeping unit that is in use is refused with a conflict error and
  nothing is stored; an invalid request is refused with a validation error before the database is asked.\<close>

theorem create_refused:
  assumes "sql_items pq rows_of up view storable" and "pg_ready pq rows_of up s"
    and "create_valid req \<longrightarrow> (\<exists>k i. pg_table pq rows_of s k = Some i \<and> sku i = cr_sku req)"
  shows "\<exists>e s'. create_execute (pg_item_repo pq) r0 r1 now req s = Some (Inl e, s') \<and>
    err_code e = (if create_valid req then kConflict else kValidationError) \<and>
    pg_table pq rows_of s' = pg_table pq rows_of s \<and> (\<not> create_valid req \<longrightarrow> s' = s)"
proof (cases "create_valid req")
  case True
  with assms(3) obtain k i where "pg_table pq rows_of s k = Some i" "sku i = cr_sku req" by blast
  from item_repository.create_duplicate[OF sql_items.contract[OF assms(1)] assms(2) True this, of r0 r1 now]
  show ?thesis using True by auto
next
  case False
  with create_execute_invalid[OF False, of "pg_item_repo pq" r0 r1 now] show ?thesis by auto
qed

theorem create_refused_witness:
  "\<exists>e s'. create_execute (pg_item_repo server_pq) 1 2 0 (shop_request\<lparr>cr_currency := ''Rp''\<rparr>) empty_shop = Some (Inl e, s') \<and>
     err_code e = kValidationError"
proof -
  have "\<not> create_valid (shop_request\<lparr>cr_currency := ''Rp''\<rparr>)" by (simp add: create_valid_def shop_request_def)
  then show ?thesis
    using create_refused[OF shop_server empty_shop_ready, of "shop_request\<lparr>cr_currency := ''Rp''\<rparr>" 1 2 0] by auto
qed

section \<open>Changing and deleting\<close>

text \<open>C3: a valid update of a stored item stores the item with exactly the requested fields changed
  and its creation time kept; an invalid one is refused and leaves the table as it was; an update of an
  unknown identifier is refused as not found.\<close>

theorem update_stored_item:
  assumes "sql_items pq rows_of up view storable" and "pg_ready pq rows_of up s"
    and "\<forall>i. pg_table pq rows_of s (ur_id req) = Some i \<longrightarrow> storable (updated_item req now i)"
  shows "case pg_table pq rows_of s (ur_id req) of
      None \<Rightarrow> \<exists>e s'. update_execute (pg_item_repo pq) now req s = Some (Inl e, s') \<and> err_code e = kNotFound \<and>
        pg_table pq rows_of s' = pg_table pq rows_of s
    | Some i \<Rightarrow>
        (if update_valid req
         then \<exists>j s'. update_execute (pg_item_repo pq) now req s = Some (Inr j, s') \<and>
           same_item (updated_item req now i) j \<and> created_at j = created_at i \<and>
           pg_table pq rows_of s' = (pg_table pq rows_of s)(ur_id req \<mapsto> j)
         else \<exists>e s'. update_execute (pg_item_repo pq) now req s = Some (Inl e, s') \<and> err_code e = kValidationError \<and>
           pg_table pq rows_of s' = pg_table pq rows_of s)"
proof (cases "pg_table pq rows_of s (ur_id req)")
  case None
  with item_repository.update_missing[OF sql_items.contract[OF assms(1)] assms(2), of req now] show ?thesis by auto
next
  case (Some i)
  with item_repository.update_stored[OF sql_items.contract[OF assms(1)] assms(2) Some, of now] assms(3)
  show ?thesis by auto
qed

definition shop_update :: UpdateRequest where
  "shop_update = no_update\<lparr>ur_id := generate 1 2, ur_stock_quantity := Some 75\<rparr>"

lemma updated_shop_item_storable:
  assumes "same_item (requested_item 1 2 0 shop_request) j" and "0 \<le> created_at j" and "created_at j < 2 ^ 63"
  shows "shop_storable (updated_item shop_update 9 j)"
proof -
  have "item_ok (updated_item shop_update 9 j)"
    using same_item_ok[OF assms(1)] requested_item_ok[OF shop_request_valid, of 1 2 0]
    by (intro updated_item_ok) (auto simp: shop_update_def no_update_def update_valid_def)
  then show ?thesis
    using same_item_fields[OF same_item_sym[OF assms(1)]] assms(2,3)
    by (simp add: server_storable_def updated_item_def shop_update_def no_update_def)
      (simp add: requested_item_def Item_new_def shop_request_def shop_cat_def shop_sup_def)
qed

text \<open>The shop with the requested item in it, as the server stores it.\<close>

definition shop_item :: Item where
  "shop_item = requested_item 1 2 0 shop_request"

definition shop_row :: row where
  "shop_row = (item_cells (item_params shop_item))(''created_at'' \<mapsto> ''1970-01-01 00:00:00+00'',
     ''updated_at'' \<mapsto> ''1970-01-01 00:00:00+00'')"

definition stocked_shop :: "Server Backend" where
  "stocked_shop = empty_shop\<lparr>bk_db := (bk_db empty_shop)\<lparr>srv_items := [(to_string (generate 1 2), shop_row)]\<rparr>\<rparr>"

lemma shop_item_facts: "item_ok shop_item" "item_id shop_item = generate 1 2" "created_at shop_item = 0"
    "shop_item\<lparr>created_at := 0, updated_at := 0\<rparr> = shop_item"
  using requested_item_ok[OF shop_request_valid, of 1 2 0] by (simp_all add: shop_item_def)
    (simp_all add: requested_item_def Item_new_def)

lemma shop_row_holds: "row_holds server_pq shop_item shop_row"
  unfolding shop_row_def using shop_item_facts(1)
  by (intro server_row_holds) (simp_all add: holds_time_def epoch_text)

lemma row_to_item_shop: "row_to_item server_pq shop_row = Inr shop_item"
proof -
  have "shop_row ''created_at'' = Some ''1970-01-01 00:00:00+00''" "shop_row ''updated_at'' = Some ''1970-01-01 00:00:00+00''"
    by (simp_all add: shop_row_def)
  then show ?thesis
    using row_to_item_holds[OF shop_row_holds shop_item_facts(1)] shop_item_facts(4)
    by (simp add: read_time_def epoch_text)
qed

lemma server_rows_stocked: "server_rows (bk_db stocked_shop) = [to_string (item_id shop_item) \<mapsto> shop_row]"
  by (simp add: server_rows_def stocked_shop_def shop_item_facts(2))

lemma no_items: "items_of pq (\<lambda>_. None) = (\<lambda>_. None)"
  by (simp add: items_of_def fun_eq_iff)

lemma stocked_shop_rows:
  "rows_ok server_pq (server_rows (bk_db stocked_shop))"
  "items_of server_pq (server_rows (bk_db stocked_shop)) = [item_id shop_item \<mapsto> shop_item]"
proof -
  have "rows_ok server_pq (\<lambda>_. None)" "sku_unused (\<lambda>_. None) (to_string (item_id shop_item)) (sku shop_item)"
    by (simp_all add: rows_ok_def sku_unused_def)
  from items_of_insert[OF this(1) shop_row_holds shop_item_facts(1) row_to_item_shop this(2)]
  show "rows_ok server_pq (server_rows (bk_db stocked_shop))"
    "items_of server_pq (server_rows (bk_db stocked_shop)) = [item_id shop_item \<mapsto> shop_item]"
    by (simp_all add: server_rows_stocked no_items)
qed

lemma stocked_shop_item: "pg_table server_pq server_rows stocked_shop (generate 1 2) = Some shop_item"
  using stocked_shop_rows(2) shop_item_facts(2) by (simp add: pg_table_def)

lemma stocked_shop_ready: "shop_ready stocked_shop"
  using empty_shop_ready stocked_shop_rows(1)
  by (simp add: pg_ready_def stocked_shop_def server_up_def)

theorem update_stored_item_witness:
  "\<exists>j s'. update_execute (pg_item_repo server_pq) 9 shop_update stocked_shop = Some (Inr j, s') \<and> qty (stock j) = 75"
proof -
  have v: "update_valid shop_update" and k: "ur_id shop_update = generate 1 2"
    by (simp_all add: shop_update_def no_update_def update_valid_def)
  have "shop_storable (updated_item shop_update 9 shop_item)"
    using shop_item_facts(3) by (intro updated_shop_item_storable) (simp_all add: shop_item_def)
  then obtain j s' where u: "update_execute (pg_item_repo server_pq) 9 shop_update stocked_shop = Some (Inr j, s')"
    "same_item (updated_item shop_update 9 shop_item) j"
    using update_stored_item[OF shop_server stocked_shop_ready, of shop_update 9] v k stocked_shop_item by auto
  have "stock (updated_item shop_update 9 shop_item) = stock j" using same_item_fields[OF u(2)] by simp
  then have "qty (stock j) = 75" by (simp add: updated_item_def shop_update_def no_update_def flip: \<open>stock _ = stock j\<close>)
  with u(1) show ?thesis by blast
qed

text \<open>C4: deleting a stored item removes it and only it, after which reading it is answered with not
  found; deleting an unknown identifier is answered with not found and changes nothing.\<close>

theorem delete_then_get:
  assumes "sql_items pq rows_of up view storable" and "pg_ready pq rows_of up s" and "is_valid k"
  shows "\<exists>r s1 m s2. delete_execute (pg_item_repo pq) k s = Some (r, s1) \<and>
    (if pg_table pq rows_of s k = None then \<exists>m. r = Inl (not_found m) else r = Inr ()) \<and>
    pg_table pq rows_of s1 = (pg_table pq rows_of s)(k := None) \<and>
    get_execute (pg_item_repo pq) k s1 = Some (Inl (not_found m), s2) \<and>
    pg_ready pq rows_of up s2 \<and> pg_table pq rows_of s2 = pg_table pq rows_of s1"
proof -
  note c = sql_items.contract[OF assms(1)]
  obtain r s1 where 1: "delete_execute (pg_item_repo pq) k s = Some (r, s1)" "pg_ready pq rows_of up s1"
    "if pg_table pq rows_of s k = None then (\<exists>m. r = Inl (not_found m)) \<and> pg_table pq rows_of s1 = pg_table pq rows_of s
     else r = Inr () \<and> pg_table pq rows_of s1 = (pg_table pq rows_of s)(k := None)"
    using item_repository.delete_stored[OF c assms(2,3)] by blast
  then have t: "pg_table pq rows_of s1 = (pg_table pq rows_of s)(k := None)"
    by (auto simp: fun_upd_idem split: if_splits)
  obtain r' s2 m where "get_execute (pg_item_repo pq) k s1 = Some (r', s2)" "pg_ready pq rows_of up s2"
    "pg_table pq rows_of s2 = pg_table pq rows_of s1" "r' = Inl (not_found m)"
    using item_repository.get_stored[OF c 1(2) assms(3)] t by auto
  with 1 t show ?thesis by (auto split: if_splits)
qed

theorem delete_then_get_witness:
  "\<exists>s1 m s2. delete_execute (pg_item_repo server_pq) (generate 1 2) stocked_shop = Some (Inr (), s1) \<and>
     get_execute (pg_item_repo server_pq) (generate 1 2) s1 = Some (Inl (not_found m), s2)"
  using delete_then_get[OF shop_server stocked_shop_ready generate_valid, of 1 2] stocked_shop_item by auto

section \<open>Listing\<close>

text \<open>C13: a page within range is answered with its share of the selected items, the youngest first: the
  items after those of the earlier pages, as many as a page holds; the total is the number of selected
  items and the page count that number over the page size, rounded up.\<close>

theorem list_page:
  assumes "sql_listing pq rows_of up view storable ilike stamp text_ok" and "pg_ready pq rows_of up s"
    and "filter_readable text_ok f" and "1 \<le> sint (f_page f)" and "1 \<le> sint (f_page_size f)"
    and "(sint (f_page f) - 1) * sint (f_page_size f) < 2 ^ 31" and "card (dom (pg_table pq rows_of s)) < 2 ^ 31"
  shows "\<exists>ks rs s'. list_execute (pg_item_repo pq) f s = Some (Inr rs, s') \<and>
    pg_ready pq rows_of up s' \<and> pg_table pq rows_of s' = pg_table pq rows_of s \<and>
    listing (pg_table pq rows_of s) (item_matches ilike f) (pg_born rows_of stamp s) ks \<and>
    rs_items rs = map (the \<circ> pg_table pq rows_of s) (take (nat (sint (f_page_size f)))
      (drop (nat ((sint (f_page f) - 1) * sint (f_page_size f))) ks)) \<and>
    sint (rs_total_count rs) = int (length ks) \<and> rs_page rs = f_page f \<and> rs_page_size rs = f_page_size f \<and>
    (\<exists>tp. rs_total_pages rs = Some tp \<and>
       sint tp = (int (length ks) + sint (f_page_size f) - 1) div sint (f_page_size f))"
  by (rule listing_repository.list_page_in_range[OF sql_listing.listing_contract[OF assms(1)] assms(2-7)])

lemma shop_listing: "sql_listing server_pq server_rows (server_up [shop_cat] [shop_sup]) (\<lambda>d. d) shop_storable
  server_ilike stamp_of (\<lambda>_. True)"
  by (rule lister.sql_listing_axioms)

definition shop_search :: ItemFilter where
  "shop_search = ItemFilter_default\<lparr>f_search := Some ''test'', f_page_size := 5\<rparr>"

lemma stocked_shop_table: "pg_table server_pq server_rows stocked_shop = [generate 1 2 \<mapsto> shop_item]"
  using stocked_shop_rows(2) shop_item_facts(2) by (simp add: pg_table_def)

lemma shop_search_matches: "item_matches server_ilike shop_search shop_item"
proof -
  have "server_ilike ''Test Item'' ''%test%''" by code_simp
  then show ?thesis
    by (simp add: item_matches_def shop_search_def ItemFilter_default_def)
      (simp add: shop_item_def requested_item_def Item_new_def shop_request_def)
qed

lemma stocked_listing:
  assumes "item_matches server_ilike f shop_item"
    and "listing (pg_table server_pq server_rows stocked_shop) (item_matches server_ilike f) born ks"
  shows "ks = [generate 1 2]"
proof -
  have "set ks = {generate 1 2}" "distinct ks" using assms by (auto simp: listing_def stocked_shop_table)
  then show ?thesis by (cases ks) (auto dest: subset_singletonD)
qed

theorem list_page_witness:
  "\<exists>rs s'. list_execute (pg_item_repo server_pq) shop_search stocked_shop = Some (Inr rs, s') \<and>
     rs_items rs = [shop_item] \<and> sint (rs_total_count rs) = 1 \<and> rs_total_pages rs = Some 1"
proof -
  have f: "filter_readable (\<lambda>_. True) shop_search" "1 \<le> sint (f_page shop_search)" "1 \<le> sint (f_page_size shop_search)"
    "(sint (f_page shop_search) - 1) * sint (f_page_size shop_search) < 2 ^ 31"
    by (simp_all add: filter_readable_def readable_def shop_search_def ItemFilter_default_def)
  have "card (dom (pg_table server_pq server_rows stocked_shop)) < 2 ^ 31" by (simp add: stocked_shop_table)
  from list_page[OF shop_listing stocked_shop_ready f this] obtain ks rs s' tp where
    r: "list_execute (pg_item_repo server_pq) shop_search stocked_shop = Some (Inr rs, s')"
      "listing (pg_table server_pq server_rows stocked_shop) (item_matches server_ilike shop_search) (pg_born server_rows stamp_of stocked_shop) ks"
      "rs_items rs = map (the \<circ> pg_table server_pq server_rows stocked_shop) (take (nat (sint (f_page_size shop_search)))
        (drop (nat ((sint (f_page shop_search) - 1) * sint (f_page_size shop_search))) ks))"
      "sint (rs_total_count rs) = int (length ks)" "rs_total_pages rs = Some tp"
      "sint tp = (int (length ks) + sint (f_page_size shop_search) - 1) div sint (f_page_size shop_search)"
    by (elim exE conjE) (rule that)
  have "ks = [generate 1 2]" by (rule stocked_listing[OF shop_search_matches r(2)])
  moreover from this have "sint tp = sint (1 :: int32)" using r(6) by (simp add: shop_search_def ItemFilter_default_def)
  then have "tp = 1" by (simp only: signed_word_eqI)
  ultimately show ?thesis using r by (simp add: stocked_shop_table) (simp add: shop_search_def ItemFilter_default_def)
qed

section \<open>Failures of the database\<close>

text \<open>C14: when the insert statement fails, for instance on the unique constraint because another
  request stored the same stock keeping unit after the check, the caller gets a database error that
  carries the server's message, the database is unchanged, and the connection is back in the pool.\<close>

theorem save_sql_error:
  assumes "pool_ready (bk_pool s)" and "m_pool (bk_pool s) = c # cs" and "conn_open pq (bk_db s) c"
    and "work pq c (bk_db s) = Inr t"
    and "exec_sql pq sql_item_insert (item_params i @ [PText (format_iso8601 (created_at i)),
      PText (format_iso8601 (updated_at i))]) t = Inl (Sql_error w)"
  shows "save (pg_item_repo pq) i s =
    Some (Inl (database (''SQL error in save: '' @ w)), s\<lparr>bk_pool := (bk_pool s)\<lparr>m_pool := cs @ [c]\<rparr>\<rparr>)"
  using assms with_session_open[OF assms(1,2,3), of "txn_commit_first pq sql_item_insert (item_params i @
      [PText (format_iso8601 (created_at i)), PText (format_iso8601 (updated_at i))])
      (if_empty (database ''Failed to insert item'')) (first_item pq)" "Inl (Sql_error w)" "bk_db s"
      "sql_failure ''save''" "other_failure ''save''"]
  by (simp add: pg_item_repo_def pg_save_def session_def txn_commit_first_def sql_failure_def)

theorem save_sql_error_witness:
  "\<exists>s'. save (pg_item_repo server_pq) (sample_item\<lparr>category_id := Uuid_default\<rparr>) empty_shop =
     Some (Inl (database ''SQL error in save: constraint violation''), s')"
proof -
  let ?i = "sample_item\<lparr>category_id := Uuid_default\<rparr>"
  have "to_string Uuid_default \<noteq> shop_cat"
    unfolding shop_cat_def using to_string_inj by (fastforce simp: sample_item_def Item_new_def Uuid_default_def)
  then have "server_exec sql_item_insert (item_params ?i @ [PText (format_iso8601 (created_at ?i)),
      PText (format_iso8601 (updated_at ?i))]) (bk_db empty_shop) = Inl (Sql_error ''constraint violation'')"
    by (simp add: server_exec_def empty_shop_def cells_ok_def nth_append item_cells_simps Let_def)
  then show ?thesis
    using save_sql_error[of empty_shop 4 "[5]" server_pq "bk_db empty_shop" ?i "''constraint violation''"] empty_shop_ready
    by (simp add: pg_ready_def server_pq_def) (simp add: empty_shop_def)
qed

end
