(* ===== verification/ItemApi.thy ===== *)
theory ItemApi
  imports Dto Inventory
begin

text \<open>
  \<^verbatim>\<open>src/api/controllers/item_controller.cpp\<close>: the HTTP handlers for items. A handler gives the
  response passed to the callback, or the exception that leaves it. The JSON library, \<^verbatim>\<open>ctime\<close>, the
  clock and the random draws are arguments; \<open>ub\<close> stands for the number a page count has when the
  program's computation of it is undefined.
\<close>

section \<open>Handlers\<close>

text \<open>The query string as a filter. \<^verbatim>\<open>stoi\<close>, \<^verbatim>\<open>stoll\<close> and \<^verbatim>\<open>from_string\<close> may raise.\<close>

definition status_param :: "string \<Rightarrow> ItemStatus option \<Rightarrow> ItemStatus option" where
  "status_param s old =
     (if s = ''active'' then Some kActive
      else if s = ''inactive'' then Some kInactive
      else if s = ''discontinued'' then Some kDiscontinued
      else if s = ''out_of_stock'' then Some kOutOfStock
      else old)"

definition read_param :: "(string \<Rightarrow> string option) \<Rightarrow> string \<Rightarrow> (string \<Rightarrow> exn + 'a) \<Rightarrow> 'b \<Rightarrow> ('a \<Rightarrow> 'b) \<Rightarrow> exn + 'b" where
  "read_param params k conv dflt f = (case params k of None \<Rightarrow> Inr dflt | Some x \<Rightarrow> map_sum id f (conv x))"

definition filter_of_params :: "(string \<Rightarrow> string option) \<Rightarrow> exn + ItemFilter" where
  "filter_of_params params =
     (let f = ItemFilter_default;
          f = (case params ''search'' of None \<Rightarrow> f | Some x \<Rightarrow> f\<lparr>f_search := Some x\<rparr>)
      in
      sum_bind (read_param params ''category_id'' from_string f (\<lambda>u. f\<lparr>f_category_id := Some u\<rparr>)) (\<lambda>f.
      let f = (case params ''status'' of None \<Rightarrow> f | Some x \<Rightarrow> f\<lparr>f_status := status_param x (f_status f)\<rparr>)
      in
      sum_bind (read_param params ''page'' stoi f (\<lambda>n. f\<lparr>f_page := n\<rparr>)) (\<lambda>f.
      sum_bind (read_param params ''page_size'' stoi f (\<lambda>n. f\<lparr>f_page_size := n\<rparr>)) (\<lambda>f.
      sum_bind (read_param params ''min_stock'' stoll f (\<lambda>n. f\<lparr>f_min_stock := Some n\<rparr>)) (\<lambda>f.
      read_param params ''max_price'' stoll f (\<lambda>n. f\<lparr>f_max_price := Some n\<rparr>))))))"

definition item_json :: "'j json_lib \<Rightarrow> (int \<Rightarrow> string) \<Rightarrow> Item \<Rightarrow> 'j" where
  "item_json lib ctime i = response_to_json lib (item_to_response ctime i)"

definition getAllItems ::
  "'j json_lib \<Rightarrow> (int \<Rightarrow> string) \<Rightarrow> int32 \<Rightarrow> 's ItemRepository \<Rightarrow> 'j HttpRequest \<Rightarrow> ('s, exn + 'j HttpResponse) op" where
  "getAllItems lib ctime ub repo req =
     (case filter_of_params (rq_params req) of
        Inl x \<Rightarrow> op_return (Inl x)
      | Inr f \<Rightarrow>
          op_bind (list_execute repo f) (\<lambda>r.
            op_return (Inr (case r of
              Inl e \<Rightarrow> make_error_response lib 500 ''Internal Server Error'' (err_message e)
            | Inr rs \<Rightarrow> make_json_response (j_object lib
                [(''items'', j_array lib (map (item_json lib ctime) (rs_items rs))),
                 (''total_count'', j_int lib (sint (rs_total_count rs))),
                 (''page'', j_int lib (sint (rs_page rs))),
                 (''page_size'', j_int lib (sint (rs_page_size rs))),
                 (''total_pages'', j_int lib (sint (case rs_total_pages rs of None \<Rightarrow> ub | Some n \<Rightarrow> n)))])))))"

definition bad_json :: "'j json_lib \<Rightarrow> 'j HttpResponse" where
  "bad_json lib = make_error_response lib 400 ''Bad Request'' ''Request body must be valid JSON''"

definition bad_body :: "'j json_lib \<Rightarrow> exn \<Rightarrow> 'j HttpResponse" where
  "bad_body lib x = make_error_response lib 400 ''Bad Request'' (''Invalid request body: '' @ what x)"

definition bad_id :: "'j json_lib \<Rightarrow> 'j HttpResponse" where
  "bad_id lib = make_error_response lib 400 ''Bad Request'' ''Invalid item ID format''"

definition createItem ::
  "'j json_lib \<Rightarrow> (int \<Rightarrow> string) \<Rightarrow> 's ItemRepository \<Rightarrow> uint64 \<Rightarrow> uint64 \<Rightarrow> time_point \<Rightarrow> 'j HttpRequest \<Rightarrow>
   ('s, exn + 'j HttpResponse) op" where
  "createItem lib ctime repo r0 r1 now req =
     (case rq_json req of
        None \<Rightarrow> op_return (Inr (bad_json lib))
      | Some j \<Rightarrow>
     (case create_from_json lib j of
        Inl x \<Rightarrow> op_return (Inr (bad_body lib x))
      | Inr c \<Rightarrow>
     (case validate_create c of
        Inl e \<Rightarrow> op_return (Inr (make_error_response lib 422 ''Validation Error'' (err_message e)))
      | Inr _ \<Rightarrow>
          op_bind (create_execute repo r0 r1 now (to_create_request c)) (\<lambda>r.
            op_return (Inr (case r of
              Inl e \<Rightarrow>
                make_error_response lib
                  (if err_code e = kConflict then 409 else if err_code e = kValidationError then 422 else 500)
                  ''Error'' (err_message e)
            | Inr i \<Rightarrow> (make_json_response (item_json lib ctime i))\<lparr>rp_status := 201\<rparr>))))))"

definition getItemById ::
  "'j json_lib \<Rightarrow> (int \<Rightarrow> string) \<Rightarrow> 's ItemRepository \<Rightarrow> string \<Rightarrow> ('s, exn + 'j HttpResponse) op" where
  "getItemById lib ctime repo id_text =
     (case from_string id_text of
        Inl x \<Rightarrow> op_return (Inl x)
      | Inr k \<Rightarrow>
          if \<not> is_valid k then op_return (Inr (bad_id lib))
          else op_bind (get_execute repo k) (\<lambda>r.
            op_return (Inr (case r of
              Inl e \<Rightarrow>
                if err_code e = kNotFound then make_error_response lib 404 ''Not Found'' ''Item not found''
                else make_error_response lib 500 ''Internal Server Error'' (err_message e)
            | Inr i \<Rightarrow> make_json_response (item_json lib ctime i)))))"

definition updateItem ::
  "'j json_lib \<Rightarrow> (int \<Rightarrow> string) \<Rightarrow> 's ItemRepository \<Rightarrow> time_point \<Rightarrow> 'j HttpRequest \<Rightarrow> string \<Rightarrow>
   ('s, exn + 'j HttpResponse) op" where
  "updateItem lib ctime repo now req id_text =
     (case from_string id_text of
        Inl x \<Rightarrow> op_return (Inl x)
      | Inr k \<Rightarrow>
          if \<not> is_valid k then op_return (Inr (bad_id lib))
          else
     (case rq_json req of
        None \<Rightarrow> op_return (Inr (bad_json lib))
      | Some j \<Rightarrow>
     (case update_from_json lib j of
        Inl x \<Rightarrow> op_return (Inr (bad_body lib x))
      | Inr u \<Rightarrow>
     (case validate_update u of
        Inl e \<Rightarrow> op_return (Inr (make_error_response lib 422 ''Validation Error'' (err_message e)))
      | Inr _ \<Rightarrow>
          op_bind (update_execute repo now (to_update_request k u)) (\<lambda>r.
            op_return (Inr (case r of
              Inl e \<Rightarrow>
                make_error_response lib
                  (if err_code e = kNotFound then 404 else if err_code e = kValidationError then 422 else 500)
                  ''Error'' (err_message e)
            | Inr i \<Rightarrow> make_json_response (item_json lib ctime i))))))))"

definition deleteItem ::
  "'j json_lib \<Rightarrow> 's ItemRepository \<Rightarrow> string \<Rightarrow> ('s, exn + 'j HttpResponse) op" where
  "deleteItem lib repo id_text =
     (case from_string id_text of
        Inl x \<Rightarrow> op_return (Inl x)
      | Inr k \<Rightarrow>
          if \<not> is_valid k then op_return (Inr (bad_id lib))
          else op_bind (delete_execute repo k) (\<lambda>r.
            op_return (Inr (case r of
              Inl e \<Rightarrow> make_error_response lib (if err_code e = kNotFound then 404 else 500) ''Error'' (err_message e)
            | Inr _ \<Rightarrow> no_content))))"

text \<open>The handler of \<^verbatim>\<open>PATCH\<close> repeats the text of the one of \<^verbatim>\<open>PUT\<close>.\<close>

definition patchItem ::
  "'j json_lib \<Rightarrow> (int \<Rightarrow> string) \<Rightarrow> 's ItemRepository \<Rightarrow> time_point \<Rightarrow> 'j HttpRequest \<Rightarrow> string \<Rightarrow>
   ('s, exn + 'j HttpResponse) op" where
  "patchItem lib ctime repo now req id_text =
     (case from_string id_text of
        Inl x \<Rightarrow> op_return (Inl x)
      | Inr k \<Rightarrow>
          if \<not> is_valid k then op_return (Inr (bad_id lib))
          else
     (case rq_json req of
        None \<Rightarrow> op_return (Inr (bad_json lib))
      | Some j \<Rightarrow>
     (case update_from_json lib j of
        Inl x \<Rightarrow> op_return (Inr (bad_body lib x))
      | Inr u \<Rightarrow>
     (case validate_update u of
        Inl e \<Rightarrow> op_return (Inr (make_error_response lib 422 ''Validation Error'' (err_message e)))
      | Inr _ \<Rightarrow>
          op_bind (update_execute repo now (to_update_request k u)) (\<lambda>r.
            op_return (Inr (case r of
              Inl e \<Rightarrow>
                make_error_response lib
                  (if err_code e = kNotFound then 404 else if err_code e = kValidationError then 422 else 500)
                  ''Error'' (err_message e)
            | Inr i \<Rightarrow> make_json_response (item_json lib ctime i))))))))"

section \<open>Properties\<close>

text \<open>Creating over HTTP: an invalid body is answered 422 before the database is asked, a stock
  keeping unit in use 409, and otherwise the item is stored and answered 201 with the stored item; the
  table changes in the last case only.\<close>

theorem create_item_http:
  assumes "sql_items pq rows_of up view storable" and "pg_ready pq rows_of up s"
    and "rq_json req = Some j" and "create_from_json lib j = Inr c"
    and "storable (requested_item r0 r1 now (to_create_request c))" and "pg_table pq rows_of s (generate r0 r1) = None"
  shows "\<exists>resp s'. createItem lib ctime (pg_item_repo pq) r0 r1 now req s = Some (Inr resp, s') \<and>
    (if validate_create c \<noteq> Inr () then rp_status resp = 422 \<and> s' = s
     else if \<exists>k i. pg_table pq rows_of s k = Some i \<and> sku i = ci_sku c
     then rp_status resp = 409 \<and> pg_table pq rows_of s' = pg_table pq rows_of s
     else rp_status resp = 201 \<and> (\<exists>i. same_item (requested_item r0 r1 now (to_create_request c)) i \<and>
       rp_body resp = Some (item_json lib ctime i) \<and>
       pg_table pq rows_of s' = (pg_table pq rows_of s)(generate r0 r1 \<mapsto> i)))"
proof (cases "validate_create c")
  case (Inl e)
  then show ?thesis using assms(3,4) by (simp add: createItem_def)
next
  case (Inr u)
  then have v: "validate_create c = Inr ()" by simp
  then have valid: "create_valid (to_create_request c)" using validate_create_iff by blast
  have sk: "cr_sku (to_create_request c) = ci_sku c" by (simp add: to_create_request_def)
  note ct = sql_items.contract[OF assms(1)]
  show ?thesis
  proof (cases "\<exists>k i. pg_table pq rows_of s k = Some i \<and> sku i = ci_sku c")
    case True
    then obtain k i where "pg_table pq rows_of s k = Some i" "sku i = cr_sku (to_create_request c)" using sk by auto
    from item_repository.create_duplicate[OF ct assms(2) valid this, of r0 r1 now]
    show ?thesis using True v assms(3,4) by (auto simp: createItem_def make_json_response_def)
  next
    case False
    then have "\<forall>k i. pg_table pq rows_of s k = Some i \<longrightarrow> sku i \<noteq> cr_sku (to_create_request c)" using sk by auto
    from item_repository.create_fresh[OF ct assms(2) valid assms(5,6) this]
    obtain i s' where "create_execute (pg_item_repo pq) r0 r1 now (to_create_request c) s = Some (Inr i, s')"
      "same_item (requested_item r0 r1 now (to_create_request c)) i"
      "pg_table pq rows_of s' = (pg_table pq rows_of s)(generate r0 r1 \<mapsto> i)" by blast
    then show ?thesis using False v assms(3,4) by (auto simp: createItem_def make_json_response_def)
  qed
qed

definition shop_body :: CreateItemRequest where
  "shop_body = \<lparr>ci_sku = ''SKU-100'', ci_name = ''Test Item'', ci_description = ''Description'',
     ci_category_id = category_id sample_item, ci_supplier_id = supplier_id sample_item,
     ci_unit_price_amount = 50000, ci_currency = ''IDR'', ci_stock_quantity = 100,
     ci_min_stock_quantity = 10, ci_stock_unit = ''pcs''\<rparr>"

lemma shop_body_request: "to_create_request shop_body = shop_request"
  by (simp add: to_create_request_def shop_body_def shop_request_def)

definition shop_ctime :: "int \<Rightarrow> string" where
  "shop_ctime _ = ''Thu Jan  1 00:00:00 1970'' @ [CHR 0x0A]"

definition request_of :: "JsonValue \<Rightarrow> JsonValue HttpRequest" where
  "request_of j = \<lparr>rq_json = Some j, rq_params = (\<lambda>_. None), rq_header = (\<lambda>_. [])\<rparr>"

theorem create_item_http_witness:
  "\<exists>resp s'. createItem std_json shop_ctime (pg_item_repo server_pq) 1 2 0 (request_of (create_to_json std_json shop_body)) empty_shop
     = Some (Inr resp, s') \<and> rp_status resp = 201"
proof -
  have v: "validate_create shop_body = Inr ()"
    using validate_create_iff[of shop_body] shop_request_valid shop_body_request by (simp add: shop_body_def)
  have "create_from_json std_json (create_to_json std_json shop_body) = Inr shop_body" by (rule std.create_roundtrip)
  from create_item_http[OF shop_server empty_shop_ready _ this, of "request_of (create_to_json std_json shop_body)" 1 2 0 shop_ctime]
  show ?thesis using v shop_request_storable[of 0 1 2] by (auto simp: request_of_def shop_body_request)
qed

text \<open>Reading over HTTP: 200 with the stored item, 404 for an unknown identifier, 400 for text that
  is no identifier; the table is not changed.\<close>

theorem get_item_http:
  assumes "sql_items pq rows_of up view storable" and "pg_ready pq rows_of up s" and "from_string x = Inr k"
  shows "\<exists>resp s'. getItemById lib ctime (pg_item_repo pq) x s = Some (Inr resp, s') \<and>
    pg_table pq rows_of s' = pg_table pq rows_of s \<and>
    (if \<not> is_valid k then rp_status resp = 400
     else case pg_table pq rows_of s k of
         None \<Rightarrow> rp_status resp = 404
       | Some i \<Rightarrow> rp_status resp = 200 \<and> rp_body resp = Some (item_json lib ctime i))"
proof (cases "is_valid k")
  case True
  obtain r s' where "get_execute (pg_item_repo pq) k s = Some (r, s')" "pg_table pq rows_of s' = pg_table pq rows_of s"
    "case pg_table pq rows_of s k of Some i \<Rightarrow> r = Inr i | None \<Rightarrow> \<exists>m. r = Inl (not_found m)"
    using item_repository.get_stored[OF sql_items.contract[OF assms(1)] assms(2) True] by blast
  then show ?thesis using True assms(3)
    by (cases "pg_table pq rows_of s k") (auto simp: getItemById_def make_json_response_def)
next
  case False
  then show ?thesis using assms(3) by (simp add: getItemById_def bad_id_def)
qed

theorem get_item_http_witness:
  "\<exists>resp s'. getItemById std_json shop_ctime (pg_item_repo server_pq) (to_string (generate 1 2)) stocked_shop = Some (Inr resp, s') \<and>
     rp_body resp = Some (item_json std_json shop_ctime shop_item)"
  using get_item_http[OF shop_server stocked_shop_ready from_to_string, of std_json shop_ctime "generate 1 2"]
  by (auto simp: stocked_shop_item generate_valid)


definition page_request :: "string \<Rightarrow> JsonValue HttpRequest" where
  "page_request x = \<lparr>rq_json = None, rq_params = [''page'' \<mapsto> x], rq_header = (\<lambda>_. [])\<rparr>"


text \<open>The answer of \<^verbatim>\<open>PUT\<close> and \<^verbatim>\<open>PATCH\<close> to what the use case gives.\<close>

definition update_answer :: "'j json_lib \<Rightarrow> (int \<Rightarrow> string) \<Rightarrow> Item Result \<Rightarrow> 'j HttpResponse" where
  "update_answer lib ctime r = (case r of
      Inl e \<Rightarrow> make_error_response lib
        (if err_code e = kNotFound then 404 else if err_code e = kValidationError then 422 else 500) ''Error'' (err_message e)
    | Inr i \<Rightarrow> make_json_response (item_json lib ctime i))"

lemma updateItem_run:
  assumes "from_string x = Inr k" and "is_valid k" and "rq_json req = Some j" and "update_from_json lib j = Inr u"
  shows "updateItem lib ctime repo now req x s =
    (case validate_update u of
       Inl e \<Rightarrow> Some (Inr (make_error_response lib 422 ''Validation Error'' (err_message e)), s)
     | Inr _ \<Rightarrow> op_bind (update_execute repo now (to_update_request k u)) (\<lambda>r. op_return (Inr (update_answer lib ctime r))) s)"
  using assms by (simp add: updateItem_def update_answer_def split: sum.split)

lemma update_outcome:
  assumes "sql_items pq rows_of up view storable" and "pg_ready pq rows_of up s" and "validate_update u = Inr ()"
    and "ui_status u = None" and "\<forall>i. pg_table pq rows_of s k = Some i \<longrightarrow> storable (updated_item (to_update_request k u) now i)"
  shows "\<exists>r s'. update_execute (pg_item_repo pq) now (to_update_request k u) s = Some (r, s') \<and>
    (case pg_table pq rows_of s k of
       None \<Rightarrow> (\<exists>e. r = Inl e \<and> err_code e = kNotFound) \<and> pg_table pq rows_of s' = pg_table pq rows_of s
     | Some i \<Rightarrow>
         if ui_name u = Some []
         then (\<exists>e. r = Inl e \<and> err_code e = kValidationError) \<and> pg_table pq rows_of s' = pg_table pq rows_of s
         else \<exists>i'. r = Inr i' \<and> same_item (updated_item (to_update_request k u) now i) i' \<and>
           item_status i' = item_status i \<and> pg_table pq rows_of s' = (pg_table pq rows_of s)(k \<mapsto> i'))"
proof -
  have k: "ur_id (to_update_request k u) = k" by (simp add: to_update_request_def)
  have valid: "update_valid (to_update_request k u) \<longleftrightarrow> ui_name u \<noteq> Some []"
    using assms(3) unfolding validate_update_iff not_negative update_valid_def by (simp add: to_update_request_def)
  have st: "item_status (updated_item (to_update_request k u) now i) = item_status i" for i
    using assms(4) by (simp add: updated_item_def to_update_request_def)
  note ct = sql_items.contract[OF assms(1)]
  show ?thesis
  proof (cases "pg_table pq rows_of s k")
    case None
    with item_repository.update_missing[OF ct assms(2), of "to_update_request k u" now] k show ?thesis by auto
  next
    case (Some i)
    note us = item_repository.update_stored[OF ct assms(2), of "to_update_request k u" i now, unfolded k, OF Some]
    show ?thesis
    proof (cases "ui_name u = Some []")
      case True
      with us Some valid show ?thesis by auto
    next
      case False
      then obtain i' s' where i': "update_execute (pg_item_repo pq) now (to_update_request k u) s = Some (Inr i', s')"
        "same_item (updated_item (to_update_request k u) now i) i'" "pg_table pq rows_of s' = (pg_table pq rows_of s)(k \<mapsto> i')"
        using us valid assms(5) Some by auto
      have "item_status i' = item_status i" using same_item_fields[OF i'(2)] st by simp
      then show ?thesis using Some False i' by auto
    qed
  qed
qed

text \<open>\<^verbatim>\<open>PUT\<close> and \<^verbatim>\<open>PATCH\<close> do the same: 422 for negative amounts or an empty name, 404 for an
  unknown identifier, else 200 with the item changed in exactly the given fields. A status in the body
  is ignored: the stored status stays.\<close>

theorem update_item_http:
  assumes "sql_items pq rows_of up view storable" and "pg_ready pq rows_of up s"
    and "from_string x = Inr k" and "is_valid k" and "rq_json req = Some j" and "update_from_json lib j = Inr u"
    and "\<forall>i. pg_table pq rows_of s k = Some i \<longrightarrow> storable (updated_item (to_update_request k u) now i)"
  shows "patchItem lib ctime (pg_item_repo pq) now req x s = updateItem lib ctime (pg_item_repo pq) now req x s \<and>
    (\<exists>resp s'. updateItem lib ctime (pg_item_repo pq) now req x s = Some (Inr resp, s') \<and>
      (if validate_update u \<noteq> Inr () then rp_status resp = 422 \<and> s' = s
       else case pg_table pq rows_of s k of
           None \<Rightarrow> rp_status resp = 404 \<and> pg_table pq rows_of s' = pg_table pq rows_of s
         | Some i \<Rightarrow>
             if ui_name u = Some [] then rp_status resp = 422 \<and> pg_table pq rows_of s' = pg_table pq rows_of s
             else rp_status resp = 200 \<and> (\<exists>i'. same_item (updated_item (to_update_request k u) now i) i' \<and>
               item_status i' = item_status i \<and> rp_body resp = Some (item_json lib ctime i') \<and>
               pg_table pq rows_of s' = (pg_table pq rows_of s)(k \<mapsto> i'))))"
proof -
  have same: "patchItem lib ctime (pg_item_repo pq) now req x s = updateItem lib ctime (pg_item_repo pq) now req x s"
    by (simp only: patchItem_def updateItem_def)
  have st: "ui_status u = None" using assms(6) by (auto simp: update_from_json_def sum_bind_eq_Inr)
  note run = updateItem_run[OF assms(3-6), of ctime "pg_item_repo pq" now s]
  show ?thesis
  proof (cases "validate_update u")
    case (Inl e)
    with run same show ?thesis by simp
  next
    case (Inr z)
    then have v: "validate_update u = Inr ()" by simp
    from update_outcome[OF assms(1,2) v st assms(7)] obtain r s' where
      r: "update_execute (pg_item_repo pq) now (to_update_request k u) s = Some (r, s')"
        "case pg_table pq rows_of s k of
           None \<Rightarrow> (\<exists>e. r = Inl e \<and> err_code e = kNotFound) \<and> pg_table pq rows_of s' = pg_table pq rows_of s
         | Some i \<Rightarrow>
             if ui_name u = Some []
             then (\<exists>e. r = Inl e \<and> err_code e = kValidationError) \<and> pg_table pq rows_of s' = pg_table pq rows_of s
             else \<exists>i'. r = Inr i' \<and> same_item (updated_item (to_update_request k u) now i) i' \<and>
               item_status i' = item_status i \<and> pg_table pq rows_of s' = (pg_table pq rows_of s)(k \<mapsto> i')" by blast
    have "updateItem lib ctime (pg_item_repo pq) now req x s = Some (Inr (update_answer lib ctime r), s')"
      using run r(1) v by simp
    then show ?thesis using same v r(2)
      by (cases "pg_table pq rows_of s k") (auto simp: update_answer_def make_json_response_def split: if_splits)
  qed
qed

theorem update_item_http_witness:
  "\<exists>resp s'. updateItem std_json shop_ctime (pg_item_repo server_pq) 9 (request_of (update_to_json std_json body_update))
     (to_string (generate 1 2)) stocked_shop = Some (Inr resp, s') \<and> rp_status resp = 200"
proof -
  let ?u = "body_update\<lparr>ui_status := None\<rparr>"
  have v: "validate_update ?u = Inr ()" "ui_name ?u \<noteq> Some []"
    by (simp_all add: validate_update_def body_update_def negative_def word_sless_alt)
  have f: "update_from_json std_json (update_to_json std_json body_update) = Inr ?u" by (rule std.update_roundtrip)
  have "item_ok (updated_item (to_update_request k ?u) 9 shop_item)" for k
    by (rule updated_item_ok[OF shop_item_facts(1)]) (simp add: update_valid_def to_update_request_def body_update_def)
  then have "\<forall>i. pg_table server_pq server_rows stocked_shop (generate 1 2) = Some i \<longrightarrow>
      shop_storable (updated_item (to_update_request (generate 1 2) ?u) 9 i)"
    using shop_item_facts(3)
    by (simp add: stocked_shop_item server_storable_def updated_item_def to_update_request_def body_update_def)
      (simp add: shop_item_def requested_item_def Item_new_def shop_request_def shop_cat_def shop_sup_def)
  from update_item_http[OF shop_server stocked_shop_ready from_to_string generate_valid _ f this,
      of "request_of (update_to_json std_json body_update)" shop_ctime]
  show ?thesis using v by (auto simp: request_of_def stocked_shop_item)
qed

text \<open>Deleting over HTTP: 204 and the item is gone, 404 for an unknown identifier, 400 for text
  that is no identifier.\<close>

theorem delete_item_http:
  assumes "sql_items pq rows_of up view storable" and "pg_ready pq rows_of up s" and "from_string x = Inr k"
  shows "\<exists>resp s'. deleteItem lib (pg_item_repo pq) x s = Some (Inr resp, s') \<and>
    (if \<not> is_valid k then rp_status resp = 400 \<and> s' = s
     else rp_status resp = (if pg_table pq rows_of s k = None then 404 else 204) \<and>
       pg_table pq rows_of s' = (pg_table pq rows_of s)(k := None))"
proof (cases "is_valid k")
  case True
  obtain r s' where "delete_execute (pg_item_repo pq) k s = Some (r, s')"
    "if pg_table pq rows_of s k = None then (\<exists>m. r = Inl (not_found m)) \<and> pg_table pq rows_of s' = pg_table pq rows_of s
     else r = Inr () \<and> pg_table pq rows_of s' = (pg_table pq rows_of s)(k := None)"
    using item_repository.delete_stored[OF sql_items.contract[OF assms(1)] assms(2) True] by blast
  then show ?thesis using True assms(3) by (auto simp: deleteItem_def fun_upd_idem split: if_splits)
next
  case False
  then show ?thesis using assms(3) by (simp add: deleteItem_def bad_id_def)
qed

theorem delete_item_http_witness:
  "\<exists>resp s'. deleteItem std_json (pg_item_repo server_pq) (to_string (generate 1 2)) stocked_shop = Some (Inr resp, s') \<and>
     rp_status resp = 204"
  using delete_item_http[OF shop_server stocked_shop_ready from_to_string, of std_json "generate 1 2"]
  by (auto simp: stocked_shop_item generate_valid)

text \<open>The query strings the listing can read.\<close>

definition params_readable :: "(string \<Rightarrow> string option) \<Rightarrow> bool" where
  "params_readable params \<longleftrightarrow>
     list_all (\<lambda>(k, ok). case params k of None \<Rightarrow> True | Some x \<Rightarrow> ok x)
       [(''category_id'', \<lambda>x. \<not> id_raises x), (''page'', fits_signed 32), (''page_size'', fits_signed 32),
        (''min_stock'', fits_signed 64), (''max_price'', fits_signed 64)]"

lemma read_param_fails:
  "(\<exists>e. read_param params k conv d f = Inl e) \<longleftrightarrow> (\<exists>x e. params k = Some x \<and> conv x = Inl e)"
  by (auto simp: read_param_def map_sum_def split: option.split sum.split)

lemma sum_bind_fails: "(\<exists>e. sum_bind r f = Inl e) \<longleftrightarrow> (\<exists>e. r = Inl e) \<or> (\<exists>x. r = Inr x \<and> (\<exists>e. f x = Inl e))"
  by (cases r) (auto simp: sum_bind_def)

lemma read_param_cases:
  obtains e where "read_param params k conv d f = Inl e" | x where "read_param params k conv d f = Inr x"
  by (cases "read_param params k conv d f") auto

lemma filter_of_params_fails: "(\<exists>e. filter_of_params params = Inl e) \<longleftrightarrow> \<not> params_readable params"
proof -
  have id: "(\<exists>e. from_string x = Inl e) \<longleftrightarrow> id_raises x" for x
    using from_string_raises[of x] by (auto split: if_splits)
  have chain: "(\<exists>e. sum_bind (read_param params k conv d f) g = Inl e) \<longleftrightarrow>
      (\<exists>x e. params k = Some x \<and> conv x = Inl e) \<or> P"
    if "\<And>v. (\<exists>e. g v = Inl e) \<longleftrightarrow> P" for k conv d f g P
    using that read_param_fails[of params k conv d f] unfolding sum_bind_fails
    by (cases "read_param params k conv d f") auto
  show ?thesis
    unfolding filter_of_params_def Let_def
    by (subst chain, subst chain, subst chain, subst chain, rule read_param_fails, rule refl, rule refl, rule refl)
      (auto simp: params_readable_def id stoi_fails stoll_fails split: option.splits)
qed

text \<open>C26: the handlers of a single item let the exception of \<^verbatim>\<open>stoull\<close> out exactly for the identifiers of 32
  characters, dashes not counted, of which a half does not begin with a hexadecimal number, and the state is
  as before; an identifier of any other length is answered 400 without one. The listing lets an exception out
  exactly when a category is such an identifier, or a page, a page size or an amount is not a number that fits.\<close>

theorem handlers_raise:
  "(getItemById lib ctime repo x s = Some (Inl e, s') \<longleftrightarrow> id_raises x \<and> e = Invalid_argument ''stoull'' \<and> s' = s) \<and>
   (deleteItem lib repo x s = Some (Inl e, s') \<longleftrightarrow> id_raises x \<and> e = Invalid_argument ''stoull'' \<and> s' = s) \<and>
   (updateItem lib ctime repo now req x s = Some (Inl e, s') \<longleftrightarrow> id_raises x \<and> e = Invalid_argument ''stoull'' \<and> s' = s) \<and>
   (patchItem lib ctime repo now req x s = Some (Inl e, s') \<longleftrightarrow> id_raises x \<and> e = Invalid_argument ''stoull'' \<and> s' = s) \<and>
   (length (id_digits x) \<noteq> 32 \<longrightarrow>
      getItemById lib ctime repo x s = Some (Inr (bad_id lib), s) \<and> deleteItem lib repo x s = Some (Inr (bad_id lib), s) \<and>
      updateItem lib ctime repo now req x s = Some (Inr (bad_id lib), s) \<and>
      patchItem lib ctime repo now req x s = Some (Inr (bad_id lib), s)) \<and>
   ((\<exists>exn s1. getAllItems lib ctime ub repo req s = Some (Inl exn, s1)) \<longleftrightarrow> \<not> params_readable (rq_params req))"
proof -
  have bad: "length (id_digits x) \<noteq> 32 \<Longrightarrow> from_string x = Inr Uuid_default"
    using from_string_length by (simp add: id_digits_def)
  have nil: "\<not> is_valid Uuid_default" by (simp add: is_valid_iff)
  have same: "patchItem lib ctime repo now req x s = updateItem lib ctime repo now req x s"
    by (simp only: patchItem_def updateItem_def)
  have "(getItemById lib ctime repo x s = Some (Inl e, s')) = (id_raises x \<and> e = Invalid_argument ''stoull'' \<and> s' = s)"
    "(deleteItem lib repo x s = Some (Inl e, s')) = (id_raises x \<and> e = Invalid_argument ''stoull'' \<and> s' = s)"
    "(updateItem lib ctime repo now req x s = Some (Inl e, s')) = (id_raises x \<and> e = Invalid_argument ''stoull'' \<and> s' = s)"
    using from_string_raises[of x]
    by (auto simp: getItemById_def deleteItem_def updateItem_def op_bind_eq_Some split: if_splits option.split sum.split)
  moreover have "(\<exists>exn s1. getAllItems lib ctime ub repo req s = Some (Inl exn, s1)) \<longleftrightarrow> \<not> params_readable (rq_params req)"
    unfolding filter_of_params_fails[symmetric]
    by (cases "filter_of_params (rq_params req)") (auto simp: getAllItems_def op_bind_eq_Some)
  ultimately show ?thesis
    using bad nil unfolding same by (simp add: getItemById_def deleteItem_def updateItem_def)
qed

text \<open>Thirty-two times the letter z, a text of another length, and a page that is no number.\<close>

theorem handlers_raise_witness:
  "getItemById std_json shop_ctime (pg_item_repo server_pq) (replicate 32 (CHR ''z'')) stocked_shop =
     Some (Inl (Invalid_argument ''stoull''), stocked_shop) \<and>
   patchItem std_json shop_ctime (pg_item_repo server_pq) 0 (page_request ''1'') ''not-a-uuid'' stocked_shop =
     Some (Inr (bad_id std_json), stocked_shop) \<and>
   (\<exists>e s1. getAllItems std_json shop_ctime 0 (pg_item_repo server_pq) (page_request ''first'') stocked_shop = Some (Inl e, s1))"
proof -
  have "id_raises (replicate 32 (CHR ''z''))" "length (id_digits ''not-a-uuid'') \<noteq> 32"
    "\<not> params_readable (rq_params (page_request ''first'' :: JsonValue HttpRequest))"
    by code_simp+
  then show ?thesis
    using handlers_raise[of std_json shop_ctime "pg_item_repo server_pq" "replicate 32 (CHR ''z'')" stocked_shop
        "Invalid_argument ''stoull''" stocked_shop 0 "page_request ''1''" 0]
      handlers_raise[of std_json shop_ctime "pg_item_repo server_pq" "''not-a-uuid''" stocked_shop
        "Invalid_argument ''stoull''" stocked_shop 0 "page_request ''1''" 0]
      handlers_raise[of std_json shop_ctime "pg_item_repo server_pq" "''not-a-uuid''" stocked_shop
        "Invalid_argument ''stoull''" stocked_shop 0 "page_request ''first''" 0]
    by simp
qed

end
