(* ===== verification/Traffic.thy ===== *)
theory Traffic
  imports ItemApi
begin

text \<open>
  Arbitrary sequences of calls to the item endpoints: whatever the requests are, every call returns,
  and the table behind the application stays well-formed.
\<close>

section \<open>The endpoints\<close>

text \<open>The routes of \<^verbatim>\<open>ItemController\<close> with what reaches their handlers: the request or the identifier in the
  path, and where a handler needs them the random draws and the reading of the clock.\<close>

datatype 'j ItemCall =
    GetAll "'j HttpRequest"
  | Post "'j HttpRequest" uint64 uint64 time_point
  | GetOne string
  | Put "'j HttpRequest" string time_point
  | Delete string
  | Patch "'j HttpRequest" string time_point

fun handle ::
  "'j json_lib \<Rightarrow> (int \<Rightarrow> string) \<Rightarrow> int32 \<Rightarrow> 's ItemRepository \<Rightarrow> 'j ItemCall \<Rightarrow> ('s, exn + 'j HttpResponse) op" where
  "handle lib ctime ub repo (GetAll req) = getAllItems lib ctime ub repo req"
| "handle lib ctime ub repo (Post req r0 r1 now) = createItem lib ctime repo r0 r1 now req"
| "handle lib ctime ub repo (GetOne x) = getItemById lib ctime repo x"
| "handle lib ctime ub repo (Put req x now) = updateItem lib ctime repo now req x"
| "handle lib ctime ub repo (Delete x) = deleteItem lib repo x"
| "handle lib ctime ub repo (Patch req x now) = patchItem lib ctime repo now req x"

fun handle_all ::
  "'j json_lib \<Rightarrow> (int \<Rightarrow> string) \<Rightarrow> int32 \<Rightarrow> 's ItemRepository \<Rightarrow> 'j ItemCall list \<Rightarrow> ('s, (exn + 'j HttpResponse) list) op" where
  "handle_all lib ctime ub repo [] = op_return []"
| "handle_all lib ctime ub repo (c # cs) =
     op_bind (handle lib ctime ub repo c) (\<lambda>r. op_bind (handle_all lib ctime ub repo cs) (\<lambda>rs. op_return (r # rs)))"

text \<open>Readings of the clock are from 1970 on and fit the 64 bits of \<^verbatim>\<open>system_clock\<close>.\<close>

definition in_clock :: "time_point \<Rightarrow> bool" where
  "in_clock tp \<longleftrightarrow> 0 \<le> tp \<and> tp < 2 ^ 63"

fun call_time :: "'j ItemCall \<Rightarrow> time_point" where
  "call_time (Post req r0 r1 now) = now"
| "call_time (Put req x now) = now"
| "call_time (Patch req x now) = now"
| "call_time _ = 0"

section \<open>Providers that never get stuck\<close>

text \<open>A provider whose operations always return, keep it serving, and give out valid items.\<close>

definition valid_item :: "Item Result \<Rightarrow> bool" where
  "valid_item r \<longleftrightarrow> (\<forall>i. r = Inr i \<longrightarrow> item_ok i)"

lemma valid_item_simps [simp]: "valid_item (Inl e)" "valid_item (Inr i) \<longleftrightarrow> item_ok i"
  by (simp_all add: valid_item_def)

abbreviation any :: "'a \<Rightarrow> bool" where
  "any \<equiv> \<lambda>_. True"

locale robust_repository =
  fixes repo :: "'s ItemRepository"
    and ready :: "'s \<Rightarrow> bool"
  assumes by_id_keeps [keeps_rules]: "keeps ready valid_item (find_by_id repo k)"
    and by_sku_keeps [keeps_rules]: "keeps ready any (find_by_sku repo x)"
    and all_keeps [keeps_rules]: "keeps ready any (find_all repo f)"
    and count_keeps [keeps_rules]: "keeps ready any (count_items repo f)"
    and save_keeps [keeps_rules]: "item_ok i \<Longrightarrow> in_clock (created_at i) \<Longrightarrow> in_clock (updated_at i) \<Longrightarrow> keeps ready any (save repo i)"
    and update_keeps [keeps_rules]: "item_ok i \<Longrightarrow> in_clock (updated_at i) \<Longrightarrow> keeps ready any (update repo i)"
    and remove_keeps [keeps_rules]: "keeps ready any (remove repo k)"
begin

lemma create_keeps [keeps_rules]:
  assumes "in_clock now"
  shows "keeps ready any (create_execute repo r0 r1 now req)"
proof (cases "create_valid req")
  case True
  have "item_ok (requested_item r0 r1 now req)" "created_at (requested_item r0 r1 now req) = now"
    "updated_at (requested_item r0 r1 now req) = now"
    using requested_item_ok[OF True, of r0 r1 now] by (simp_all add: requested_item_def Item_new_def)
  then show ?thesis
    unfolding create_execute_valid[OF True] using assms by (intro keeps_bind[OF by_sku_keeps] keeps_case_sum keeps_return save_keeps) auto
next
  case False
  then show ?thesis using create_execute_invalid[OF False, of repo r0 r1 now] by (auto intro: keeps_return)
qed

lemma update_execute_keeps [keeps_rules]:
  assumes "in_clock now"
  shows "keeps ready any (update_execute repo now req)"
  unfolding update_execute_def
proof (rule keeps_bind[OF by_id_keeps])
  fix r :: "Item Result" assume r: "valid_item r"
  show "keeps ready any (case r of Inl e \<Rightarrow> op_return (Inl e)
      | Inr i \<Rightarrow> (case apply_update req now i of Inl e \<Rightarrow> op_return (Inl e) | Inr i' \<Rightarrow> update repo i'))"
  proof (cases r)
    case (Inl e)
    then show ?thesis by (simp add: keeps_return)
  next
    case (Inr i)
    then have ok: "item_ok i" using r by simp
    show ?thesis
    proof (cases "update_valid req")
      case True
      have "updated_at (updated_item req now i) = now" by (simp add: updated_item_def)
      then show ?thesis
        using Inr apply_update_valid[OF ok True, of now] updated_item_ok[OF ok True, of now] assms by (simp add: update_keeps)
    next
      case False
      with apply_update_invalid[OF ok False, of now] Inr show ?thesis by (auto intro: keeps_return)
    qed
  qed
qed

lemma get_keeps [keeps_rules]: "keeps ready any (get_execute repo k)"
  unfolding get_execute_def by (intro keeps_if keeps_return keepsI) (use keepsD[OF by_id_keeps] in blast)+

lemma delete_keeps [keeps_rules]: "keeps ready any (delete_execute repo k)"
  unfolding delete_execute_def
  by (intro keeps_if keeps_return keeps_bind[OF by_id_keeps] keeps_case_sum remove_keeps) simp_all

lemma list_keeps [keeps_rules]: "keeps ready any (list_execute repo f)"
  unfolding list_execute_def
  by (intro keeps_bind[OF all_keeps] keeps_bind[OF count_keeps] keeps_case_sum keeps_return) simp_all

lemma handle_keeps:
  assumes "in_clock (call_time c)"
  shows "keeps ready any (handle lib ctime ub repo c)"
  using assms
  by (cases c)
    (simp_all add: getAllItems_def createItem_def getItemById_def updateItem_def deleteItem_def patchItem_def,
     (intro keeps_case_sum keeps_case_option keeps_if keeps_return keeps_bind[where Q = any] keeps_rules TrueI; assumption)+)

lemma handle_all_keeps:
  "\<forall>c \<in> set cs. in_clock (call_time c) \<Longrightarrow> keeps ready (\<lambda>rs. length rs = length cs) (handle_all lib ctime ub repo cs)"
proof (induction cs)
  case (Cons c cs)
  then show ?case
    by (auto intro!: keeps_bind[OF handle_keeps] keeps_bind[where Q = "\<lambda>rs. length rs = length cs"] keeps_return)
qed (simp add: keeps_return)

end

section \<open>PostgreSQL under any statement of the repository\<close>

text \<open>
  Beyond what \<open>sql_items\<close> says of statements that must succeed: the queries read, and an insert or update
  that succeeds has met the constraints of the table and done what it says.
\<close>

definition stores :: "('d, 't) pqxx \<Rightarrow> Item \<Rightarrow> (string \<Rightarrow> row option) \<Rightarrow> (string \<Rightarrow> row option) \<Rightarrow> bool" where
  "stores pq i m m' \<longleftrightarrow> sku_unused m (to_string (item_id i)) (sku i) \<and>
     (\<exists>r. row_holds pq i r \<and> m' = m(to_string (item_id i) \<mapsto> r))"

lemma stores_ok:
  assumes "rows_ok pq m" and "item_ok i" and "stores pq i m m'"
  shows "rows_ok pq m'"
proof -
  obtain r where r: "row_holds pq i r" "m' = m(to_string (item_id i) \<mapsto> r)" "sku_unused m (to_string (item_id i)) (sku i)"
    using assms(3) by (auto simp: stores_def)
  obtain j where "row_to_item pq r = Inr j" using row_to_item_same[OF r(1) assms(2)] by metis
  from items_of_insert[OF assms(1) r(1) assms(2) this r(3)] r(2) show ?thesis by simp
qed

locale sql_items_strict = sql_items pq rows_of up view storable
  for pq :: "('d, 't) pqxx" and rows_of :: "'d \<Rightarrow> string \<Rightarrow> row option" and up :: "'d \<Rightarrow> bool"
    and view :: "'t \<Rightarrow> 'd" and storable :: "Item \<Rightarrow> bool" +
  assumes page_reads: "up (view t) \<Longrightarrow> build_find_all_query f = (q, ps) \<Longrightarrow>
      exec_sql pq q (map PText ps) t = Inr (res, t') \<Longrightarrow> view t' = view t"
    and count_reads: "up (view t) \<Longrightarrow> build_count_query f = (q, ps) \<Longrightarrow>
      exec_sql pq q (map PText ps) t = Inr (res, t') \<Longrightarrow> view t' = view t"
    and ins_strict: "up (view t) \<Longrightarrow> item_ok i \<Longrightarrow> in_clock (created_at i) \<Longrightarrow> in_clock (updated_at i) \<Longrightarrow>
      exec_sql pq sql_item_insert
        (item_params i @ [PText (format_iso8601 (created_at i)), PText (format_iso8601 (updated_at i))]) t = Inr (res, t') \<Longrightarrow>
      up (view t') \<and> stores pq i (rows_of (view t)) (rows_of (view t'))"
    and upd_strict: "up (view t) \<Longrightarrow> rows_ok pq (rows_of (view t)) \<Longrightarrow> item_ok i \<Longrightarrow> in_clock (updated_at i) \<Longrightarrow>
      exec_sql pq sql_item_update (item_params i @ [PText (format_iso8601 (updated_at i))]) t = Inr (res, t') \<Longrightarrow>
      up (view t') \<and> (rows_of (view t') = rows_of (view t) \<or> stores pq i (rows_of (view t)) (rows_of (view t')))"
begin

text \<open>A transaction whose statement keeps the rows well-formed leaves a ready state, whatever it answers.\<close>

definition sound_exec :: "string \<Rightarrow> param list \<Rightarrow> bool" where
  "sound_exec sql ps \<longleftrightarrow> (\<forall>t res t'. up (view t) \<longrightarrow> rows_ok pq (rows_of (view t)) \<longrightarrow> exec_sql pq sql ps t = Inr (res, t') \<longrightarrow>
     up (view t') \<and> rows_ok pq (rows_of (view t')))"

lemma session_keeps:
  assumes "\<And>c d. up d \<Longrightarrow> rows_ok pq (rows_of d) \<Longrightarrow> \<exists>r d'. body c d = (r, d') \<and> up d' \<and> rows_ok pq (rows_of d')"
  shows "keeps (pg_ready pq rows_of up) any (session pq fn body)"
proof (rule keepsI)
  fix s assume ready: "pg_ready pq rows_of up s"
  have "\<exists>r s'. with_session pq (sql_failure fn) (other_failure fn) body s =
      Some (catch_exn (sql_failure fn) (other_failure fn) r, s') \<and> pool_ready (bk_pool s') \<and>
      (up (bk_db s') \<and> rows_ok pq (rows_of (bk_db s')))"
  proof (rule with_session_some)
    fix c
    obtain r d where "body c (bk_db s) = (r, d)" "up d" "rows_ok pq (rows_of d)"
      using assms[of "bk_db s" c] ready by (auto simp: pg_ready_def)
    then show "\<exists>r d. body c (bk_db s) = (r, d) \<and> (up d \<and> rows_ok pq (rows_of d)) \<and> (\<forall>c. conn_open pq d c)"
      by (auto intro: open_conn)
  qed (use ready in \<open>auto simp: pg_ready_def open_conn\<close>)
  then show "\<exists>x s'. session pq fn body s = Some (x, s') \<and> pg_ready pq rows_of up s' \<and> True"
    by (auto simp: session_def pg_ready_def)
qed

lemma commit_first_keeps:
  assumes "sound_exec sql ps"
  shows "keeps (pg_ready pq rows_of up) any (session pq fn (txn_commit_first pq sql ps reject conv))"
proof (rule session_keeps)
  fix c d assume d: "up d" "rows_ok pq (rows_of d)"
  obtain t where t: "work pq c d = Inr t" "view t = d" using begin_work[OF d(1)] by blast
  have ok: "up (view t') \<and> rows_ok pq (rows_of (view t'))" if "exec_sql pq sql ps t = Inr (res, t')" for res t'
    using assms that t(2) d unfolding sound_exec_def by blast
  show "\<exists>r d'. txn_commit_first pq sql ps reject conv c d = (r, d') \<and> up d' \<and> rows_ok pq (rows_of d')"
    using t d ok commits by (auto simp: txn_commit_first_def split: sum.split option.split)
qed

lemma convert_first_keeps:
  assumes "sound_exec sql ps"
  shows "keeps (pg_ready pq rows_of up) any (session pq fn (txn_convert_first pq sql ps conv))"
proof (rule session_keeps)
  fix c d assume d: "up d" "rows_ok pq (rows_of d)"
  obtain t where t: "work pq c d = Inr t" "view t = d" using begin_work[OF d(1)] by blast
  have ok: "up (view t') \<and> rows_ok pq (rows_of (view t'))" if "exec_sql pq sql ps t = Inr (res, t')" for res t'
    using assms that t(2) d unfolding sound_exec_def by blast
  show "\<exists>r d'. txn_convert_first pq sql ps conv c d = (r, d') \<and> up d' \<and> rows_ok pq (rows_of d')"
    using t d ok commits by (auto simp: txn_convert_first_def split: sum.split option.split)
qed

lemma sound_statements:
  "sound_exec sql_item_by_sku [PText x]"
  "build_find_all_query f = (q, ps) \<Longrightarrow> sound_exec q (map PText ps)"
  "build_count_query f = (q, ps) \<Longrightarrow> sound_exec q (map PText ps)"
  "sound_exec sql_item_delete [PText (to_string k)]"
proof -
  show "sound_exec sql_item_by_sku [PText x]" unfolding sound_exec_def using sel_sku[of _ x] by fastforce
  show "build_find_all_query f = (q, ps) \<Longrightarrow> sound_exec q (map PText ps)"
    unfolding sound_exec_def using page_reads[of _ f] by metis
  show "build_count_query f = (q, ps) \<Longrightarrow> sound_exec q (map PText ps)"
    unfolding sound_exec_def using count_reads[of _ f] by metis
  show "sound_exec sql_item_delete [PText (to_string k)]"
    unfolding sound_exec_def using del[of _ k] items_of_delete[of pq _ k] by fastforce
qed

lemma sound_insert:
  "item_ok i \<Longrightarrow> in_clock (created_at i) \<Longrightarrow> in_clock (updated_at i) \<Longrightarrow>
   sound_exec sql_item_insert (item_params i @ [PText (format_iso8601 (created_at i)), PText (format_iso8601 (updated_at i))])"
  unfolding sound_exec_def using ins_strict[of _ i] stores_ok[of pq _ i] by blast

lemma sound_update:
  "item_ok i \<Longrightarrow> in_clock (updated_at i) \<Longrightarrow>
   sound_exec sql_item_update (item_params i @ [PText (format_iso8601 (updated_at i))])"
  unfolding sound_exec_def using upd_strict[of _ i] stores_ok[of pq _ i] by metis

lemma find_by_id_keeps: "keeps (pg_ready pq rows_of up) valid_item (find_by_id (pg_item_repo pq) k)"
proof (rule keepsI)
  fix s assume ready: "pg_ready pq rows_of up s"
  then have "table_ok (pg_table pq rows_of s)" by (rule pg.table_wf)
  then show "\<exists>x s'. find_by_id (pg_item_repo pq) k s = Some (x, s') \<and> pg_ready pq rows_of up s' \<and> valid_item x"
    using pg.by_id[OF ready, of k] by (auto simp: table_ok_def split: option.splits)
qed

end

sublocale sql_items_strict \<subseteq> robust: robust_repository "pg_item_repo pq" "pg_ready pq rows_of up"
proof unfold_locales
  show "keeps (pg_ready pq rows_of up) any (find_all (pg_item_repo pq) f)" for f
    by (cases "build_find_all_query f")
      (simp add: pg_item_repo_def pg_find_all_def convert_first_keeps sound_statements(2))
  show "keeps (pg_ready pq rows_of up) any (count_items (pg_item_repo pq) f)" for f
    by (cases "build_count_query f")
      (simp add: pg_item_repo_def pg_count_def convert_first_keeps sound_statements(3))
qed (simp_all add: find_by_id_keeps, simp_all add: pg_item_repo_def pg_find_by_sku_def pg_save_def pg_update_def pg_remove_def
      commit_first_keeps sound_statements sound_insert sound_update)

context sql_items_strict begin

lemma traffic: "robust_repository (pg_item_repo pq) (pg_ready pq rows_of up)"
  by (rule robust.robust_repository_axioms)

end

section \<open>The executable server\<close>

text \<open>Every query built from a filter begins like a read.\<close>

definition selects :: "query \<Rightarrow> bool" where
  "selects q \<longleftrightarrow> (\<exists>r. fst q = CHR ''S'' # r)"

lemma selects_add: "selects q \<Longrightarrow> selects (add_param x v q)" "selects q \<Longrightarrow> selects (add_text x q)"
  by (auto simp: selects_def add_param_def add_text_def Let_def)

lemma selects_filter: "selects q \<Longrightarrow> selects (filter_clauses f q)"
  unfolding filter_clauses_def Let_def by (auto intro!: selects_add split: option.split)

lemma built_queries_select: "selects (build_find_all_query f)" "selects (build_count_query f)"
  unfolding build_find_all_query_def build_count_query_def Let_def
  by (intro selects_add selects_filter; simp add: selects_def)+

lemma server_reads:
  assumes "selects (q, ps)" and "server_exec q ps' d = Inr (res, d')"
  shows "d' = d"
proof -
  have "q \<noteq> sql_item_insert" "q \<noteq> sql_item_update" "q \<noteq> sql_item_delete"
    using assms(1) by (auto simp: selects_def sql_item_insert_def sql_item_update_def sql_item_delete_def)
  moreover have "d' = d" if "map_sum id (\<lambda>res. (res, d)) x = Inr (res, d')" for x using that by (cases x) auto
  ultimately show ?thesis using assms(2) by (auto simp: server_exec_def split: if_splits)
qed

lemma cells_ok_unused:
  assumes "cells_ok d k ((item_cells (item_params i))(''created_at'' := c, ''updated_at'' := u))"
  shows "sku_unused (server_rows d) k (sku i)"
  using assms by (auto simp: cells_ok_def sku_unused_def server_rows_def item_cells_simps dest!: map_of_SomeD)

interpretation strict_srv: sql_items_strict server_pq server_rows "server_up cats sups" "\<lambda>d. d" "server_storable cats sups"
  for cats sups
proof unfold_locales
  show "build_find_all_query f = (q, ps) \<Longrightarrow> exec_sql server_pq q (map PText ps) t = Inr (res, t') \<Longrightarrow> t' = t" for f q ps t t' res
    using built_queries_select(1)[of f] by (auto simp: server_pq_def dest: server_reads)
  show "build_count_query f = (q, ps) \<Longrightarrow> exec_sql server_pq q (map PText ps) t = Inr (res, t') \<Longrightarrow> t' = t" for f q ps t t' res
    using built_queries_select(2)[of f] by (auto simp: server_pq_def dest: server_reads)
next
  fix t t' :: Server and i res
  assume up: "server_up cats sups t" and ok: "item_ok i" "in_clock (created_at i)" "in_clock (updated_at i)"
    and ex: "exec_sql server_pq sql_item_insert (item_params i @ [PText (format_iso8601 (created_at i)),
      PText (format_iso8601 (updated_at i))]) t = Inr (res, t')"
  let ?k = "to_string (item_id i)" and ?ct = "timestamp_text (format_iso8601 (created_at i))"
    and ?ut = "timestamp_text (format_iso8601 (updated_at i))"
  let ?r = "(item_cells (item_params i))(''created_at'' \<mapsto> ?ct, ''updated_at'' \<mapsto> ?ut)"
  have k0: "param_text (item_params i ! 0) = ?k" by (simp add: item_params_def)
  have t': "?k \<notin> fst ` set (srv_items t)" "cells_ok t ?k ?r" "t' = t\<lparr>srv_items := srv_items t @ [(?k, ?r)]\<rparr>"
    using ex k0 by (auto simp: server_pq_def server_exec_def nth_append Let_def split: if_splits simp del: fun_upd_apply)
  have "row_holds server_pq i ?r"
    using ok by (intro server_row_holds parse_timestamp_text) (auto simp: in_clock_def)
  moreover have "server_rows t' = (server_rows t)(?k \<mapsto> ?r)" using t'(1,3) by (simp add: server_rows_def map_of_snoc del: fun_upd_apply map_of_append)
  ultimately show "server_up cats sups t' \<and> stores server_pq i (server_rows t) (server_rows t')"
    using up t' cells_ok_unused[OF t'(2)] by (auto simp: stores_def server_up_def simp del: fun_upd_apply)
next
  fix t t' :: Server and i res
  assume up: "server_up cats sups t" and rows: "rows_ok server_pq (server_rows t)" and ok: "item_ok i" "in_clock (updated_at i)"
    and ex: "exec_sql server_pq sql_item_update (item_params i @ [PText (format_iso8601 (updated_at i))]) t = Inr (res, t')"
  let ?k = "to_string (item_id i)" and ?ut = "timestamp_text (format_iso8601 (updated_at i))"
  have k0: "param_text (item_params i ! 0) = ?k" by (simp add: item_params_def)
  show "server_up cats sups t' \<and> (server_rows t' = server_rows t \<or> stores server_pq i (server_rows t) (server_rows t'))"
  proof (cases "map_of (srv_items t) ?k")
    case None
    then have "t' = t" using ex k0 by (simp add: server_pq_def server_exec_def nth_append Let_def)
    then show ?thesis using up by simp
  next
    case (Some r0)
    let ?r = "(item_cells (item_params i))(''created_at'' := r0 ''created_at'', ''updated_at'' \<mapsto> ?ut)"
    have t': "cells_ok t ?k ?r" "t' = t\<lparr>srv_items := map (\<lambda>(x, q). (x, if x = ?k then ?r else q)) (srv_items t)\<rparr>"
      using ex k0 Some by (auto simp: server_pq_def server_exec_def nth_append Let_def split: if_splits simp del: fun_upd_apply)
    have "holds_time (r0 ''created_at'')"
      using rows Some unfolding rows_ok_def by (auto simp: server_rows_def row_holds_def)
    then have "row_holds server_pq i ?r"
      using ok by (intro server_row_holds parse_timestamp_text) (auto simp: in_clock_def)
    moreover have "?k \<in> fst ` set (srv_items t)" using Some by (metis map_of_eq_None_iff option.distinct(1))
    then have "server_rows t' = (server_rows t)(?k \<mapsto> ?r)" using t'(2) by (simp add: server_rows_def map_of_update_map del: fun_upd_apply)
    moreover have "server_up cats sups t'"
      using up t'(2) by (simp add: server_up_def case_prod_unfold comp_def del: fun_upd_apply)
    ultimately show ?thesis
      using cells_ok_unused[OF t'(1)] by (auto simp: stores_def simp del: fun_upd_apply)
  qed
qed

section \<open>Property\<close>

text \<open>Whatever requests reach the item endpoints, valid or not, in any number and order, every call
  returns, and afterwards the pool and the database can still serve and the table is well-formed: every
  item under its own identifier, with distinct stock keeping units and valid prices and quantities.\<close>

theorem traffic_keeps_table:
  assumes "sql_items_strict pq rows_of up view storable" and "pg_ready pq rows_of up s"
    and "\<forall>c \<in> set calls. in_clock (call_time c)"
  shows "\<exists>rs s'. handle_all lib ctime ub (pg_item_repo pq) calls s = Some (rs, s') \<and> length rs = length calls \<and>
    pg_ready pq rows_of up s' \<and> table_ok (pg_table pq rows_of s')"
proof -
  note robust = sql_items_strict.traffic[OF assms(1)]
  obtain rs s' where r: "handle_all lib ctime ub (pg_item_repo pq) calls s = Some (rs, s')" "pg_ready pq rows_of up s'"
    "length rs = length calls"
    using keepsD[OF robust_repository.handle_all_keeps[OF robust assms(3)] assms(2)] by blast
  have "table_ok (pg_table pq rows_of s')"
    by (rule item_repository.table_wf[OF sql_items.contract[OF sql_items_strict.axioms(1)[OF assms(1)]] r(2)])
  with r show ?thesis by blast
qed

lemma strict_shop_server: "sql_items_strict server_pq server_rows (server_up [shop_cat] [shop_sup]) (\<lambda>d. d) shop_storable"
  by (rule strict_srv.sql_items_strict_axioms)

theorem traffic_keeps_table_witness:
  "\<exists>rs s'. handle_all std_json shop_ctime 0 (pg_item_repo server_pq)
       [Post (request_of (create_to_json std_json shop_body)) 1 2 0, Post (request_of (JString ''bad'')) 3 4 5,
        GetOne (to_string (generate 1 2)), Delete ''no such item'', GetAll (request_of (JInt 0))] empty_shop = Some (rs, s') \<and>
     length rs = 5 \<and> table_ok (pg_table server_pq server_rows s')"
  using traffic_keeps_table[OF strict_shop_server empty_shop_ready,
      of "[Post (request_of (create_to_json std_json shop_body)) 1 2 0, Post (request_of (JString ''bad'')) 3 4 5,
        GetOne (to_string (generate 1 2)), Delete ''no such item'', GetAll (request_of (JInt 0))]" std_json shop_ctime 0]
  by (auto simp: in_clock_def)

end
