(* ===== verification/Catalog.thy ===== *)
theory Catalog
  imports Traffic
begin

text \<open>
  The item endpoints against an abstract catalog: a table of items and, for every call, which answer it may
  get and what it does to the table. The calls over PostgreSQL are steps of the catalog, whatever the
  requests are and whatever the database refuses.
\<close>

section \<open>The catalog\<close>

text \<open>A call with answer \<open>x\<close> turns the table \<open>m\<close> into \<open>m'\<close>. A handler that raises gives \<open>Inl\<close>.\<close>

definition answered :: "int set \<Rightarrow> exn + 'j HttpResponse \<Rightarrow> bool" where
  "answered codes x \<longleftrightarrow> (\<exists>resp. x = Inr resp \<and> rp_status resp \<in> codes)"

definition rejects :: "int \<Rightarrow> (Uuid \<Rightarrow> Item option) \<Rightarrow> exn + 'j HttpResponse \<Rightarrow> (Uuid \<Rightarrow> Item option) \<Rightarrow> bool" where
  "rejects code m x m' \<longleftrightarrow> answered {code} x \<and> m' = m"

text \<open>Calls with an identifier in the path: some texts make the handler raise, the nil identifier and all
  texts of a wrong length are answered 400.\<close>

definition at_id ::
  "string \<Rightarrow> (Uuid \<Rightarrow> Item option) \<Rightarrow> exn + 'j HttpResponse \<Rightarrow> (Uuid \<Rightarrow> Item option) \<Rightarrow> (Uuid \<Rightarrow> bool) \<Rightarrow> bool" where
  "at_id y m x m' P \<longleftrightarrow>
     (if id_raises y then x = Inl (Invalid_argument ''stoull'') \<and> m' = m
      else \<exists>k. from_string y = Inr k \<and> (if k = Uuid_default then rejects 400 m x m' else P k))"

text \<open>What the body of a request says, member by member of the JSON object.\<close>

definition text_at :: "'j json_lib \<Rightarrow> 'j \<Rightarrow> string \<Rightarrow> string \<Rightarrow> bool" where
  "text_at lib j k x \<longleftrightarrow> (\<exists>v. j_at lib j k = Inr v \<and> j_get_string lib v = Inr x)"

definition number_at :: "'j json_lib \<Rightarrow> 'j \<Rightarrow> string \<Rightarrow> int64 \<Rightarrow> bool" where
  "number_at lib j k n \<longleftrightarrow> (\<exists>v. j_at lib j k = Inr v \<and> j_get_int64 lib v = Inr n)"

definition id_at :: "'j json_lib \<Rightarrow> 'j \<Rightarrow> string \<Rightarrow> Uuid \<Rightarrow> bool" where
  "id_at lib j k u \<longleftrightarrow> (\<exists>x. text_at lib j k x \<and> from_string x = Inr u)"

definition given_or :: "'j json_lib \<Rightarrow> 'j \<Rightarrow> string \<Rightarrow> ('j json_lib \<Rightarrow> 'j \<Rightarrow> string \<Rightarrow> 'a \<Rightarrow> bool) \<Rightarrow> 'a \<Rightarrow> 'a \<Rightarrow> bool" where
  "given_or lib j k member d y \<longleftrightarrow> (if j_contains lib j k then member lib j k y else y = d)"

text \<open>The item a body asks to create: all members but the currency and the unit must be there.\<close>

definition asked_item :: "'j json_lib \<Rightarrow> 'j \<Rightarrow> uint64 \<Rightarrow> uint64 \<Rightarrow> time_point \<Rightarrow> Item \<Rightarrow> bool" where
  "asked_item lib j r0 r1 now i \<longleftrightarrow>
     text_at lib j ''sku'' (sku i) \<and> text_at lib j ''name'' (item_name i) \<and>
     text_at lib j ''description'' (item_description i) \<and>
     id_at lib j ''category_id'' (category_id i) \<and> id_at lib j ''supplier_id'' (supplier_id i) \<and>
     number_at lib j ''unit_price_amount'' (amount (unit_price i)) \<and>
     given_or lib j ''currency'' text_at ''IDR'' (currency (unit_price i)) \<and>
     number_at lib j ''stock_quantity'' (qty (stock i)) \<and>
     number_at lib j ''min_stock_quantity'' (qty (min_stock i)) \<and>
     given_or lib j ''stock_unit'' text_at ''pcs'' (unit_of (stock i)) \<and> unit_of (min_stock i) = unit_of (stock i) \<and>
     item_id i = generate r0 r1 \<and> item_status i = kActive \<and> created_at i = now \<and> updated_at i = now"

definition sellable :: "Item \<Rightarrow> bool" where
  "sellable i \<longleftrightarrow> sku i \<noteq> [] \<and> item_name i \<noteq> [] \<and> unit_of (stock i) \<noteq> [] \<and> length (currency (unit_price i)) = 3 \<and>
     0 \<le> sint (amount (unit_price i)) \<and> 0 \<le> sint (qty (stock i)) \<and> 0 \<le> sint (qty (min_stock i))"

text \<open>A creation that can be sold is refused when its stock keeping unit is in use; the database refuses it
  only when it cannot store it (\<open>storable\<close>: the references exist and the texts fit) or the identifier is in
  use. A body that asks for no item is answered 400, one that asks for an item that cannot be sold 422.\<close>

definition spec_create ::
  "'j json_lib \<Rightarrow> (int \<Rightarrow> string) \<Rightarrow> (Item \<Rightarrow> bool) \<Rightarrow> 'j HttpRequest \<Rightarrow> uint64 \<Rightarrow> uint64 \<Rightarrow> time_point \<Rightarrow>
   (Uuid \<Rightarrow> Item option) \<Rightarrow> exn + 'j HttpResponse \<Rightarrow> (Uuid \<Rightarrow> Item option) \<Rightarrow> bool" where
  "spec_create lib ctime storable req r0 r1 now m x m' \<longleftrightarrow>
     (case rq_json req of
        None \<Rightarrow> rejects 400 m x m'
      | Some j \<Rightarrow>
          (\<nexists>i0. asked_item lib j r0 r1 now i0) \<and> rejects 400 m x m' \<or>
          (\<exists>i0. asked_item lib j r0 r1 now i0 \<and>
            (if \<not> sellable i0 then rejects 422 m x m'
             else if \<exists>k i. m k = Some i \<and> sku i = sku i0 then rejects 409 m x m'
             else
               (\<exists>i. same_item i0 i \<and> m (generate r0 r1) = None \<and> m' = m(generate r0 r1 \<mapsto> i) \<and>
                  x = Inr ((make_json_response (item_json lib ctime i))\<lparr>rp_status := 201\<rparr>)) \<or>
               \<not> (storable i0 \<and> m (generate r0 r1) = None) \<and> rejects 500 m x m')))"

definition spec_get ::
  "'j json_lib \<Rightarrow> (int \<Rightarrow> string) \<Rightarrow> string \<Rightarrow> (Uuid \<Rightarrow> Item option) \<Rightarrow> exn + 'j HttpResponse \<Rightarrow> (Uuid \<Rightarrow> Item option) \<Rightarrow> bool" where
  "spec_get lib ctime y m x m' =
     at_id y m x m' (\<lambda>k.
       case m k of
         None \<Rightarrow> rejects 404 m x m'
       | Some i \<Rightarrow> x = Inr (make_json_response (item_json lib ctime i)) \<and> m' = m)"

text \<open>The body of an update must have a stock keeping unit, although it is not used; every other member may
  be left out.\<close>

definition change_readable :: "'j json_lib \<Rightarrow> 'j \<Rightarrow> bool" where
  "change_readable lib j \<longleftrightarrow> (\<exists>x. text_at lib j ''sku'' x) \<and>
     (\<forall>k \<in> {''name'', ''description'', ''currency'', ''stock_unit''}. j_contains lib j k \<longrightarrow> (\<exists>x. text_at lib j k x)) \<and>
     (\<forall>k \<in> {''category_id'', ''supplier_id''}. j_contains lib j k \<longrightarrow> (\<exists>u. id_at lib j k u)) \<and>
     (\<forall>k \<in> {''unit_price_amount'', ''stock_quantity'', ''min_stock_quantity''}. j_contains lib j k \<longrightarrow> (\<exists>n. number_at lib j k n))"

definition change_allowed :: "'j json_lib \<Rightarrow> 'j \<Rightarrow> bool" where
  "change_allowed lib j \<longleftrightarrow> \<not> text_at lib j ''sku'' [] \<and>
     (\<forall>k \<in> {''unit_price_amount'', ''stock_quantity'', ''min_stock_quantity''}. \<forall>n.
        j_contains lib j k \<and> number_at lib j k n \<longrightarrow> 0 \<le> sint n)"

text \<open>The item \<open>i\<close> changed as the body says: the status, the currency and the units stay.\<close>

definition changed_item :: "'j json_lib \<Rightarrow> 'j \<Rightarrow> time_point \<Rightarrow> Item \<Rightarrow> Item \<Rightarrow> bool" where
  "changed_item lib j now i i' \<longleftrightarrow>
     given_or lib j ''name'' text_at (item_name i) (item_name i') \<and>
     given_or lib j ''description'' text_at (item_description i) (item_description i') \<and>
     given_or lib j ''category_id'' id_at (category_id i) (category_id i') \<and>
     given_or lib j ''supplier_id'' id_at (supplier_id i) (supplier_id i') \<and>
     given_or lib j ''unit_price_amount'' number_at (amount (unit_price i)) (amount (unit_price i')) \<and>
     given_or lib j ''stock_quantity'' number_at (qty (stock i)) (qty (stock i')) \<and>
     given_or lib j ''min_stock_quantity'' number_at (qty (min_stock i)) (qty (min_stock i')) \<and>
     currency (unit_price i') = currency (unit_price i) \<and> unit_of (stock i') = unit_of (stock i) \<and>
     unit_of (min_stock i') = unit_of (min_stock i) \<and> item_id i' = item_id i \<and> sku i' = sku i \<and>
     item_status i' = item_status i \<and> created_at i' = created_at i \<and> updated_at i' = now"

definition spec_update ::
  "'j json_lib \<Rightarrow> (int \<Rightarrow> string) \<Rightarrow> (Item \<Rightarrow> bool) \<Rightarrow> 'j HttpRequest \<Rightarrow> string \<Rightarrow> time_point \<Rightarrow>
   (Uuid \<Rightarrow> Item option) \<Rightarrow> exn + 'j HttpResponse \<Rightarrow> (Uuid \<Rightarrow> Item option) \<Rightarrow> bool" where
  "spec_update lib ctime storable req y now m x m' =
     at_id y m x m' (\<lambda>k.
       case rq_json req of
         None \<Rightarrow> rejects 400 m x m'
       | Some j \<Rightarrow>
           if \<not> change_readable lib j then rejects 400 m x m'
           else if \<not> change_allowed lib j then rejects 422 m x m'
           else (case m k of
               None \<Rightarrow> rejects 404 m x m'
             | Some i \<Rightarrow>
                 if j_contains lib j ''name'' \<and> text_at lib j ''name'' [] then rejects 422 m x m'
                 else \<exists>i0. changed_item lib j now i i0 \<and>
                   ((\<exists>i'. same_item i0 i' \<and> created_at i' = created_at i \<and> m' = m(k \<mapsto> i') \<and>
                       x = Inr (make_json_response (item_json lib ctime i'))) \<or>
                    \<not> storable i0 \<and> rejects 500 m x m')))"

definition spec_delete ::
  "string \<Rightarrow> (Uuid \<Rightarrow> Item option) \<Rightarrow> exn + 'j HttpResponse \<Rightarrow> (Uuid \<Rightarrow> Item option) \<Rightarrow> bool" where
  "spec_delete y m x m' =
     at_id y m x m' (\<lambda>k. if m k = None then rejects 404 m x m' else x = Inr no_content \<and> m' = m(k := None))"

text \<open>Listing changes nothing; what it answers is stated for \<^verbatim>\<open>GET\<close> in \<^verbatim>\<open>ItemApi\<close>.\<close>

definition spec_list :: "'j HttpRequest \<Rightarrow> (Uuid \<Rightarrow> Item option) \<Rightarrow> exn + 'j HttpResponse \<Rightarrow> (Uuid \<Rightarrow> Item option) \<Rightarrow> bool" where
  "spec_list req m x m' \<longleftrightarrow>
     m' = m \<and> (case filter_of_params (rq_params req) of Inl e \<Rightarrow> x = Inl e | Inr f \<Rightarrow> answered {200, 500} x)"

fun catalog_step ::
  "'j json_lib \<Rightarrow> (int \<Rightarrow> string) \<Rightarrow> (Item \<Rightarrow> bool) \<Rightarrow> 'j ItemCall \<Rightarrow>
   (Uuid \<Rightarrow> Item option) \<Rightarrow> exn + 'j HttpResponse \<Rightarrow> (Uuid \<Rightarrow> Item option) \<Rightarrow> bool" where
  "catalog_step lib ctime storable (GetAll req) m x m' = spec_list req m x m'"
| "catalog_step lib ctime storable (Post req r0 r1 now) m x m' = spec_create lib ctime storable req r0 r1 now m x m'"
| "catalog_step lib ctime storable (GetOne y) m x m' = spec_get lib ctime y m x m'"
| "catalog_step lib ctime storable (Put req y now) m x m' = spec_update lib ctime storable req y now m x m'"
| "catalog_step lib ctime storable (Delete y) m x m' = spec_delete y m x m'"
| "catalog_step lib ctime storable (Patch req y now) m x m' = spec_update lib ctime storable req y now m x m'"

text \<open>A run of the catalog: the calls in order, with their answers.\<close>

fun catalog_run ::
  "'j json_lib \<Rightarrow> (int \<Rightarrow> string) \<Rightarrow> (Item \<Rightarrow> bool) \<Rightarrow> 'j ItemCall list \<Rightarrow>
   (Uuid \<Rightarrow> Item option) \<Rightarrow> (exn + 'j HttpResponse) list \<Rightarrow> (Uuid \<Rightarrow> Item option) \<Rightarrow> bool" where
  "catalog_run lib ctime storable [] m xs m' \<longleftrightarrow> xs = [] \<and> m' = m"
| "catalog_run lib ctime storable (c # cs) m xs m' \<longleftrightarrow>
     (\<exists>x ys m1. xs = x # ys \<and> catalog_step lib ctime storable c m x m1 \<and> catalog_run lib ctime storable cs m1 ys m')"

section \<open>What the code reads of a body\<close>

text \<open>The body of a request as the decoders see it, when they can read it.\<close>

definition body_of :: "('j \<Rightarrow> exn + 'b) \<Rightarrow> 'j HttpRequest \<Rightarrow> 'b option" where
  "body_of dec req = (case rq_json req of None \<Rightarrow> None | Some j \<Rightarrow> (case dec j of Inl _ \<Rightarrow> None | Inr c \<Rightarrow> Some c))"

lemma at_id_alt:
  "at_id y m x m' P = (case from_string y of
      Inl e \<Rightarrow> x = Inl e \<and> m' = m
    | Inr k \<Rightarrow> if is_valid k then P k else rejects 400 m x m')"
  using from_string_raises[of y] by (auto simp: at_id_def is_valid_iff split: if_splits)

lemma members:
  "text_at lib j k x \<longleftrightarrow> at_string lib j k = Inr x"
  "number_at lib j k n \<longleftrightarrow> at_int64 lib j k = Inr n"
  "id_at lib j k u \<longleftrightarrow> sum_bind (at_string lib j k) from_string = Inr u"
  by (auto simp: text_at_def number_at_def id_at_def at_string_def at_int64_def sum_bind_eq_Inr)

lemma if_present_iff:
  "if_present lib j k r = Inr v \<longleftrightarrow> (case v of None \<Rightarrow> \<not> j_contains lib j k | Some y \<Rightarrow> j_contains lib j k \<and> r = Inr y)"
  by (cases r) (auto simp: if_present_def split: option.split)

lemma given_or_present:
  assumes "\<And>y. member lib j k y \<longleftrightarrow> r = Inr y" and "if_present lib j k r = Inr v"
  shows "given_or lib j k member d y \<longleftrightarrow> y = (case v of None \<Rightarrow> d | Some z \<Rightarrow> z)"
  using assms(2) unfolding if_present_iff given_or_def assms(1) by (auto split: option.splits)

lemmas given_text = given_or_present[where member = text_at, OF members(1)]
lemmas given_number = given_or_present[where member = number_at, OF members(2)]
lemmas given_id = given_or_present[where member = id_at, OF members(3)]

lemma item_eq_iff:
  "(i :: Item) = i' \<longleftrightarrow> item_id i = item_id i' \<and> sku i = sku i' \<and> item_name i = item_name i' \<and>
     item_description i = item_description i' \<and> category_id i = category_id i' \<and> supplier_id i = supplier_id i' \<and>
     amount (unit_price i) = amount (unit_price i') \<and> currency (unit_price i) = currency (unit_price i') \<and>
     qty (stock i) = qty (stock i') \<and> unit_of (stock i) = unit_of (stock i') \<and>
     qty (min_stock i) = qty (min_stock i') \<and> unit_of (min_stock i) = unit_of (min_stock i') \<and>
     item_status i = item_status i' \<and> created_at i = created_at i' \<and> updated_at i = updated_at i'"
  by (cases i; cases i') (auto intro: Money.equality Quantity.equality)

lemma asked_item_decoded:
  assumes "create_from_json lib j = Inr c"
  shows "asked_item lib j r0 r1 now i \<longleftrightarrow> i = requested_item r0 r1 now (to_create_request c)"
proof -
  obtain cur un where cur: "if_present lib j ''currency'' (at_string lib j ''currency'') = Inr cur"
    and un: "if_present lib j ''stock_unit'' (at_string lib j ''stock_unit'') = Inr un"
    and rest: "at_string lib j ''sku'' = Inr (ci_sku c)" "at_string lib j ''name'' = Inr (ci_name c)"
      "at_string lib j ''description'' = Inr (ci_description c)"
      "sum_bind (at_string lib j ''category_id'') from_string = Inr (ci_category_id c)"
      "sum_bind (at_string lib j ''supplier_id'') from_string = Inr (ci_supplier_id c)"
      "at_int64 lib j ''unit_price_amount'' = Inr (ci_unit_price_amount c)"
      "at_int64 lib j ''stock_quantity'' = Inr (ci_stock_quantity c)"
      "at_int64 lib j ''min_stock_quantity'' = Inr (ci_min_stock_quantity c)"
      "ci_currency c = (case cur of None \<Rightarrow> ''IDR'' | Some z \<Rightarrow> z)" "ci_stock_unit c = (case un of None \<Rightarrow> ''pcs'' | Some z \<Rightarrow> z)"
    using assms unfolding create_from_json_def sum_bind_eq_Inr by (elim exE conjE) auto
  show ?thesis
    unfolding asked_item_def given_text[OF cur] given_text[OF un] members rest item_eq_iff
    by (auto simp: requested_item_def Item_new_def to_create_request_def rest(9,10))
qed

lemma asked_item_readable:
  assumes "asked_item lib j r0 r1 now i"
  shows "\<exists>c. create_from_json lib j = Inr c"
proof -
  have opt: "\<exists>v. if_present lib j k (at_string lib j k) = Inr v" if "given_or lib j k text_at d y" for k d y
    using that by (cases "j_contains lib j k") (auto simp: given_or_def members if_present_def)
  obtain cur un where "if_present lib j ''currency'' (at_string lib j ''currency'') = Inr cur"
    "if_present lib j ''stock_unit'' (at_string lib j ''stock_unit'') = Inr un"
    using assms opt unfolding asked_item_def by metis
  then show ?thesis using assms unfolding asked_item_def members by (simp add: create_from_json_def)
qed

lemma sellable_valid: "sellable (requested_item r0 r1 now (to_create_request c)) \<longleftrightarrow> validate_create c = Inr ()"
  unfolding validate_create_iff
  by (auto simp: sellable_def requested_item_def Item_new_def to_create_request_def create_valid_def)

lemma spec_create_alt:
  "spec_create lib ctime storable req r0 r1 now m x m' =
     (case body_of (create_from_json lib) req of
        None \<Rightarrow> rejects 400 m x m'
      | Some c \<Rightarrow>
          if validate_create c \<noteq> Inr () then rejects 422 m x m'
          else if \<exists>k i. m k = Some i \<and> sku i = ci_sku c then rejects 409 m x m'
          else
            (let i0 = requested_item r0 r1 now (to_create_request c)
             in (\<exists>i. same_item i0 i \<and> m (generate r0 r1) = None \<and> m' = m(generate r0 r1 \<mapsto> i) \<and>
                  x = Inr ((make_json_response (item_json lib ctime i))\<lparr>rp_status := 201\<rparr>)) \<or>
                \<not> (storable i0 \<and> m (generate r0 r1) = None) \<and> rejects 500 m x m'))"
proof (cases "rq_json req")
  case (Some j)
  show ?thesis
  proof (cases "create_from_json lib j")
    case (Inl e)
    then have "\<nexists>i0. asked_item lib j r0 r1 now i0" using asked_item_readable[of lib j] by fastforce
    then show ?thesis using Some Inl by (simp add: spec_create_def body_of_def)
  next
    case (Inr c)
    have "sku (requested_item r0 r1 now (to_create_request c)) = ci_sku c" by (simp add: to_create_request_def)
    then show ?thesis using Some Inr
      by (simp add: spec_create_def body_of_def asked_item_decoded[OF Inr] sellable_valid Let_def del: requested_item_fields) blast
  qed
qed (simp add: spec_create_def body_of_def)

lemma change_readable_iff: "change_readable lib j \<longleftrightarrow> (\<exists>u. update_from_json lib j = Inr u)"
proof -
  have opt: "(\<exists>v. if_present lib j k r = Inr v) \<longleftrightarrow> (j_contains lib j k \<longrightarrow> (\<exists>y. r = Inr y))" for k and r :: "exn + 'c"
    by (cases r) (auto simp: if_present_def)
  have bind: "(\<exists>u. sum_bind r f = Inr u) \<longleftrightarrow> (\<exists>x. r = Inr x \<and> (\<exists>u. f x = Inr u))" for r :: "exn + 'c" and f :: "'c \<Rightarrow> exn + 'd"
    unfolding sum_bind_eq_Inr by blast
  show ?thesis
    unfolding change_readable_def members ball_simps opt[symmetric] unfolding update_from_json_def bind
    by (simp only: ex_simps simp_thms sum.inject) blast
qed

lemma change_decoded:
  assumes "update_from_json lib j = Inr u"
  shows "change_allowed lib j \<longleftrightarrow> validate_update u = Inr ()"
    and "j_contains lib j ''name'' \<and> text_at lib j ''name'' [] \<longleftrightarrow> ui_name u = Some []"
    and "changed_item lib j now i i' \<longleftrightarrow> i' = updated_item (to_update_request k u) now i"
proof -
  have f: "at_string lib j ''sku'' = Inr (ui_sku u)"
    "if_present lib j ''name'' (at_string lib j ''name'') = Inr (ui_name u)"
    "if_present lib j ''description'' (at_string lib j ''description'') = Inr (ui_description u)"
    "if_present lib j ''category_id'' (sum_bind (at_string lib j ''category_id'') from_string) = Inr (ui_category_id u)"
    "if_present lib j ''supplier_id'' (sum_bind (at_string lib j ''supplier_id'') from_string) = Inr (ui_supplier_id u)"
    "if_present lib j ''unit_price_amount'' (at_int64 lib j ''unit_price_amount'') = Inr (ui_unit_price_amount u)"
    "if_present lib j ''stock_quantity'' (at_int64 lib j ''stock_quantity'') = Inr (ui_stock_quantity u)"
    "if_present lib j ''min_stock_quantity'' (at_int64 lib j ''min_stock_quantity'') = Inr (ui_min_stock_quantity u)"
    "ui_status u = None"
    using assms unfolding update_from_json_def sum_bind_eq_Inr by auto
  have num: "(\<forall>n. j_contains lib j k \<and> number_at lib j k n \<longrightarrow> 0 \<le> sint n) \<longleftrightarrow> \<not> negative v"
    if "if_present lib j k (at_int64 lib j k) = Inr v" for k v
    using that unfolding if_present_iff members not_negative by (auto split: option.splits)
  show "change_allowed lib j \<longleftrightarrow> validate_update u = Inr ()"
    unfolding change_allowed_def validate_update_iff ball_simps num[OF f(6)] num[OF f(7)] num[OF f(8)] members(1) f(1) by auto
  show "j_contains lib j ''name'' \<and> text_at lib j ''name'' [] \<longleftrightarrow> ui_name u = Some []"
    using f(2) unfolding if_present_iff members by (auto split: option.splits)
  show "changed_item lib j now i i' \<longleftrightarrow> i' = updated_item (to_update_request k u) now i"
    unfolding changed_item_def given_text[OF f(2)] given_text[OF f(3)] given_id[OF f(4)] given_id[OF f(5)]
      given_number[OF f(6)] given_number[OF f(7)] given_number[OF f(8)] item_eq_iff
    by (auto simp: updated_item_def to_update_request_def f(9))
qed

lemma spec_update_alt:
  "spec_update lib ctime storable req y now m x m' =
     at_id y m x m' (\<lambda>k.
       case body_of (update_from_json lib) req of
         None \<Rightarrow> rejects 400 m x m'
       | Some u \<Rightarrow>
           if validate_update u \<noteq> Inr () then rejects 422 m x m'
           else (case m k of
               None \<Rightarrow> rejects 404 m x m'
             | Some i \<Rightarrow>
                 if ui_name u = Some [] then rejects 422 m x m'
                 else
                   (let i0 = updated_item (to_update_request k u) now i
                    in (\<exists>i'. same_item i0 i' \<and> created_at i' = created_at i \<and>
                         m' = m(k \<mapsto> i') \<and> x = Inr (make_json_response (item_json lib ctime i'))) \<or>
                       \<not> storable i0 \<and> rejects 500 m x m')))"
proof (cases "rq_json req")
  case (Some j)
  show ?thesis
  proof (cases "update_from_json lib j")
    case (Inl e)
    then have "\<not> change_readable lib j" by (simp add: change_readable_iff)
    then show ?thesis using Some Inl by (simp add: spec_update_def body_of_def)
  next
    case (Inr u)
    then have "change_readable lib j" by (simp add: change_readable_iff)
    moreover define U where "U = updated_item (to_update_request Uuid_default u) now"
    then have "updated_item (to_update_request k u) now i = U i" "changed_item lib j now i i' \<longleftrightarrow> i' = U i" for i i' k
      using change_decoded(3)[where k = Uuid_default, OF Inr] by (simp_all add: updated_item_def to_update_request_def)
    ultimately show ?thesis using Some Inr unfolding spec_update_def
      by (simp add: body_of_def change_decoded(1,2)[OF Inr] Let_def cong: option.case_cong)
  qed
qed (simp add: spec_update_def body_of_def)

lemma rejectsI: "rp_status resp = code \<Longrightarrow> rejects code m (Inr resp) m"
  by (simp add: rejects_def answered_def)

section \<open>Repositories that succeed or change nothing\<close>

definition server_fault :: "Error \<Rightarrow> bool" where
  "server_fault e \<longleftrightarrow> err_code e = kDatabaseError \<or> err_code e = kInternalError"

locale exact_repository = item_repository repo table ready storable
  for repo :: "'s ItemRepository" and table :: "'s \<Rightarrow> Uuid \<Rightarrow> Item option" and ready :: "'s \<Rightarrow> bool"
    and storable :: "Item \<Rightarrow> bool" +
  assumes saves_or_fails: "ready s \<Longrightarrow> item_ok i \<Longrightarrow> in_clock (created_at i) \<Longrightarrow> in_clock (updated_at i) \<Longrightarrow>
      \<exists>r s'. save repo i s = Some (r, s') \<and> ready s' \<and>
        (case r of
           Inr j \<Rightarrow> same_item i j \<and> table s (item_id i) = None \<and> table s' = (table s)(item_id i \<mapsto> j)
         | Inl e \<Rightarrow> server_fault e \<and> table s' = table s)"
    and updates_or_fails: "ready s \<Longrightarrow> item_ok i \<Longrightarrow> in_clock (updated_at i) \<Longrightarrow> table s (item_id i) = Some i0 \<Longrightarrow>
      \<exists>r s'. update repo i s = Some (r, s') \<and> ready s' \<and>
        (case r of
           Inr j \<Rightarrow> same_item i j \<and> created_at j = created_at i0 \<and> table s' = (table s)(item_id i \<mapsto> j)
         | Inl e \<Rightarrow> server_fault e \<and> table s' = table s)"
    and pages: "ready s \<Longrightarrow> \<exists>r s'. find_all repo f s = Some (r, s') \<and> ready s' \<and> table s' = table s"
    and counts: "ready s \<Longrightarrow> \<exists>r s'. count_items repo f s = Some (r, s') \<and> ready s' \<and> table s' = table s"
begin

lemma create_exact:
  assumes s: "ready s" and v: "create_valid req" and now: "in_clock now"
    and free: "\<not> (\<exists>k i. table s k = Some i \<and> sku i = cr_sku req)"
  shows "\<exists>r s'. create_execute repo r0 r1 now req s = Some (r, s') \<and> ready s' \<and>
    (case r of
       Inr i \<Rightarrow> same_item (requested_item r0 r1 now req) i \<and> table s (generate r0 r1) = None \<and>
         table s' = (table s)(generate r0 r1 \<mapsto> i)
     | Inl e \<Rightarrow> server_fault e \<and> \<not> (storable (requested_item r0 r1 now req) \<and> table s (generate r0 r1) = None) \<and>
         table s' = table s)"
proof -
  let ?i = "requested_item r0 r1 now req"
  have ok: "item_ok ?i" using requested_item_ok[OF v] .
  have clocks: "in_clock (created_at ?i)" "in_clock (updated_at ?i)" using now by (simp_all add: requested_item_def Item_new_def)
  obtain q s1 where 1: "find_by_sku repo (cr_sku req) s = Some (q, s1)" "ready s1" "table s1 = table s"
    and q: "case q of Inr i \<Rightarrow> table s (item_id i) = Some i \<and> sku i = cr_sku req
       | Inl e \<Rightarrow> err_code e = kNotFound \<and> (\<forall>k i. table s k = Some i \<longrightarrow> sku i \<noteq> cr_sku req)"
    using by_sku[OF s] by blast
  obtain e where e: "q = Inl e" using q free by (cases q) auto
  have run: "create_execute repo r0 r1 now req s = save repo ?i s1" using 1(1) e by (simp add: create_execute_valid[OF v])
  obtain r s' where r: "save repo ?i s1 = Some (r, s')" "ready s'"
    and c: "case r of Inr j \<Rightarrow> same_item ?i j \<and> table s1 (item_id ?i) = None \<and> table s' = (table s1)(item_id ?i \<mapsto> j)
         | Inl e \<Rightarrow> server_fault e \<and> table s' = table s1"
    using saves_or_fails[OF 1(2) ok clocks] by blast
  show ?thesis
  proof (cases r)
    case (Inr j)
    then show ?thesis using run r c 1(3) by simp
  next
    case (Inl f)
    have "\<not> (storable ?i \<and> table s (generate r0 r1) = None)"
    proof
      assume st: "storable ?i \<and> table s (generate r0 r1) = None"
      have "sku_free (table s1) (item_id ?i) (sku ?i)" using free 1(3) by (auto simp: sku_free_def)
      then show False using saves[OF 1(2) _ ok] st r(1) Inl 1(3) by simp
    qed
    then show ?thesis using run r c Inl 1(3) by simp
  qed
qed

lemma update_exact:
  assumes s: "ready s" and i: "table s (ur_id req) = Some i" and v: "update_valid req" and now: "in_clock now"
  shows "\<exists>r s'. update_execute repo now req s = Some (r, s') \<and> ready s' \<and>
    (case r of
       Inr j \<Rightarrow> same_item (updated_item req now i) j \<and> created_at j = created_at i \<and> table s' = (table s)(ur_id req \<mapsto> j)
     | Inl e \<Rightarrow> server_fault e \<and> \<not> storable (updated_item req now i) \<and> table s' = table s)"
proof -
  let ?i = "updated_item req now i"
  have ok: "item_id i = ur_id req" "item_ok i" "sku_free (table s) (ur_id req) (sku i)"
    using table_wf[OF s] i by (auto simp: table_ok_def)
  have new: "item_id ?i = ur_id req" "sku ?i = sku i" "item_ok ?i" "in_clock (updated_at ?i)"
    using ok(1) updated_item_ok[OF ok(2) v, of now] now by (simp_all add: updated_item_def)
  obtain s1 where 1: "find_by_id repo (ur_id req) s = Some (Inr i, s1)" "ready s1" "table s1 = table s"
    using by_id[OF s, of "ur_id req"] i by auto
  have run: "update_execute repo now req s = update repo ?i s1"
    using 1(1) apply_update_valid[OF ok(2) v] by (simp add: update_execute_def)
  have at: "table s1 (item_id ?i) = Some i" using i 1(3) new(1) by simp
  obtain r s' where r: "update repo ?i s1 = Some (r, s')" "ready s'"
    and c: "case r of Inr j \<Rightarrow> same_item ?i j \<and> created_at j = created_at i \<and> table s' = (table s1)(item_id ?i \<mapsto> j)
         | Inl e \<Rightarrow> server_fault e \<and> table s' = table s1"
    using updates_or_fails[OF 1(2) new(3,4) at] by blast
  show ?thesis
  proof (cases r)
    case (Inr j)
    then show ?thesis using run r c 1(3) new(1) by simp
  next
    case (Inl f)
    have "sku_free (table s1) (item_id ?i) (sku ?i)" using ok(3) 1(3) new(1,2) by simp
    then have "\<not> storable ?i" using updates[OF 1(2) _ new(3) at] r(1) Inl by auto
    then show ?thesis using run r c Inl 1(3) by simp
  qed
qed

text \<open>Every handler answers as the catalog does.\<close>

lemma createItem_step:
  assumes "ready s" and "in_clock now"
  shows "\<exists>x s'. createItem lib ctime repo r0 r1 now req s = Some (x, s') \<and> ready s' \<and>
    spec_create lib ctime storable req r0 r1 now (table s) x (table s')"
proof (cases "body_of (create_from_json lib) req")
  case None
  then show ?thesis using assms(1)
    by (auto simp: createItem_def spec_create_alt body_of_def bad_json_def bad_body_def rejectsI split: option.splits sum.splits)
next
  case (Some c)
  then obtain j where j: "rq_json req = Some j" "create_from_json lib j = Inr c"
    by (auto simp: body_of_def split: option.splits sum.splits)
  show ?thesis
  proof (cases "validate_create c")
    case (Inl e)
    then show ?thesis using j Some assms(1) by (simp add: createItem_def spec_create_alt rejectsI)
  next
    case (Inr z)
    let ?req = "to_create_request c"
    have v: "validate_create c = Inr ()" and valid: "create_valid ?req" and sk: "cr_sku ?req = ci_sku c"
      using Inr validate_create_iff by (simp_all add: to_create_request_def)
    show ?thesis
    proof (cases "\<exists>k i. table s k = Some i \<and> sku i = ci_sku c")
      case True
      then obtain k i where "table s k = Some i" "sku i = cr_sku ?req" using sk by auto
      from create_duplicate[OF assms(1) valid this, of r0 r1 now] obtain e s' where
        "create_execute repo r0 r1 now ?req s = Some (Inl e, s')" "err_code e = kConflict" "ready s'" "table s' = table s" by blast
      then show ?thesis using j Some v True by (simp add: createItem_def spec_create_alt rejectsI)
    next
      case False
      obtain r s' where r: "create_execute repo r0 r1 now ?req s = Some (r, s')" "ready s'"
        "case r of
           Inr i \<Rightarrow> same_item (requested_item r0 r1 now ?req) i \<and> table s (generate r0 r1) = None \<and>
             table s' = (table s)(generate r0 r1 \<mapsto> i)
         | Inl e \<Rightarrow> server_fault e \<and> \<not> (storable (requested_item r0 r1 now ?req) \<and> table s (generate r0 r1) = None) \<and>
             table s' = table s"
        using create_exact[OF assms(1) valid assms(2), of r0 r1] False unfolding sk by blast
      show ?thesis
        using j Some v False r
        by (cases r) (auto simp: createItem_def spec_create_alt Let_def rejectsI server_fault_def)
    qed
  qed
qed

lemma getItemById_step:
  assumes "ready s"
  shows "\<exists>x s'. getItemById lib ctime repo y s = Some (x, s') \<and> ready s' \<and> spec_get lib ctime y (table s) x (table s')"
proof (cases "from_string y")
  case (Inr k)
  show ?thesis
  proof (cases "is_valid k")
    case True
    obtain r s' where "get_execute repo k s = Some (r, s')" "ready s'" "table s' = table s"
      "case table s k of Some i \<Rightarrow> r = Inr i | None \<Rightarrow> \<exists>m. r = Inl (not_found m)"
      using get_stored[OF assms True] by blast
    then show ?thesis using Inr True
      by (cases "table s k") (auto simp: getItemById_def spec_get_def at_id_alt rejectsI)
  qed (use Inr assms in \<open>simp add: getItemById_def spec_get_def at_id_alt bad_id_def rejectsI\<close>)
qed (use assms in \<open>simp add: getItemById_def spec_get_def at_id_alt\<close>)

lemma deleteItem_step:
  assumes "ready s"
  shows "\<exists>x s'. deleteItem lib repo y s = Some (x, s') \<and> ready s' \<and> spec_delete y (table s) x (table s')"
proof (cases "from_string y")
  case (Inr k)
  show ?thesis
  proof (cases "is_valid k")
    case True
    obtain r s' where "delete_execute repo k s = Some (r, s')" "ready s'"
      "if table s k = None then (\<exists>m. r = Inl (not_found m)) \<and> table s' = table s
       else r = Inr () \<and> table s' = (table s)(k := None)"
      using delete_stored[OF assms True] by blast
    then show ?thesis using Inr True
      by (cases "table s k") (auto simp: deleteItem_def spec_delete_def at_id_alt rejectsI)
  qed (use Inr assms in \<open>simp add: deleteItem_def spec_delete_def at_id_alt bad_id_def rejectsI\<close>)
qed (use assms in \<open>simp add: deleteItem_def spec_delete_def at_id_alt\<close>)

lemma updateItem_valid_step:
  assumes s: "ready s" and now: "in_clock now" and k: "from_string y = Inr k" "is_valid k"
    and u: "rq_json req = Some j" "update_from_json lib j = Inr u" and v: "validate_update u = Inr ()"
  shows "\<exists>x s'. updateItem lib ctime repo now req y s = Some (x, s') \<and> ready s' \<and>
    spec_update lib ctime storable req y now (table s) x (table s')"
proof -
  let ?req = "to_update_request k u"
  have id: "ur_id ?req = k" and valid: "update_valid ?req \<longleftrightarrow> ui_name u \<noteq> Some []"
    using v unfolding validate_update_iff not_negative update_valid_def by (simp_all add: to_update_request_def)
  have "ui_status u = None" using u(2) by (auto simp: update_from_json_def sum_bind_eq_Inr)
  then have st: "item_status (updated_item ?req now i) = item_status i" for i by (simp add: updated_item_def to_update_request_def)
  have body: "body_of (update_from_json lib) req = Some u" using u by (simp add: body_of_def)
  have run: "updateItem lib ctime repo now req y s =
      op_bind (update_execute repo now ?req) (\<lambda>r. op_return (Inr (update_answer lib ctime r))) s"
    using updateItem_run[OF k u, of ctime repo now s] v by simp
  show ?thesis
  proof (cases "table s k")
    case None
    obtain m s' where "find_by_id repo k s = Some (Inl (not_found m), s')" "ready s'" "table s' = table s"
      using by_id[OF s, of k] None by auto
    then show ?thesis using None k v body id
      by (simp add: run update_execute_def update_answer_def spec_update_alt at_id_alt rejectsI)
  next
    case (Some i)
    show ?thesis
    proof (cases "update_valid ?req")
      case False
      obtain e s' where "update_execute repo now ?req s = Some (Inl e, s')" "ready s'" "err_code e = kValidationError" "table s' = table s"
        using update_stored[OF s, of ?req i now] Some False id by auto
      then show ?thesis using Some k v body False valid
        by (simp add: run update_answer_def spec_update_alt at_id_alt rejectsI)
    next
      case True
      obtain r s' where r: "update_execute repo now ?req s = Some (r, s')" "ready s'"
        "case r of
           Inr j \<Rightarrow> same_item (updated_item ?req now i) j \<and> created_at j = created_at i \<and> table s' = (table s)(k \<mapsto> j)
         | Inl e \<Rightarrow> server_fault e \<and> \<not> storable (updated_item ?req now i) \<and> table s' = table s"
        using update_exact[OF s _ True now, of i] Some unfolding id by blast
      show ?thesis
      proof (cases r)
        case (Inl e)
        then show ?thesis using r Some k v body True valid
          by (auto simp: run update_answer_def spec_update_alt at_id_alt Let_def rejectsI server_fault_def)
      next
        case (Inr i')
        then have "item_status i' = item_status i" using r(3) st[of i] same_item_fields[of "updated_item ?req now i" i'] by simp
        then show ?thesis using Inr r Some k v body True valid
          by (auto simp: run update_answer_def spec_update_alt at_id_alt Let_def)
      qed
    qed
  qed
qed

lemma updateItem_step:
  assumes "ready s" and "in_clock now"
  shows "\<exists>x s'. updateItem lib ctime repo now req y s = Some (x, s') \<and> ready s' \<and>
    spec_update lib ctime storable req y now (table s) x (table s')"
proof -
  consider e where "from_string y = Inl e" | k where "from_string y = Inr k" "\<not> is_valid k"
    | k where "from_string y = Inr k" "is_valid k" "body_of (update_from_json lib) req = None"
    | k u where "from_string y = Inr k" "is_valid k" "body_of (update_from_json lib) req = Some u"
    by (metis sum.exhaust option.exhaust)
  then show ?thesis
  proof cases
    case 3
    then show ?thesis using assms(1)
      by (auto simp: updateItem_def spec_update_alt at_id_alt body_of_def bad_json_def bad_body_def rejectsI split: option.splits sum.splits)
  next
    case 4
    then obtain j where j: "rq_json req = Some j" "update_from_json lib j = Inr u"
      by (auto simp: body_of_def split: option.splits sum.splits)
    show ?thesis
    proof (cases "validate_update u")
      case (Inl e)
      then show ?thesis using j 4 assms(1) by (simp add: updateItem_def spec_update_alt at_id_alt rejectsI)
    next
      case (Inr z)
      then show ?thesis using updateItem_valid_step[OF assms 4(1,2) j] by simp
    qed
  qed (use assms(1) in \<open>simp_all add: updateItem_def spec_update_alt at_id_alt bad_id_def rejectsI\<close>)
qed

lemma getAllItems_step:
  assumes "ready s"
  shows "\<exists>x s'. getAllItems lib ctime ub repo req s = Some (x, s') \<and> ready s' \<and> spec_list req (table s) x (table s')"
proof (cases "filter_of_params (rq_params req)")
  case (Inr f)
  obtain r1 s1 where 1: "find_all repo f s = Some (r1, s1)" "ready s1" "table s1 = table s" using pages[OF assms] by blast
  obtain r2 s2 where 2: "count_items repo f s1 = Some (r2, s2)" "ready s2" "table s2 = table s1" using counts[OF 1(2)] by blast
  obtain r s' where "list_execute repo f s = Some (r, s')" "ready s'" "table s' = table s"
    using 1 2 by (cases r1; cases r2) (auto simp: list_execute_def)
  then show ?thesis using Inr by (cases r) (auto simp: getAllItems_def spec_list_def answered_def)
qed (use assms in \<open>simp add: getAllItems_def spec_list_def\<close>)

lemma handle_step:
  assumes "ready s" and "in_clock (call_time c)"
  shows "\<exists>x s'. handle lib ctime ub repo c s = Some (x, s') \<and> ready s' \<and> catalog_step lib ctime storable c (table s) x (table s')"
proof -
  have "patchItem lib ctime repo t req y = updateItem lib ctime repo t req y" for t req y
    by (simp only: patchItem_def updateItem_def)
  then show ?thesis
    using assms by (cases c) (simp_all add: createItem_step getItemById_step deleteItem_step updateItem_step getAllItems_step)
qed

lemma handle_all_run:
  "ready s \<Longrightarrow> \<forall>c \<in> set cs. in_clock (call_time c) \<Longrightarrow>
   \<exists>xs s'. handle_all lib ctime ub repo cs s = Some (xs, s') \<and> ready s' \<and>
     catalog_run lib ctime storable cs (table s) xs (table s')"
proof (induction cs arbitrary: s)
  case (Cons c cs)
  obtain x s1 where 1: "handle lib ctime ub repo c s = Some (x, s1)" "ready s1" "catalog_step lib ctime storable c (table s) x (table s1)"
    using handle_step[OF Cons.prems(1), of c lib ctime ub] Cons.prems(2) by auto
  obtain xs s' where "handle_all lib ctime ub repo cs s1 = Some (xs, s')" "ready s'"
    "catalog_run lib ctime storable cs (table s1) xs (table s')"
    using Cons.IH[OF 1(2)] Cons.prems(2) by auto
  then show ?case using 1 by auto
qed simp

end

section \<open>PostgreSQL\<close>

text \<open>An insert or update that succeeds returns the row it has written.\<close>

locale sql_exact = sql_items_strict pq rows_of up view storable
  for pq :: "('d, 't) pqxx" and rows_of :: "'d \<Rightarrow> string \<Rightarrow> row option" and up :: "'d \<Rightarrow> bool"
    and view :: "'t \<Rightarrow> 'd" and storable :: "Item \<Rightarrow> bool" +
  assumes ins_returns: "up (view t) \<Longrightarrow> item_ok i \<Longrightarrow> in_clock (created_at i) \<Longrightarrow> in_clock (updated_at i) \<Longrightarrow>
      exec_sql pq sql_item_insert
        (item_params i @ [PText (format_iso8601 (created_at i)), PText (format_iso8601 (updated_at i))]) t = Inr (res, t') \<Longrightarrow>
      \<exists>r. rows res = [r] \<and> row_holds pq i r \<and> rows_of (view t) (to_string (item_id i)) = None \<and>
        sku_unused (rows_of (view t)) (to_string (item_id i)) (sku i) \<and> up (view t') \<and>
        rows_of (view t') = (rows_of (view t))(to_string (item_id i) \<mapsto> r)"
    and upd_returns: "up (view t) \<Longrightarrow> rows_ok pq (rows_of (view t)) \<Longrightarrow> item_ok i \<Longrightarrow> in_clock (updated_at i) \<Longrightarrow>
      rows_of (view t) (to_string (item_id i)) = Some r0 \<Longrightarrow>
      exec_sql pq sql_item_update (item_params i @ [PText (format_iso8601 (updated_at i))]) t = Inr (res, t') \<Longrightarrow>
      \<exists>r. rows res = [r] \<and> row_holds pq i r \<and> r ''created_at'' = r0 ''created_at'' \<and>
        sku_unused (rows_of (view t)) (to_string (item_id i)) (sku i) \<and> up (view t') \<and>
        rows_of (view t') = (rows_of (view t))(to_string (item_id i) \<mapsto> r)"
begin

text \<open>A session whose body is known on the first connection: it fails and leaves the database, or it commits.\<close>

lemma session_at_fails:
  fixes body :: "conn \<Rightarrow> 'd \<Rightarrow> (db_exn + 'b Result) \<times> 'd"
  assumes s: "pg_ready pq rows_of up s" and c: "m_pool (bk_pool s) = c # cs" and body: "body c (bk_db s) = (Inl x, bk_db s)"
  shows "\<exists>e s'. session pq fn body s = Some (Inl e, s') \<and> pg_ready pq rows_of up s' \<and> server_fault e \<and>
    pg_table pq rows_of s' = pg_table pq rows_of s"
proof -
  have up: "up (bk_db s)" and pool: "pool_ready (bk_pool s)" using s by (simp_all add: pg_ready_def)
  obtain e where e: "catch_exn (sql_failure fn) (other_failure fn) (Inl x :: db_exn + 'b Result) = Inl e" "server_fault e"
    by (cases x) (auto simp: server_fault_def sql_failure_def other_failure_def)
  have "session pq fn body s = Some (Inl e, s\<lparr>bk_pool := (bk_pool s)\<lparr>m_pool := cs @ [c]\<rparr>\<rparr>)"
    using with_session_open[where body = body and f = "sql_failure fn" and g = "other_failure fn", OF pool c open_conn[OF up] body] open_conn[OF up] e(1)
    by (simp add: session_def)
  then show ?thesis using s e(2) pool_ready_rotate[OF pool c] by (simp add: pg_ready_def pg_table_def)
qed

lemma session_at_commits:
  assumes s: "pg_ready pq rows_of up s" and c: "m_pool (bk_pool s) = c # cs" and body: "body c (bk_db s) = (Inr r, d)"
    and d: "up d" "rows_ok pq (rows_of d)"
  shows "\<exists>s'. session pq fn body s = Some (r, s') \<and> pg_ready pq rows_of up s' \<and> pg_table pq rows_of s' = items_of pq (rows_of d)"
proof -
  have up: "up (bk_db s)" and pool: "pool_ready (bk_pool s)" using s by (simp_all add: pg_ready_def)
  have "session pq fn body s = Some (r, s\<lparr>bk_pool := (bk_pool s)\<lparr>m_pool := cs @ [c]\<rparr>, bk_db := d\<rparr>)"
    using with_session_open[where body = body and f = "sql_failure fn" and g = "other_failure fn", OF pool c open_conn[OF up] body] open_conn[OF d(1)]
    by (simp add: session_def)
  then show ?thesis using d pool_ready_rotate[OF pool c] by (simp add: pg_ready_def pg_table_def)
qed

lemma ready_conn:
  assumes "pg_ready pq rows_of up s"
  obtains c cs t where "m_pool (bk_pool s) = c # cs" and "work pq c (bk_db s) = Inr t" and "view t = bk_db s"
    and "up (bk_db s)" and "rows_ok pq (rows_of (bk_db s))"
proof -
  obtain c cs where "m_pool (bk_pool s) = c # cs" using assms by (cases "m_pool (bk_pool s)") (auto simp: pg_ready_def pool_ready_def)
  then show ?thesis using that begin_work[of "bk_db s" c] assms by (auto simp: pg_ready_def)
qed

lemma save_or_fail:
  assumes s: "pg_ready pq rows_of up s" and i: "item_ok i" "in_clock (created_at i)" "in_clock (updated_at i)"
  shows "\<exists>r s'. save (pg_item_repo pq) i s = Some (r, s') \<and> pg_ready pq rows_of up s' \<and>
    (case r of
       Inr j \<Rightarrow> same_item i j \<and> pg_table pq rows_of s (item_id i) = None \<and>
         pg_table pq rows_of s' = (pg_table pq rows_of s)(item_id i \<mapsto> j)
     | Inl e \<Rightarrow> server_fault e \<and> pg_table pq rows_of s' = pg_table pq rows_of s)"
proof -
  let ?d = "bk_db s" and ?ps = "item_params i @ [PText (format_iso8601 (created_at i)), PText (format_iso8601 (updated_at i))]"
  let ?body = "txn_commit_first pq sql_item_insert ?ps (if_empty (database ''Failed to insert item'')) (first_item pq)"
  have save: "save (pg_item_repo pq) i = session pq ''save'' ?body" by (simp add: pg_item_repo_def pg_save_def)
  obtain c cs t where c: "m_pool (bk_pool s) = c # cs" and t: "work pq c ?d = Inr t" "view t = ?d"
    and up: "up ?d" and ok: "rows_ok pq (rows_of ?d)" by (rule ready_conn[OF s])
  show ?thesis
  proof (cases "exec_sql pq sql_item_insert ?ps t")
    case (Inl x)
    then have "?body c ?d = (Inl x, ?d)" using t(1) by (simp add: txn_commit_first_def)
    from session_at_fails[where body = ?body and fn = "''save''", OF s c this] obtain e s' where
      "session pq ''save'' ?body s = Some (Inl e, s')" "pg_ready pq rows_of up s'" "server_fault e"
      "pg_table pq rows_of s' = pg_table pq rows_of s" by blast
    then show ?thesis unfolding save by simp
  next
    case (Inr y)
    obtain res t' where y: "y = (res, t')" by force
    obtain r where r: "rows res = [r]" "row_holds pq i r" "rows_of ?d (to_string (item_id i)) = None"
      "sku_unused (rows_of ?d) (to_string (item_id i)) (sku i)" "up (view t')"
      "rows_of (view t') = (rows_of ?d)(to_string (item_id i) \<mapsto> r)"
      using ins_returns[of t i res t'] Inr y up i t(2) by auto
    obtain j where j: "row_to_item pq r = Inr j" "same_item i j" using row_to_item_same[OF r(2) i(1)] by metis
    have "?body c ?d = (Inr (Inr j), view t')"
      using t(1) Inr y r(1) j(1) commits[OF r(5)] by (simp add: txn_commit_first_def if_empty_def first_item_def)
    moreover have ins: "rows_ok pq (rows_of (view t')) \<and> items_of pq (rows_of (view t')) = (items_of pq (rows_of ?d))(item_id i \<mapsto> j)"
      using items_of_insert[OF ok r(2) i(1) j(1) r(4)] r(6) by simp
    ultimately obtain s' where "session pq ''save'' ?body s = Some (Inr j, s')" "pg_ready pq rows_of up s'"
      "pg_table pq rows_of s' = items_of pq (rows_of (view t'))"
      using session_at_commits[where body = ?body and fn = "''save''", OF s c _ r(5)] by blast
    then show ?thesis unfolding save using ins r(3) j(2) items_of_None[OF ok] by (simp add: pg_table_def)
  qed
qed

lemma update_or_fail:
  assumes s: "pg_ready pq rows_of up s" and i: "item_ok i" "in_clock (updated_at i)"
    and i0: "pg_table pq rows_of s (item_id i) = Some i0"
  shows "\<exists>r s'. update (pg_item_repo pq) i s = Some (r, s') \<and> pg_ready pq rows_of up s' \<and>
    (case r of
       Inr j \<Rightarrow> same_item i j \<and> created_at j = created_at i0 \<and>
         pg_table pq rows_of s' = (pg_table pq rows_of s)(item_id i \<mapsto> j)
     | Inl e \<Rightarrow> server_fault e \<and> pg_table pq rows_of s' = pg_table pq rows_of s)"
proof -
  let ?d = "bk_db s" and ?ps = "item_params i @ [PText (format_iso8601 (updated_at i))]"
  let ?body = "txn_commit_first pq sql_item_update ?ps
    (if_empty (not_found (''Item not found for update: '' @ to_string (item_id i)))) (first_item pq)"
  have update: "update (pg_item_repo pq) i = session pq ''update'' ?body" by (simp add: pg_item_repo_def pg_update_def)
  obtain c cs t where c: "m_pool (bk_pool s) = c # cs" and t: "work pq c ?d = Inr t" "view t = ?d"
    and up: "up ?d" and ok: "rows_ok pq (rows_of ?d)" by (rule ready_conn[OF s])
  obtain r0 where r0: "rows_of ?d (to_string (item_id i)) = Some r0" "created_at i0 = read_time (r0 ''created_at'')"
    using items_of_SomeE[OF ok i0[unfolded pg_table_def]] by metis
  show ?thesis
  proof (cases "exec_sql pq sql_item_update ?ps t")
    case (Inl x)
    then have "?body c ?d = (Inl x, ?d)" using t(1) by (simp add: txn_commit_first_def)
    from session_at_fails[where body = ?body and fn = "''update''", OF s c this] obtain e s' where
      "session pq ''update'' ?body s = Some (Inl e, s')" "pg_ready pq rows_of up s'" "server_fault e"
      "pg_table pq rows_of s' = pg_table pq rows_of s" by blast
    then show ?thesis unfolding update by simp
  next
    case (Inr y)
    obtain res t' where y: "y = (res, t')" by force
    obtain r where r: "rows res = [r]" "row_holds pq i r" "r ''created_at'' = r0 ''created_at''"
      "sku_unused (rows_of ?d) (to_string (item_id i)) (sku i)" "up (view t')"
      "rows_of (view t') = (rows_of ?d)(to_string (item_id i) \<mapsto> r)"
      using upd_returns[of t i r0 res t'] Inr y up ok i t(2) r0(1) by auto
    obtain j where j: "row_to_item pq r = Inr j" "same_item i j" "created_at j = read_time (r ''created_at'')"
      using row_to_item_same[OF r(2) i(1)] by metis
    have "?body c ?d = (Inr (Inr j), view t')"
      using t(1) Inr y r(1) j(1) commits[OF r(5)] by (simp add: txn_commit_first_def if_empty_def first_item_def)
    moreover have ins: "rows_ok pq (rows_of (view t')) \<and> items_of pq (rows_of (view t')) = (items_of pq (rows_of ?d))(item_id i \<mapsto> j)"
      using items_of_insert[OF ok r(2) i(1) j(1) r(4)] r(6) by simp
    ultimately obtain s' where "session pq ''update'' ?body s = Some (Inr j, s')" "pg_ready pq rows_of up s'"
      "pg_table pq rows_of s' = items_of pq (rows_of (view t'))"
      using session_at_commits[where body = ?body and fn = "''update''", OF s c _ r(5)] by blast
    then show ?thesis unfolding update using ins r(3) r0(2) j(2,3) by (simp add: pg_table_def)
  qed
qed

text \<open>A query that only reads leaves the table as it is, also when a row cannot be converted.\<close>

lemma read_session:
  assumes s: "pg_ready pq rows_of up s" and reads: "\<And>t res t'. up (view t) \<Longrightarrow> exec_sql pq sql ps t = Inr (res, t') \<Longrightarrow> view t' = view t"
  shows "\<exists>r s'. session pq fn (txn_convert_first pq sql ps conv) s = Some (r, s') \<and> pg_ready pq rows_of up s' \<and>
    pg_table pq rows_of s' = pg_table pq rows_of s"
proof -
  let ?d = "bk_db s" and ?body = "txn_convert_first pq sql ps conv"
  obtain c cs t where c: "m_pool (bk_pool s) = c # cs" and t: "work pq c ?d = Inr t" "view t = ?d"
    and up: "up ?d" and ok: "rows_ok pq (rows_of ?d)" by (rule ready_conn[OF s])
  have "snd (?body c ?d) = ?d"
  proof -
    have "commit pq t' ?d = (?d, Inr ())" if "exec_sql pq sql ps t = Inr (res, t')" for res t'
      using reads[OF _ that] commits[of t'] t(2) up by simp
    then show ?thesis using t(1) by (auto simp: txn_convert_first_def split: sum.splits)
  qed
  then obtain r where body: "?body c ?d = (r, ?d)" by (metis prod.collapse)
  show ?thesis
  proof (cases r)
    case (Inl x)
    then show ?thesis using session_at_fails[where body = ?body and fn = fn, OF s c] body by blast
  next
    case (Inr y)
    then show ?thesis using session_at_commits[where body = ?body and fn = fn, OF s c _ up ok] body by (auto simp: pg_table_def)
  qed
qed

end

sublocale sql_exact \<subseteq> exact: exact_repository "pg_item_repo pq" "pg_table pq rows_of" "pg_ready pq rows_of up" storable
proof unfold_locales
  fix s f assume s: "pg_ready pq rows_of up s"
  show "\<exists>r s'. find_all (pg_item_repo pq) f s = Some (r, s') \<and> pg_ready pq rows_of up s' \<and> pg_table pq rows_of s' = pg_table pq rows_of s"
    by (cases "build_find_all_query f") (simp add: pg_item_repo_def pg_find_all_def, rule read_session[OF s], rule page_reads)
  show "\<exists>r s'. count_items (pg_item_repo pq) f s = Some (r, s') \<and> pg_ready pq rows_of up s' \<and> pg_table pq rows_of s' = pg_table pq rows_of s"
    by (cases "build_count_query f") (simp add: pg_item_repo_def pg_count_def, rule read_session[OF s], rule count_reads)
qed (simp_all add: save_or_fail update_or_fail)

context sql_exact begin

lemma exactness: "exact_repository (pg_item_repo pq) (pg_table pq rows_of) (pg_ready pq rows_of up) storable"
  by (rule exact.exact_repository_axioms)

end

section \<open>The executable server\<close>

lemma server_insert_returns:
  assumes ok: "item_ok i" "in_clock (created_at i)" "in_clock (updated_at i)"
    and ex: "exec_sql server_pq sql_item_insert (item_params i @ [PText (format_iso8601 (created_at i)),
      PText (format_iso8601 (updated_at i))]) t = Inr (res, t')"
  shows "\<exists>r. rows res = [r] \<and> row_holds server_pq i r \<and> server_rows t (to_string (item_id i)) = None \<and>
    sku_unused (server_rows t) (to_string (item_id i)) (sku i) \<and>
    server_rows t' = (server_rows t)(to_string (item_id i) \<mapsto> r)"
proof -
  let ?k = "to_string (item_id i)"
  let ?r = "(item_cells (item_params i))(''created_at'' \<mapsto> timestamp_text (format_iso8601 (created_at i)),
    ''updated_at'' \<mapsto> timestamp_text (format_iso8601 (updated_at i)))"
  have k0: "param_text (item_params i ! 0) = ?k" by (simp add: item_params_def)
  have run: "?k \<notin> fst ` set (srv_items t) \<and> cells_ok t ?k ?r \<and> rows res = [?r] \<and>
      t' = t\<lparr>srv_items := srv_items t @ [(?k, ?r)]\<rparr>"
    using ex k0 by (auto simp: server_pq_def server_exec_def nth_append Let_def split: if_splits simp del: fun_upd_apply)
  moreover have "row_holds server_pq i ?r"
    using ok by (intro server_row_holds parse_timestamp_text) (auto simp: in_clock_def)
  moreover have "server_rows t' = (server_rows t)(?k \<mapsto> ?r)"
    using run by (simp add: server_rows_def map_of_snoc del: fun_upd_apply map_of_append)
  moreover have "server_rows t ?k = None" using run by (simp add: server_rows_def map_of_eq_None_iff)
  ultimately show ?thesis using run cells_ok_unused by blast
qed

lemma server_update_returns:
  assumes rows: "rows_ok server_pq (server_rows t)" and ok: "item_ok i" "in_clock (updated_at i)"
    and r0: "server_rows t (to_string (item_id i)) = Some r0"
    and ex: "exec_sql server_pq sql_item_update (item_params i @ [PText (format_iso8601 (updated_at i))]) t = Inr (res, t')"
  shows "\<exists>r. rows res = [r] \<and> row_holds server_pq i r \<and> r ''created_at'' = r0 ''created_at'' \<and>
    sku_unused (server_rows t) (to_string (item_id i)) (sku i) \<and>
    server_rows t' = (server_rows t)(to_string (item_id i) \<mapsto> r)"
proof -
  let ?k = "to_string (item_id i)"
  let ?r = "(item_cells (item_params i))(''created_at'' := r0 ''created_at'',
    ''updated_at'' \<mapsto> timestamp_text (format_iso8601 (updated_at i)))"
  have k0: "param_text (item_params i ! 0) = ?k" by (simp add: item_params_def)
  have run: "cells_ok t ?k ?r \<and> rows res = [?r] \<and>
      t' = t\<lparr>srv_items := map (\<lambda>(x, q). (x, if x = ?k then ?r else q)) (srv_items t)\<rparr>"
    using ex k0 r0 by (auto simp: server_pq_def server_exec_def server_rows_def nth_append Let_def split: if_splits simp del: fun_upd_apply)
  have "holds_time (r0 ''created_at'')" using rows r0 unfolding rows_ok_def by (auto simp: row_holds_def)
  then have "row_holds server_pq i ?r"
    using ok by (intro server_row_holds parse_timestamp_text) (auto simp: in_clock_def)
  moreover have "?r ''created_at'' = r0 ''created_at''" by simp
  moreover have "?k \<in> fst ` set (srv_items t)" using r0 unfolding server_rows_def by (metis map_of_eq_None_iff option.distinct(1))
  then have "server_rows t' = (server_rows t)(?k \<mapsto> ?r)" using run by (simp add: server_rows_def map_of_update_map del: fun_upd_apply)
  ultimately show ?thesis using run cells_ok_unused by blast
qed

interpretation exact_srv: sql_exact server_pq server_rows "server_up cats sups" "\<lambda>d. d" "server_storable cats sups"
  for cats sups
proof unfold_locales
  fix t t' :: Server and i res
  assume i: "server_up cats sups t" "item_ok i" "in_clock (created_at i)" "in_clock (updated_at i)"
    and ex: "exec_sql server_pq sql_item_insert (item_params i @ [PText (format_iso8601 (created_at i)),
      PText (format_iso8601 (updated_at i))]) t = Inr (res, t')"
  from server_insert_returns[OF i(2-4) ex] strict_srv.ins_strict[OF i ex]
  show "\<exists>r. rows res = [r] \<and> row_holds server_pq i r \<and> server_rows t (to_string (item_id i)) = None \<and>
    sku_unused (server_rows t) (to_string (item_id i)) (sku i) \<and> server_up cats sups t' \<and>
    server_rows t' = (server_rows t)(to_string (item_id i) \<mapsto> r)" by blast
next
  fix t t' :: Server and i res and r0 :: row
  assume up: "server_up cats sups t" and rows: "rows_ok server_pq (server_rows t)" and i: "item_ok i" "in_clock (updated_at i)"
    and r0: "server_rows t (to_string (item_id i)) = Some r0"
    and ex: "exec_sql server_pq sql_item_update (item_params i @ [PText (format_iso8601 (updated_at i))]) t = Inr (res, t')"
  from server_update_returns[OF rows i r0 ex] strict_srv.upd_strict[OF up rows i ex]
  show "\<exists>r. rows res = [r] \<and> row_holds server_pq i r \<and> r ''created_at'' = r0 ''created_at'' \<and>
    sku_unused (server_rows t) (to_string (item_id i)) (sku i) \<and> server_up cats sups t' \<and>
    server_rows t' = (server_rows t)(to_string (item_id i) \<mapsto> r)" by blast
qed

lemma exact_shop_server: "sql_exact server_pq server_rows (server_up [shop_cat] [shop_sup]) (\<lambda>d. d) shop_storable"
  by (rule exact_srv.sql_exact_axioms)

section \<open>Property\<close>



end
