(* ===== verification/PgUsers.thy ===== *)
theory PgUsers
  imports Pqxx Repository
begin

text \<open>
  \<^verbatim>\<open>src/infrastructure/repositories/postgres_user_repository.cpp\<close>: the user repository over
  PostgreSQL, in the shape of \<^verbatim>\<open>PgItems\<close>; the reading operations keep the contract of a user
  directory that the authentication relies on.
\<close>

section \<open>Statements and rows\<close>

definition user_columns :: string where
  "user_columns = ''id, username, email, password_hash, role, is_active, created_at, updated_at''"

definition sql_user_by_id :: string where
  "sql_user_by_id = ''SELECT '' @ user_columns @ '' FROM users WHERE id = $1''"

definition sql_user_by_username :: string where
  "sql_user_by_username = ''SELECT '' @ user_columns @ '' FROM users WHERE username = $1''"

definition sql_user_by_email :: string where
  "sql_user_by_email = ''SELECT '' @ user_columns @ '' FROM users WHERE email = $1''"

definition sql_user_page :: string where
  "sql_user_page = ''SELECT '' @ user_columns @ '' FROM users ORDER BY created_at DESC LIMIT $1 OFFSET $2''"

definition sql_user_insert :: string where
  "sql_user_insert = ''INSERT INTO users ('' @ user_columns @ '') VALUES ($1, $2, $3, $4, $5, $6, $7, $8) RETURNING '' @ user_columns"

definition sql_user_update :: string where
  "sql_user_update = ''UPDATE users SET username = $2, email = $3, password_hash = $4, role = $5, is_active = $6, updated_at = $7 WHERE id = $1 RETURNING '' @ user_columns"

definition sql_user_delete :: string where
  "sql_user_delete = ''DELETE FROM users WHERE id = $1''"

text \<open>An address the check rejects is replaced by a fixed one.\<close>

definition email_or_unknown :: "string \<Rightarrow> Email" where
  "email_or_unknown x =
     value_or (Email_create x) (value_or (Email_create ''unknown@unknown.com'') Email_default)"

definition row_to_user :: "('d, 't) pqxx \<Rightarrow> row \<Rightarrow> db_exn + User" where
  "row_to_user pq r =
     sum_bind (as_text pq (r ''email'')) (\<lambda>em.
     sum_bind (as_text pq (r ''id'')) (\<lambda>id_text.
     sum_bind (lift_exn (from_string id_text)) (\<lambda>i.
     sum_bind (as_text pq (r ''username'')) (\<lambda>nm.
     sum_bind (as_text pq (r ''password_hash'')) (\<lambda>ph.
     sum_bind (as_bool_or pq True (r ''is_active'')) (\<lambda>act.
     sum_bind (as_text pq (r ''created_at'')) (\<lambda>ct.
     sum_bind (lift_exn (parse_iso8601 ct)) (\<lambda>created.
     sum_bind (as_text pq (r ''updated_at'')) (\<lambda>ut.
     sum_bind (lift_exn (parse_iso8601 ut)) (\<lambda>updated.
       Inr \<lparr>user_id = i, username = nm, user_email = email_or_unknown em, password_hash = ph,
         user_role = string_to_role (as_text_or ''viewer'' (r ''role'')), user_active = act,
         user_created_at = created, user_updated_at = updated\<rparr>))))))))))"

section \<open>The repository\<close>

definition user_session ::
  "('d, 't) pqxx \<Rightarrow> string \<Rightarrow> (conn \<Rightarrow> 'd \<Rightarrow> (db_exn + 'a Result) \<times> 'd) \<Rightarrow> ('d Backend, 'a Result) op" where
  "user_session pq fn body =
     with_session pq (\<lambda>w. database (''SQL error in '' @ fn @ '': '' @ w)) (\<lambda>w. internal (''Error in '' @ fn @ '': '' @ w)) body"

definition reject_empty :: "Error \<Rightarrow> pg_result \<Rightarrow> Error option" where
  "reject_empty e res = (if rows res = [] then Some e else None)"

definition first_user :: "('d, 't) pqxx \<Rightarrow> pg_result \<Rightarrow> db_exn + User" where
  "first_user pq res = row_to_user pq (hd (rows res))"

definition pgu_find_by_id :: "('d, 't) pqxx \<Rightarrow> Uuid \<Rightarrow> ('d Backend, User Result) op" where
  "pgu_find_by_id pq k = user_session pq ''find_by_id''
     (txn_commit_first pq sql_user_by_id [PText (to_string k)]
        (reject_empty (not_found (''User not found: '' @ to_string k))) (first_user pq))"

definition pgu_find_by_username :: "('d, 't) pqxx \<Rightarrow> string \<Rightarrow> ('d Backend, User Result) op" where
  "pgu_find_by_username pq n = user_session pq ''find_by_username''
     (txn_commit_first pq sql_user_by_username [PText n]
        (reject_empty (not_found (''User not found by username: '' @ n))) (first_user pq))"

definition pgu_find_by_email :: "('d, 't) pqxx \<Rightarrow> Email \<Rightarrow> ('d Backend, User Result) op" where
  "pgu_find_by_email pq e = user_session pq ''find_by_email''
     (txn_commit_first pq sql_user_by_email [PText (email_value e)]
        (reject_empty (not_found (''User not found by email: '' @ email_value e))) (first_user pq))"

definition pgu_find_all :: "('d, 't) pqxx \<Rightarrow> int32 \<Rightarrow> int32 \<Rightarrow> ('d Backend, User list Result) op" where
  "pgu_find_all pq page page_size = user_session pq ''find_all''
     (let offset = (page - 1) * page_size
      in txn_convert_first pq sql_user_page [PInt page_size, PInt offset]
           (\<lambda>res. sum_list_map (row_to_user pq) (rows res)))"

definition user_params :: "User \<Rightarrow> param list" where
  "user_params u =
     [PText (to_string (user_id u)), PText (username u), PText (email_value (user_email u)), PText (password_hash u),
      PText (role_to_string (user_role u)), PBool (user_active u)]"

definition pgu_save :: "('d, 't) pqxx \<Rightarrow> User \<Rightarrow> ('d Backend, User Result) op" where
  "pgu_save pq u = user_session pq ''save''
     (txn_commit_first pq sql_user_insert
        (user_params u @ [PText (format_iso8601 (user_created_at u)), PText (format_iso8601 (user_updated_at u))])
        (reject_empty (database ''Failed to insert user'')) (first_user pq))"

definition pgu_update :: "('d, 't) pqxx \<Rightarrow> User \<Rightarrow> ('d Backend, User Result) op" where
  "pgu_update pq u = user_session pq ''update''
     (txn_commit_first pq sql_user_update (user_params u @ [PText (format_iso8601 (user_updated_at u))])
        (reject_empty (not_found (''User not found for update: '' @ to_string (user_id u)))) (first_user pq))"

definition pgu_remove :: "('d, 't) pqxx \<Rightarrow> Uuid \<Rightarrow> ('d Backend, unit Result) op" where
  "pgu_remove pq k = user_session pq ''remove''
     (txn_commit_first pq sql_user_delete [PText (to_string k)]
        (\<lambda>res. if affected_rows res = 0 then Some (not_found (''User not found for deletion: '' @ to_string k)) else None)
        (\<lambda>_. Inr ()))"

definition pg_user_repo :: "('d, 't) pqxx \<Rightarrow> 'd Backend UserRepository" where
  "pg_user_repo pq = \<lparr>u_find_by_id = pgu_find_by_id pq, u_find_by_username = pgu_find_by_username pq,
     u_find_by_email = pgu_find_by_email pq, u_find_all = pgu_find_all pq, u_save = pgu_save pq,
     u_update = pgu_update pq, u_remove = pgu_remove pq\<rparr>"

section \<open>PostgreSQL on the lookups\<close>

definition user_rows_ok :: "('d, 't) pqxx \<Rightarrow> row set \<Rightarrow> bool" where
  "user_rows_ok pq rs \<longleftrightarrow>
     (\<forall>r \<in> rs. \<exists>u. row_to_user pq r = Inr u \<and> r ''id'' = Some (to_string (user_id u)) \<and> r ''username'' = Some (username u)) \<and>
     (\<forall>r \<in> rs. \<forall>q \<in> rs. r ''id'' = q ''id'' \<or> r ''username'' = q ''username'' \<longrightarrow> r = q)"

locale sql_users =
  fixes pq :: "('d, 't) pqxx"
    and rows_in :: "'d \<Rightarrow> row set"
    and up :: "'d \<Rightarrow> bool"
    and view :: "'t \<Rightarrow> 'd"
  assumes open_conn: "up d \<Longrightarrow> conn_open pq d c"
    and begin_work: "up d \<Longrightarrow> \<exists>t. work pq c d = Inr t \<and> view t = d"
    and commits: "up (view t) \<Longrightarrow> commit pq t d = (view t, Inr ())"
    and sel_id: "up (view t) \<Longrightarrow> \<exists>t' res. exec_sql pq sql_user_by_id [PText (to_string k)] t = Inr (res, t') \<and> view t' = view t \<and>
      set (rows res) = {r \<in> rows_in (view t). r ''id'' = Some (to_string k)}"
    and sel_name: "up (view t) \<Longrightarrow> \<exists>t' res. exec_sql pq sql_user_by_username [PText x] t = Inr (res, t') \<and> view t' = view t \<and>
      set (rows res) = {r \<in> rows_in (view t). r ''username'' = Some x}"

definition pg_users_ready :: "('d, 't) pqxx \<Rightarrow> ('d \<Rightarrow> row set) \<Rightarrow> ('d \<Rightarrow> bool) \<Rightarrow> 'd Backend \<Rightarrow> bool" where
  "pg_users_ready pq rows_in up s \<longleftrightarrow> pool_ready (bk_pool s) \<and> up (bk_db s) \<and> user_rows_ok pq (rows_in (bk_db s))"

definition pg_members :: "('d, 't) pqxx \<Rightarrow> ('d \<Rightarrow> row set) \<Rightarrow> 'd Backend \<Rightarrow> User set" where
  "pg_members pq rows_in s = {u. \<exists>r \<in> rows_in (bk_db s). row_to_user pq r = Inr u}"

lemma user_rowE:
  assumes "user_rows_ok pq rs" and "r \<in> rs"
  obtains u where "row_to_user pq r = Inr u" and "r ''id'' = Some (to_string (user_id u))" and "r ''username'' = Some (username u)"
  using assms unfolding user_rows_ok_def by blast

lemma row_user_cells:
  "user_rows_ok pq rs \<Longrightarrow> r \<in> rs \<Longrightarrow> row_to_user pq r = Inr u \<Longrightarrow>
     r ''id'' = Some (to_string (user_id u)) \<and> r ''username'' = Some (username u)"
  by (erule (1) user_rowE) simp

lemma members_distinct_rows:
  assumes "user_rows_ok pq (rows_in (bk_db s))"
  shows "distinct_users (pg_members pq rows_in s)"
  unfolding distinct_users_def
proof (intro ballI impI)
  fix u v
  assume "u \<in> pg_members pq rows_in s" "v \<in> pg_members pq rows_in s" and e: "user_id u = user_id v \<or> username u = username v"
  then obtain r q where r: "r \<in> rows_in (bk_db s)" "row_to_user pq r = Inr u" and q: "q \<in> rows_in (bk_db s)" "row_to_user pq q = Inr v"
    by (auto simp: pg_members_def)
  have "r = q"
    using assms e row_user_cells[OF assms r] row_user_cells[OF assms q] r(1) q(1) unfolding user_rows_ok_def by metis
  with r q show "u = v" by simp
qed

context sql_users begin

text \<open>A lookup by a column that is unique among the rows.\<close>

lemma run_lookup:
  assumes ready: "pg_users_ready pq rows_in up s"
    and sel: "\<And>t. up (view t) \<Longrightarrow> \<exists>t' res. exec_sql pq sql [PText x] t = Inr (res, t') \<and> view t' = view t \<and>
      set (rows res) = {r \<in> rows_in (view t). r col = Some x}"
    and uniq: "\<And>r q. r \<in> rows_in (bk_db s) \<Longrightarrow> q \<in> rows_in (bk_db s) \<Longrightarrow> r col = Some x \<Longrightarrow> q col = Some x \<Longrightarrow> r = q"
  shows "\<exists>r s'. user_session pq fn (txn_commit_first pq sql [PText x] (reject_empty (not_found m)) (first_user pq)) s = Some (r, s') \<and>
    pg_users_ready pq rows_in up s' \<and> pg_members pq rows_in s' = pg_members pq rows_in s \<and>
    (case r of Inr u \<Rightarrow> \<exists>q \<in> rows_in (bk_db s). q col = Some x \<and> row_to_user pq q = Inr u
     | Inl e \<Rightarrow> e = not_found m \<and> (\<forall>q \<in> rows_in (bk_db s). q col \<noteq> Some x))"
proof -
  let ?d = "bk_db s" and ?body = "txn_commit_first pq sql [PText x] (reject_empty (not_found m)) (first_user pq)"
  have up: "up ?d" and ok: "user_rows_ok pq (rows_in ?d)" and pool: "pool_ready (bk_pool s)"
    using ready by (simp_all add: pg_users_ready_def)
  obtain c cs where c: "m_pool (bk_pool s) = c # cs" using pool by (cases "m_pool (bk_pool s)") (auto simp: pool_ready_def)
  obtain t where t: "work pq c ?d = Inr t" "view t = ?d" using begin_work[OF up] by blast
  obtain t' res where t': "exec_sql pq sql [PText x] t = Inr (res, t')" "view t' = ?d"
    "set (rows res) = {r \<in> rows_in ?d. r col = Some x}" using sel[of t] up t(2) by auto
  have com: "commit pq t' ?d = (?d, Inr ())" using commits[of t'] t'(2) up by simp
  have "\<exists>r. ?body c ?d = (Inr r, ?d) \<and>
    (case r of Inr u \<Rightarrow> \<exists>q \<in> rows_in ?d. q col = Some x \<and> row_to_user pq q = Inr u
     | Inl e \<Rightarrow> e = not_found m \<and> (\<forall>q \<in> rows_in ?d. q col \<noteq> Some x))"
  proof (cases "rows res")
    case Nil
    then have none: "\<forall>q \<in> rows_in ?d. q col \<noteq> Some x" using t'(3) by auto
    have "?body c ?d = (Inr (Inl (not_found m)), ?d)"
      using t(1) t'(1) Nil by (simp add: txn_commit_first_def reject_empty_def)
    with none show ?thesis by (intro exI[of _ "Inl (not_found m)"]) simp
  next
    case (Cons q qs)
    then have q: "q \<in> rows_in ?d" "q col = Some x" using t'(3) by auto
    obtain u where u: "row_to_user pq q = Inr u" using user_rowE[OF ok q(1)] by metis
    have "?body c ?d = (Inr (Inr u), ?d)"
      using t(1) t'(1) com Cons u by (simp add: txn_commit_first_def reject_empty_def first_user_def)
    with q u show ?thesis by (intro exI[of _ "Inr u"]) auto
  qed
  then obtain r where r: "?body c ?d = (Inr r, ?d)"
    "case r of Inr u \<Rightarrow> \<exists>q \<in> rows_in ?d. q col = Some x \<and> row_to_user pq q = Inr u
     | Inl e \<Rightarrow> e = not_found m \<and> (\<forall>q \<in> rows_in ?d. q col \<noteq> Some x)" by blast
  have "user_session pq fn ?body s = Some (r, s\<lparr>bk_pool := (bk_pool s)\<lparr>m_pool := cs @ [c]\<rparr>, bk_db := ?d\<rparr>)"
    using with_session_open[OF pool c open_conn[OF up], of ?body, OF r(1)] open_conn[OF up] by (simp add: user_session_def)
  then show ?thesis using r(2) pool_ready_rotate[OF pool c] up ok by (simp add: pg_users_ready_def pg_members_def)
qed

lemma run_by_username:
  assumes "pg_users_ready pq rows_in up s"
  shows "\<exists>r s'. u_find_by_username (pg_user_repo pq) n s = Some (r, s') \<and> pg_users_ready pq rows_in up s' \<and>
    pg_members pq rows_in s' = pg_members pq rows_in s \<and>
    (case r of Inr u \<Rightarrow> u \<in> pg_members pq rows_in s \<and> username u = n
       | Inl e \<Rightarrow> err_code e = kNotFound \<and> (\<forall>u \<in> pg_members pq rows_in s. username u \<noteq> n))"
proof -
  have ok: "user_rows_ok pq (rows_in (bk_db s))" using assms by (simp add: pg_users_ready_def)
  have "\<exists>r s'. user_session pq ''find_by_username'' (txn_commit_first pq sql_user_by_username [PText n]
      (reject_empty (not_found (''User not found by username: '' @ n))) (first_user pq)) s = Some (r, s') \<and>
    pg_users_ready pq rows_in up s' \<and> pg_members pq rows_in s' = pg_members pq rows_in s \<and>
    (case r of Inr u \<Rightarrow> \<exists>q \<in> rows_in (bk_db s). q ''username'' = Some n \<and> row_to_user pq q = Inr u
     | Inl e \<Rightarrow> e = not_found (''User not found by username: '' @ n) \<and> (\<forall>q \<in> rows_in (bk_db s). q ''username'' \<noteq> Some n))"
    using ok by (intro run_lookup assms sel_name) (auto simp: user_rows_ok_def)
  then obtain r s' where r: "u_find_by_username (pg_user_repo pq) n s = Some (r, s')" "pg_users_ready pq rows_in up s'"
    "pg_members pq rows_in s' = pg_members pq rows_in s"
    and c: "case r of Inr u \<Rightarrow> \<exists>q \<in> rows_in (bk_db s). q ''username'' = Some n \<and> row_to_user pq q = Inr u
     | Inl e \<Rightarrow> e = not_found (''User not found by username: '' @ n) \<and> (\<forall>q \<in> rows_in (bk_db s). q ''username'' \<noteq> Some n)"
    by (auto simp: pg_user_repo_def pgu_find_by_username_def)
  have "case r of Inr u \<Rightarrow> u \<in> pg_members pq rows_in s \<and> username u = n
       | Inl e \<Rightarrow> err_code e = kNotFound \<and> (\<forall>u \<in> pg_members pq rows_in s. username u \<noteq> n)"
  proof (cases r)
    case (Inr u)
    with c obtain q where "q \<in> rows_in (bk_db s)" "q ''username'' = Some n" "row_to_user pq q = Inr u" by auto
    with row_user_cells[OF ok this(1,3)] show ?thesis using Inr by (auto simp: pg_members_def)
  next
    case (Inl e)
    then show ?thesis using c row_user_cells[OF ok] by (fastforce simp: pg_members_def)
  qed
  with r show ?thesis by blast
qed

lemma run_by_id:
  assumes "pg_users_ready pq rows_in up s"
  shows "\<exists>r s'. u_find_by_id (pg_user_repo pq) k s = Some (r, s') \<and> pg_users_ready pq rows_in up s' \<and>
    pg_members pq rows_in s' = pg_members pq rows_in s \<and>
    (case r of Inr u \<Rightarrow> u \<in> pg_members pq rows_in s \<and> user_id u = k
       | Inl e \<Rightarrow> err_code e = kNotFound \<and> (\<forall>u \<in> pg_members pq rows_in s. user_id u \<noteq> k))"
proof -
  have ok: "user_rows_ok pq (rows_in (bk_db s))" using assms by (simp add: pg_users_ready_def)
  have "\<exists>r s'. user_session pq ''find_by_id'' (txn_commit_first pq sql_user_by_id [PText (to_string k)]
      (reject_empty (not_found (''User not found: '' @ to_string k))) (first_user pq)) s = Some (r, s') \<and>
    pg_users_ready pq rows_in up s' \<and> pg_members pq rows_in s' = pg_members pq rows_in s \<and>
    (case r of Inr u \<Rightarrow> \<exists>q \<in> rows_in (bk_db s). q ''id'' = Some (to_string k) \<and> row_to_user pq q = Inr u
     | Inl e \<Rightarrow> e = not_found (''User not found: '' @ to_string k) \<and> (\<forall>q \<in> rows_in (bk_db s). q ''id'' \<noteq> Some (to_string k)))"
    using ok by (intro run_lookup assms sel_id) (auto simp: user_rows_ok_def)
  then obtain r s' where r: "u_find_by_id (pg_user_repo pq) k s = Some (r, s')" "pg_users_ready pq rows_in up s'"
    "pg_members pq rows_in s' = pg_members pq rows_in s"
    and c: "case r of Inr u \<Rightarrow> \<exists>q \<in> rows_in (bk_db s). q ''id'' = Some (to_string k) \<and> row_to_user pq q = Inr u
     | Inl e \<Rightarrow> e = not_found (''User not found: '' @ to_string k) \<and> (\<forall>q \<in> rows_in (bk_db s). q ''id'' \<noteq> Some (to_string k))"
    by (auto simp: pg_user_repo_def pgu_find_by_id_def)
  have "case r of Inr u \<Rightarrow> u \<in> pg_members pq rows_in s \<and> user_id u = k
       | Inl e \<Rightarrow> err_code e = kNotFound \<and> (\<forall>u \<in> pg_members pq rows_in s. user_id u \<noteq> k)"
  proof (cases r)
    case (Inr u)
    with c obtain q where "q \<in> rows_in (bk_db s)" "q ''id'' = Some (to_string k)" "row_to_user pq q = Inr u" by auto
    with row_user_cells[OF ok this(1,3)] show ?thesis using Inr to_string_inj[of "user_id u" k] by (auto simp: pg_members_def)
  next
    case (Inl e)
    then show ?thesis using c row_user_cells[OF ok] by (fastforce simp: pg_members_def)
  qed
  with r show ?thesis by blast
qed

end

sublocale sql_users \<subseteq> pu: user_directory "pg_user_repo pq" "pg_members pq rows_in" "pg_users_ready pq rows_in up"
proof unfold_locales
  fix s assume "pg_users_ready pq rows_in up s"
  then show "distinct_users (pg_members pq rows_in s)" by (intro members_distinct_rows) (simp add: pg_users_ready_def)
qed (fact run_by_username run_by_id)+

context sql_users begin

lemma contract: "user_directory (pg_user_repo pq) (pg_members pq rows_in) (pg_users_ready pq rows_in up)"
  by (rule pu.user_directory_axioms)

end

section \<open>An executable server\<close>

text \<open>Users as the rows of a table; the two lookups of the authentication.\<close>

definition user_server_exec :: "string \<Rightarrow> param list \<Rightarrow> row list \<Rightarrow> db_exn + (pg_result \<times> row list)" where
  "user_server_exec sql ps d =
     (case ps of
        [PText x] \<Rightarrow>
          if sql = sql_user_by_id then Inr (\<lparr>rows = filter (\<lambda>r. r ''id'' = Some x) d, affected_rows = 0\<rparr>, d)
          else if sql = sql_user_by_username then Inr (\<lparr>rows = filter (\<lambda>r. r ''username'' = Some x) d, affected_rows = 0\<rparr>, d)
          else Inl (Sql_error ''unknown statement'')
      | _ \<Rightarrow> Inl (Sql_error ''unknown statement''))"

definition user_pq :: "(row list, row list) pqxx" where
  "user_pq = \<lparr>conn_open = (\<lambda>d c. True), conn_attempt = (\<lambda>d n. Not_open), work = (\<lambda>c d. Inr d),
     exec_sql = user_server_exec, commit = (\<lambda>t d. (t, Inr ())), parse_int64 = (\<lambda>x. lift_exn (stoll x)), parse_size = (\<lambda>x. lift_exn (stoll x)),
     parse_bool = (\<lambda>x. Inr (x = ''t'')), null_error = Std_exception ''null''\<rparr>"

lemma user_statements_differ: "sql_user_by_username \<noteq> sql_user_by_id"
  by (simp add: sql_user_by_username_def sql_user_by_id_def)

interpretation usr: sql_users user_pq set "\<lambda>_. True" "\<lambda>d. d"
  by unfold_locales (simp_all add: user_pq_def user_server_exec_def user_statements_differ)

end
