(* ===== verification/Config.thy ===== *)
theory Config
  imports Pool
begin

text \<open>
  \<^verbatim>\<open>src/common/config.hpp\<close>: the configuration with its defaults, read from a YAML file, and the
  level names of \<^verbatim>\<open>src/common/logger.hpp\<close>. The file system, yaml-cpp and the environment are
  arguments. In yaml-cpp \<^verbatim>\<open>as<T>(d)\<close> is \<^verbatim>\<open>d\<close> when the entry is missing or has another type; looking up a
  section or an entry may raise, and what has been assigned before the exception stays assigned.
\<close>

section \<open>The configuration\<close>

record DatabaseConfig =
  db_host :: string
  db_port :: "16 word"
  db_name :: string
  db_user :: string
  db_password :: string
  db_pool_size :: uint64
  db_max_retries :: uint64
  db_retry_delay_ms :: uint64
  db_ssl_mode :: string

record ServerConfig =
  sv_host :: string
  sv_port :: "16 word"
  sv_workers :: uint64
  sv_request_timeout_ms :: uint64

record JwtConfig =
  jw_access_secret :: string
  jw_refresh_secret :: string
  jw_access_expiry_minutes :: uint64
  jw_refresh_expiry_days :: uint64
  jw_issuer :: string

record LogConfig =
  lc_level :: string
  lc_file :: string
  lc_max_size_mb :: uint64
  lc_max_files :: uint64
  lc_pattern :: string

record CacheConfig =
  cc_host :: string
  cc_port :: "16 word"
  cc_db :: uint64
  cc_ttl_seconds :: uint64

record Config =
  cf_server :: ServerConfig
  cf_database :: DatabaseConfig
  cf_jwt :: JwtConfig
  cf_log :: LogConfig
  cf_cache :: CacheConfig

definition DatabaseConfig_default :: DatabaseConfig where
  "DatabaseConfig_default = \<lparr>db_host = ''localhost'', db_port = 5432, db_name = ''inventory_db'',
     db_user = ''inventory_user'', db_password = [], db_pool_size = 10, db_max_retries = 3,
     db_retry_delay_ms = 1000, db_ssl_mode = ''prefer''\<rparr>"

definition ServerConfig_default :: ServerConfig where
  "ServerConfig_default = \<lparr>sv_host = ''0.0.0.0'', sv_port = 8080, sv_workers = 4, sv_request_timeout_ms = 30000\<rparr>"

definition JwtConfig_default :: JwtConfig where
  "JwtConfig_default = \<lparr>jw_access_secret = [], jw_refresh_secret = [], jw_access_expiry_minutes = 15,
     jw_refresh_expiry_days = 7, jw_issuer = ''pt-maju-bersama''\<rparr>"

definition LogConfig_default :: LogConfig where
  "LogConfig_default = \<lparr>lc_level = ''info'', lc_file = ''/var/log/inventory/app.log'', lc_max_size_mb = 100,
     lc_max_files = 7, lc_pattern = ''[%Y-%m-%d %H:%M:%S.%e] [%^%l%$] [%t] %v''\<rparr>"

definition CacheConfig_default :: CacheConfig where
  "CacheConfig_default = \<lparr>cc_host = ''localhost'', cc_port = 6379, cc_db = 0, cc_ttl_seconds = 300\<rparr>"

definition Config_default :: Config where
  "Config_default = \<lparr>cf_server = ServerConfig_default, cf_database = DatabaseConfig_default,
     cf_jwt = JwtConfig_default, cf_log = LogConfig_default, cf_cache = CacheConfig_default\<rparr>"

section \<open>Loading\<close>

text \<open>The exceptions of the two handlers: those of yaml-cpp and all others.\<close>

datatype yaml_exn = Yaml_exception string | Load_exception string

text \<open>A parsed file: whether a section is there, and the entries of a section that convert to a type; each look may
  raise, for instance in a section that is not a map.\<close>

record Yaml =
  y_section :: "string \<Rightarrow> yaml_exn + bool"
  y_text :: "string \<Rightarrow> string \<Rightarrow> yaml_exn + string option"
  y_u16 :: "string \<Rightarrow> string \<Rightarrow> yaml_exn + 16 word option"
  y_size :: "string \<Rightarrow> string \<Rightarrow> yaml_exn + uint64 option"

text \<open>A piece of the loading: what it makes of the configuration, also when it raises.\<close>

type_synonym 'c loader = "'c \<Rightarrow> (yaml_exn + unit) \<times> 'c"

fun run_all :: "'c loader list \<Rightarrow> 'c loader" where
  "run_all [] c = (Inr (), c)"
| "run_all (l # ls) c = (case l c of (Inl e, c') \<Rightarrow> (Inl e, c') | (Inr _, c') \<Rightarrow> run_all ls c')"

definition assign :: "(yaml_exn + 'a option) \<Rightarrow> ('a option \<Rightarrow> 'c \<Rightarrow> 'c) \<Rightarrow> 'c loader" where
  "assign entry upd c = (case entry of Inl e \<Rightarrow> (Inl e, c) | Inr v \<Rightarrow> (Inr (), upd v c))"

definition in_section :: "Yaml \<Rightarrow> string \<Rightarrow> 'c loader list \<Rightarrow> 'c loader" where
  "in_section y name ls c = (case y_section y name of
       Inl e \<Rightarrow> (Inl e, c)
     | Inr there \<Rightarrow> if there then run_all ls c else (Inr (), c))"

definition or_default :: "'a \<Rightarrow> 'a option \<Rightarrow> 'a" where
  "or_default d v = (case v of None \<Rightarrow> d | Some x \<Rightarrow> x)"

text \<open>\<open>getenv\<close> is the environment; \<^verbatim>\<open>${NAME}\<close> is replaced by the variable, or by nothing.\<close>

definition resolve_env :: "(string \<Rightarrow> string option) \<Rightarrow> string \<Rightarrow> string" where
  "resolve_env getenv val =
     (if length val > 2 \<and> hd val = CHR ''$'' \<and> val ! 1 = CHR ''{'' \<and> last val = CHR ''}''
      then or_default [] (getenv (take (length val - 3) (drop 2 val)))
      else val)"

definition load_server :: "Yaml \<Rightarrow> ServerConfig loader" where
  "load_server y = in_section y ''server''
     [assign (y_text y ''server'' ''host'') (\<lambda>v c. c\<lparr>sv_host := or_default (sv_host c) v\<rparr>),
      assign (y_u16 y ''server'' ''port'') (\<lambda>v c. c\<lparr>sv_port := or_default (sv_port c) v\<rparr>),
      assign (y_size y ''server'' ''workers'') (\<lambda>v c. c\<lparr>sv_workers := or_default (sv_workers c) v\<rparr>),
      assign (y_size y ''server'' ''request_timeout_ms'')
        (\<lambda>v c. c\<lparr>sv_request_timeout_ms := or_default (sv_request_timeout_ms c) v\<rparr>)]"

definition load_database :: "(string \<Rightarrow> string option) \<Rightarrow> Yaml \<Rightarrow> DatabaseConfig loader" where
  "load_database getenv y = in_section y ''database''
     [assign (y_text y ''database'' ''host'') (\<lambda>v c. c\<lparr>db_host := or_default (db_host c) v\<rparr>),
      assign (y_u16 y ''database'' ''port'') (\<lambda>v c. c\<lparr>db_port := or_default (db_port c) v\<rparr>),
      assign (y_text y ''database'' ''name'') (\<lambda>v c. c\<lparr>db_name := or_default (db_name c) v\<rparr>),
      assign (y_text y ''database'' ''user'') (\<lambda>v c. c\<lparr>db_user := or_default (db_user c) v\<rparr>),
      assign (y_text y ''database'' ''password'') (\<lambda>v c. c\<lparr>db_password := resolve_env getenv (or_default [] v)\<rparr>),
      assign (y_size y ''database'' ''pool_size'') (\<lambda>v c. c\<lparr>db_pool_size := or_default (db_pool_size c) v\<rparr>),
      assign (y_size y ''database'' ''max_retries'') (\<lambda>v c. c\<lparr>db_max_retries := or_default (db_max_retries c) v\<rparr>),
      assign (y_size y ''database'' ''retry_delay_ms'') (\<lambda>v c. c\<lparr>db_retry_delay_ms := or_default (db_retry_delay_ms c) v\<rparr>),
      assign (y_text y ''database'' ''ssl_mode'') (\<lambda>v c. c\<lparr>db_ssl_mode := or_default (db_ssl_mode c) v\<rparr>)]"

definition load_jwt :: "(string \<Rightarrow> string option) \<Rightarrow> Yaml \<Rightarrow> JwtConfig loader" where
  "load_jwt getenv y = in_section y ''jwt''
     [assign (y_text y ''jwt'' ''access_secret'') (\<lambda>v c. c\<lparr>jw_access_secret := resolve_env getenv (or_default [] v)\<rparr>),
      assign (y_text y ''jwt'' ''refresh_secret'') (\<lambda>v c. c\<lparr>jw_refresh_secret := resolve_env getenv (or_default [] v)\<rparr>),
      assign (y_size y ''jwt'' ''access_expiry_minutes'')
        (\<lambda>v c. c\<lparr>jw_access_expiry_minutes := or_default (jw_access_expiry_minutes c) v\<rparr>),
      assign (y_size y ''jwt'' ''refresh_expiry_days'')
        (\<lambda>v c. c\<lparr>jw_refresh_expiry_days := or_default (jw_refresh_expiry_days c) v\<rparr>),
      assign (y_text y ''jwt'' ''issuer'') (\<lambda>v c. c\<lparr>jw_issuer := or_default (jw_issuer c) v\<rparr>)]"

definition load_log :: "Yaml \<Rightarrow> LogConfig loader" where
  "load_log y = in_section y ''logging''
     [assign (y_text y ''logging'' ''level'') (\<lambda>v c. c\<lparr>lc_level := or_default (lc_level c) v\<rparr>),
      assign (y_text y ''logging'' ''file'') (\<lambda>v c. c\<lparr>lc_file := or_default (lc_file c) v\<rparr>),
      assign (y_size y ''logging'' ''max_size_mb'') (\<lambda>v c. c\<lparr>lc_max_size_mb := or_default (lc_max_size_mb c) v\<rparr>),
      assign (y_size y ''logging'' ''max_files'') (\<lambda>v c. c\<lparr>lc_max_files := or_default (lc_max_files c) v\<rparr>),
      assign (y_text y ''logging'' ''pattern'') (\<lambda>v c. c\<lparr>lc_pattern := or_default (lc_pattern c) v\<rparr>)]"

definition load_cache :: "Yaml \<Rightarrow> CacheConfig loader" where
  "load_cache y = in_section y ''cache''
     [assign (y_text y ''cache'' ''host'') (\<lambda>v c. c\<lparr>cc_host := or_default (cc_host c) v\<rparr>),
      assign (y_u16 y ''cache'' ''port'') (\<lambda>v c. c\<lparr>cc_port := or_default (cc_port c) v\<rparr>),
      assign (y_size y ''cache'' ''db'') (\<lambda>v c. c\<lparr>cc_db := or_default (cc_db c) v\<rparr>),
      assign (y_size y ''cache'' ''ttl_seconds'') (\<lambda>v c. c\<lparr>cc_ttl_seconds := or_default (cc_ttl_seconds c) v\<rparr>)]"

text \<open>The loading of one member of the configuration.\<close>

definition on_member :: "('a \<Rightarrow> 'c) \<Rightarrow> ('c \<Rightarrow> 'a \<Rightarrow> 'a) \<Rightarrow> 'c loader \<Rightarrow> 'a loader" where
  "on_member get put l a = (case l (get a) of (r, c) \<Rightarrow> (r, put c a))"

definition load_sections :: "(string \<Rightarrow> string option) \<Rightarrow> Yaml \<Rightarrow> Config loader" where
  "load_sections getenv y = run_all
     [on_member cf_server (\<lambda>c a. a\<lparr>cf_server := c\<rparr>) (load_server y),
      on_member cf_database (\<lambda>c a. a\<lparr>cf_database := c\<rparr>) (load_database getenv y),
      on_member cf_jwt (\<lambda>c a. a\<lparr>cf_jwt := c\<rparr>) (load_jwt getenv y),
      on_member cf_log (\<lambda>c a. a\<lparr>cf_log := c\<rparr>) (load_log y),
      on_member cf_cache (\<lambda>c a. a\<lparr>cf_cache := c\<rparr>) (load_cache y)]"

fun load_error :: "yaml_exn \<Rightarrow> Error" where
  "load_error (Yaml_exception w) = configuration (''YAML parse error: '' @ w)"
| "load_error (Load_exception w) = configuration (''Config load error: '' @ w)"

text \<open>\<open>exists\<close> is \<^verbatim>\<open>std::filesystem::exists\<close>, which may raise too.\<close>

definition config_load ::
  "(string \<Rightarrow> string + bool) \<Rightarrow> (string \<Rightarrow> yaml_exn + Yaml) \<Rightarrow> (string \<Rightarrow> string option) \<Rightarrow> string \<Rightarrow> Config
    \<Rightarrow> unit Result \<times> Config" where
  "config_load exists load_file getenv path cfg =
     (case exists path of
        Inl w \<Rightarrow> (Inl (load_error (Load_exception w)), cfg)
      | Inr there \<Rightarrow>
          if \<not> there then (Inl (configuration (''Config file not found: '' @ path)), cfg)
          else (case load_file path of
              Inl e \<Rightarrow> (Inl (load_error e), cfg)
            | Inr y \<Rightarrow> map_prod (map_sum load_error id) id (load_sections getenv y cfg)))"

text \<open>The pool's constructor from a configuration.\<close>

definition ConnectionPool_of_config :: "(nat \<Rightarrow> nat \<Rightarrow> attempt) \<Rightarrow> DatabaseConfig \<Rightarrow> ConnectionPool" where
  "ConnectionPool_of_config net c = ConnectionPool_new net (unat (db_pool_size c)) (db_host c) (db_port c) (db_name c)
     (db_user c) (db_password c) (unat (db_max_retries c)) (db_retry_delay_ms c)"

section \<open>Log levels\<close>

datatype level_enum = lv_debug | lv_info | lv_warn | lv_err | lv_critical

definition level_from_string :: "string \<Rightarrow> level_enum" where
  "level_from_string l =
     (if l = ''debug'' then lv_debug
      else if l = ''info'' then lv_info
      else if l = ''warn'' then lv_warn
      else if l = ''error'' then lv_err
      else if l = ''critical'' then lv_critical
      else lv_info)"

section \<open>Secrets\<close>

lemma resolve_env_reference: "resolve_env getenv (CHR ''$'' # CHR ''{'' # v @ ''}'') = or_default [] (getenv v)"
  by (simp add: resolve_env_def)

lemma resolve_env_plain:
  "\<not> (\<exists>v. x = CHR ''$'' # CHR ''{'' # v @ ''}'') \<Longrightarrow> resolve_env getenv x = x"
proof (rule ccontr)
  assume no: "\<not> (\<exists>v. x = CHR ''$'' # CHR ''{'' # v @ ''}'')" and "resolve_env getenv x \<noteq> x"
  then have c: "length x > 2" "hd x = CHR ''$''" "x ! 1 = CHR ''{''" "last x = CHR ''}''"
    by (auto simp: resolve_env_def split: if_splits)
  obtain a b r where x: "x = a # b # r" "r \<noteq> []" using c(1) by (cases x; cases "tl x"; auto)
  then have "x = CHR ''$'' # CHR ''{'' # r" "last r = CHR ''}''" using c by auto
  moreover from this have "r = butlast r @ ''}''" using append_butlast_last_id[OF x(2)] by simp
  ultimately show False using no by metis
qed

text \<open>Loading that succeeds has run every piece.\<close>

lemma run_all_ok: "run_all (l # ls) c = (Inr u, c') \<longleftrightarrow> (\<exists>c1. l c = (Inr (), c1) \<and> run_all ls c1 = (Inr u, c'))"
  by (auto split: prod.splits sum.splits)

lemma assign_ok: "assign entry upd c = (Inr u, c') \<longleftrightarrow> (\<exists>v. entry = Inr v \<and> c' = upd v c)"
  by (auto simp: assign_def split: sum.splits)

lemma in_section_ok:
  "in_section y name ls c = (Inr u, c') \<longleftrightarrow>
     (\<exists>there. y_section y name = Inr there \<and> (if there then run_all ls c = (Inr (), c') else c' = c))"
  by (auto simp: in_section_def split: sum.splits)

lemma on_member_ok: "on_member get put l a = (Inr u, a') \<longleftrightarrow> (\<exists>c. l (get a) = (Inr (), c) \<and> a' = put c a)"
  by (auto simp: on_member_def split: prod.splits)

lemma run_none_ok: "run_all [] c = (Inr u, c') \<longleftrightarrow> c' = c"
  by auto

lemmas loading_ok = run_all_ok run_none_ok assign_ok in_section_ok on_member_ok

text \<open>What an entry of the file makes of a secret: \<^verbatim>\<open>${NAME}\<close> stands for the variable of the environment, or for
  nothing when it is not set; any other text is the secret, and a missing entry is an empty one.\<close>

definition secret_from :: "(string \<Rightarrow> string option) \<Rightarrow> yaml_exn + string option \<Rightarrow> string \<Rightarrow> bool" where
  "secret_from getenv entry x \<longleftrightarrow>
     (case entry of
        Inl _ \<Rightarrow> False
      | Inr None \<Rightarrow> x = []
      | Inr (Some t) \<Rightarrow>
          (\<exists>v. t = CHR ''$'' # CHR ''{'' # v @ ''}'' \<and> x = (case getenv v of None \<Rightarrow> [] | Some w \<Rightarrow> w)) \<or>
          (\<nexists>v. t = CHR ''$'' # CHR ''{'' # v @ ''}'') \<and> x = t)"

lemma secret_from_resolve: "secret_from getenv (Inr v) (resolve_env getenv (or_default [] v))"
proof (cases v)
  case (Some t)
  show ?thesis
  proof (cases "\<exists>r. t = CHR ''$'' # CHR ''{'' # r @ ''}''")
    case True
    then show ?thesis using Some by (auto simp: secret_from_def or_default_def resolve_env_reference)
  next
    case False
    then show ?thesis using Some resolve_env_plain[OF False] by (simp add: secret_from_def or_default_def)
  qed
qed (simp add: secret_from_def or_default_def resolve_env_def)

lemma load_jwt_secrets:
  assumes "load_jwt getenv y c = (Inr u, c')"
  shows "if y_section y ''jwt'' = Inr True
    then secret_from getenv (y_text y ''jwt'' ''access_secret'') (jw_access_secret c') \<and>
      secret_from getenv (y_text y ''jwt'' ''refresh_secret'') (jw_refresh_secret c')
    else c' = c"
  using assms unfolding load_jwt_def loading_ok by (cases "y_section y ''jwt'' = Inr True") (auto simp: secret_from_resolve)

lemma load_database_secret:
  assumes "load_database getenv y c = (Inr u, c')"
  shows "if y_section y ''database'' = Inr True
    then secret_from getenv (y_text y ''database'' ''password'') (db_password c') else c' = c"
  using assms unfolding load_database_def loading_ok by (cases "y_section y ''database'' = Inr True") (auto simp: secret_from_resolve)

text \<open>An exception leaves the sections read before it as the file says and the later ones as they were.\<close>

lemma config_load_stops:
  assumes "exists path = Inr True" and "load_file path = Inr y"
    and "load_server y (cf_server cfg) = (Inr (), sv)" and "load_database getenv y (cf_database cfg) = (Inl e, db)"
  shows "config_load exists load_file getenv path cfg = (Inl (load_error e), cfg\<lparr>cf_server := sv, cf_database := db\<rparr>)"
  using assms by (simp add: config_load_def load_sections_def on_member_def)

text \<open>C28: after a configuration has been loaded, the access secret, the refresh secret and the password of the
  database are what the entries of the file say, references to the environment replaced. So a secret whose variable
  is not set, or whose entry is missing in a section that is there, is silently empty; without the section the secrets
  are those of before.\<close>

theorem secrets_resolved:
  assumes "config_load exists load_file getenv path cfg = (Inr (), cfg')" and "load_file path = Inr y"
  shows "(if y_section y ''jwt'' = Inr True
       then secret_from getenv (y_text y ''jwt'' ''access_secret'') (jw_access_secret (cf_jwt cfg')) \<and>
         secret_from getenv (y_text y ''jwt'' ''refresh_secret'') (jw_refresh_secret (cf_jwt cfg'))
       else cf_jwt cfg' = cf_jwt cfg) \<and>
    (if y_section y ''database'' = Inr True
       then secret_from getenv (y_text y ''database'' ''password'') (db_password (cf_database cfg'))
       else cf_database cfg' = cf_database cfg)"
proof -
  have "load_sections getenv y cfg = (Inr (), cfg')"
    using assms by (cases "load_sections getenv y cfg"; cases "fst (load_sections getenv y cfg)")
      (auto simp: config_load_def split: sum.splits if_splits)
  then obtain db jw where db: "load_database getenv y (cf_database cfg) = (Inr (), db)" "cf_database cfg' = db"
    and jw: "load_jwt getenv y (cf_jwt cfg) = (Inr (), jw)" "cf_jwt cfg' = jw"
    unfolding load_sections_def loading_ok by auto
  show ?thesis unfolding db(2) jw(2) using load_jwt_secrets[OF jw(1)] load_database_secret[OF db(1)] by blast
qed

text \<open>A file whose secrets are a reference, a plain text and a missing entry.\<close>

definition secret_yaml :: Yaml where
  "secret_yaml = \<lparr>y_section = (\<lambda>s. Inr (s = ''jwt'' \<or> s = ''database'')),
     y_text = (\<lambda>s k. Inr (if k = ''access_secret'' then Some ''${JWT}'' else if k = ''refresh_secret'' then Some ''plain'' else None)),
     y_u16 = (\<lambda>_ _. Inr None), y_size = (\<lambda>_ _. Inr None)\<rparr>"

theorem secrets_resolved_witness:
  "\<exists>cfg. config_load (\<lambda>_. Inr True) (\<lambda>_. Inr secret_yaml) [''JWT'' \<mapsto> ''s3cret''] ''config.yaml'' Config_default = (Inr (), cfg) \<and>
     jw_access_secret (cf_jwt cfg) = ''s3cret'' \<and> jw_refresh_secret (cf_jwt cfg) = ''plain'' \<and> db_password (cf_database cfg) = []"
proof -
  obtain cfg where cfg: "config_load (\<lambda>_. Inr True) (\<lambda>_. Inr secret_yaml) [''JWT'' \<mapsto> ''s3cret''] ''config.yaml'' Config_default =
      (Inr (), cfg)"
    by (simp add: config_load_def load_sections_def load_server_def load_database_def load_jwt_def load_log_def load_cache_def
        in_section_def on_member_def assign_def secret_yaml_def)
  have ref: "''${JWT}'' = CHR ''$'' # CHR ''{'' # ''JWT'' @ ''}''" by simp
  have "''${JWT}'' = CHR ''$'' # CHR ''{'' # v @ ''}'' \<Longrightarrow> v = ''JWT''" for v unfolding ref by simp
  then show ?thesis
    using secrets_resolved[OF cfg refl] cfg by (auto simp: secret_yaml_def secret_from_def)
qed

end
