(* ===== verification/Auth.thy ===== *)
theory Auth
  imports Repository Config TimeUtils
begin

text \<open>
  \<^verbatim>\<open>src/core/services/auth_service.hpp\<close>, its implementation \<^verbatim>\<open>AuthServiceImpl\<close> in \<^verbatim>\<open>src/main.cpp\<close>
  and the use case of \<^verbatim>\<open>authenticate_user_use_case.cpp\<close>. SHA-256, the library jwt-cpp, the users and
  the readings of the clock are arguments.
\<close>

section \<open>The libraries\<close>

text \<open>The claims \<^verbatim>\<open>generate_jwt\<close> sets.\<close>

record JwtClaims =
  jc_issuer :: string
  jc_subject :: string
  jc_issued_at :: time_point
  jc_expires_at :: time_point
  jc_role :: string
  jc_username :: string

text \<open>
  \<open>jwt_sign\<close> signs with HS256; \<open>jwt_decode\<close> splits and decodes a token, \<open>None\<close> when it raises, and gives
  the claims by name; \<open>claim_string\<close> is \<^verbatim>\<open>asString\<close>, which raises on an object or a list.
\<close>

record 'c jwt_lib =
  jwt_sign :: "JwtClaims \<Rightarrow> string \<Rightarrow> string"
  jwt_decode :: "string \<Rightarrow> (string \<Rightarrow> 'c option) option"
  claim_string :: "'c \<Rightarrow> exn + string"

type_synonym sha256 = "string \<Rightarrow> 8 word list"

text \<open>A JSON null, which a missing member reads as, has the empty text.\<close>

definition claim_text :: "'c jwt_lib \<Rightarrow> 'c option \<Rightarrow> exn + string" where
  "claim_text jwt v = (case v of None \<Rightarrow> Inr [] | Some c \<Rightarrow> claim_string jwt c)"

section \<open>The service\<close>

record AuthTokens =
  access_token :: string
  refresh_token :: string
  token_user :: User

record 's AuthService =
  as_authenticate :: "string \<Rightarrow> string \<Rightarrow> ('s, AuthTokens Result) op"
  as_refresh_tokens :: "string \<Rightarrow> ('s, exn + AuthTokens Result) op"
  as_validate_token :: "string \<Rightarrow> unit Result"
  as_get_current_user :: "string \<Rightarrow> ('s, exn + User Result) op"
  as_hash_password :: "string \<Rightarrow> string"
  as_verify_password :: "string \<Rightarrow> string \<Rightarrow> bool"

definition hash_password :: "sha256 \<Rightarrow> string \<Rightarrow> string" where
  "hash_password sha pw = concat (map (\<lambda>b. pad 2 (show_base 16 (unat b))) (sha pw))"

definition verify_password :: "sha256 \<Rightarrow> string \<Rightarrow> string \<Rightarrow> bool" where
  "verify_password sha pw h \<longleftrightarrow> hash_password sha pw = h"

text \<open>\<^verbatim>\<open>decode_jwt\<close> decodes the payload and checks neither the signature nor the expiry.\<close>

definition decode_jwt :: "'c jwt_lib \<Rightarrow> string \<Rightarrow> (string \<Rightarrow> 'c option) option" where
  "decode_jwt jwt token = jwt_decode jwt token"

text \<open>\<open>t0\<close>, \<open>t1\<close> are the two readings of the clock; the lifetime is in seconds.\<close>

definition generate_jwt :: "'c jwt_lib \<Rightarrow> JwtConfig \<Rightarrow> time_point \<Rightarrow> time_point \<Rightarrow> User \<Rightarrow> int \<Rightarrow> string" where
  "generate_jwt jwt cfg t0 t1 u expiry =
     jwt_sign jwt
       \<lparr>jc_issuer = jw_issuer cfg, jc_subject = to_string (user_id u), jc_issued_at = t0,
        jc_expires_at = t1 + expiry * 10 ^ 9, jc_role = role_to_string (user_role u), jc_username = username u\<rparr>
       (jw_access_secret cfg)"

definition svc_authenticate ::
  "sha256 \<Rightarrow> 'c jwt_lib \<Rightarrow> JwtConfig \<Rightarrow> (nat \<Rightarrow> time_point) \<Rightarrow> 's UserRepository \<Rightarrow> string \<Rightarrow> string \<Rightarrow>
   ('s, AuthTokens Result) op" where
  "svc_authenticate sha jwt cfg clk users name pw =
     op_bind (u_find_by_username users name) (\<lambda>r.
       op_return (case r of
           Inl e \<Rightarrow> Inl e
         | Inr u \<Rightarrow>
             if \<not> verify_password sha pw (password_hash u) then Inl (unauthorized ''Invalid credentials'')
             else Inr \<lparr>access_token = generate_jwt jwt cfg (clk 0) (clk 1) u (sint (jw_access_expiry_minutes cfg * 60)),
                  refresh_token = generate_jwt jwt cfg (clk 2) (clk 3) u (sint (jw_refresh_expiry_days cfg * 86400)),
                  token_user = u\<rparr>))"

definition svc_refresh_tokens ::
  "sha256 \<Rightarrow> 'c jwt_lib \<Rightarrow> JwtConfig \<Rightarrow> (nat \<Rightarrow> time_point) \<Rightarrow> 's UserRepository \<Rightarrow> string \<Rightarrow>
   ('s, exn + AuthTokens Result) op" where
  "svc_refresh_tokens sha jwt cfg clk users token =
     (case decode_jwt jwt token of
        None \<Rightarrow> op_return (Inr (Inl (unauthorized ''Invalid refresh token'')))
      | Some payload \<Rightarrow>
          (case sum_bind (claim_text jwt (payload ''sub'')) from_string of
             Inl x \<Rightarrow> op_return (Inl x)
           | Inr uid \<Rightarrow>
               op_bind (u_find_by_id users uid) (\<lambda>r.
                 case r of
                   Inl _ \<Rightarrow> op_return (Inr (Inl (unauthorized ''User not found'')))
                 | Inr u \<Rightarrow> op_bind (svc_authenticate sha jwt cfg clk users (username u) []) (\<lambda>t. op_return (Inr t)))))"

definition svc_validate_token :: "'c jwt_lib \<Rightarrow> string \<Rightarrow> unit Result" where
  "svc_validate_token jwt token =
     (case decode_jwt jwt token of None \<Rightarrow> Inl (unauthorized ''Invalid token'') | Some _ \<Rightarrow> Inr ())"

definition svc_get_current_user :: "'c jwt_lib \<Rightarrow> 's UserRepository \<Rightarrow> string \<Rightarrow> ('s, exn + User Result) op" where
  "svc_get_current_user jwt users token =
     (case decode_jwt jwt token of
        None \<Rightarrow> op_return (Inr (Inl (unauthorized ''Invalid token'')))
      | Some payload \<Rightarrow>
          (case sum_bind (claim_text jwt (payload ''sub'')) from_string of
             Inl x \<Rightarrow> op_return (Inl x)
           | Inr uid \<Rightarrow> op_bind (u_find_by_id users uid) (\<lambda>r. op_return (Inr r))))"

definition AuthServiceImpl ::
  "sha256 \<Rightarrow> 'c jwt_lib \<Rightarrow> JwtConfig \<Rightarrow> (nat \<Rightarrow> time_point) \<Rightarrow> 's UserRepository \<Rightarrow> 's AuthService" where
  "AuthServiceImpl sha jwt cfg clk users =
     \<lparr>as_authenticate = svc_authenticate sha jwt cfg clk users,
      as_refresh_tokens = svc_refresh_tokens sha jwt cfg clk users,
      as_validate_token = svc_validate_token jwt,
      as_get_current_user = svc_get_current_user jwt users,
      as_hash_password = hash_password sha,
      as_verify_password = verify_password sha\<rparr>"

section \<open>The use case\<close>

definition auth_execute :: "'s UserRepository \<Rightarrow> 's AuthService \<Rightarrow> string \<Rightarrow> string \<Rightarrow> ('s, AuthTokens Result) op" where
  "auth_execute users svc name pw =
     (if name = [] \<or> pw = [] then op_return (Inl (validation ''Username and password are required''))
      else op_bind (u_find_by_username users name) (\<lambda>r.
        case r of
          Inl _ \<Rightarrow> op_return (Inl (unauthorized ''Invalid username or password''))
        | Inr u \<Rightarrow>
            if \<not> user_active u then op_return (Inl (forbidden ''Account is deactivated''))
            else if \<not> as_verify_password svc pw (password_hash u)
              then op_return (Inl (unauthorized ''Invalid username or password''))
            else as_authenticate svc name pw))"

end
