(* ===== verification/Login.thy ===== *)
theory Login
  imports PgUsers Auth
begin

text \<open>
  What a caller of the authentication sees: the use case and the service over a directory of users
  (the contract of \<^verbatim>\<open>Repository\<close>), and over PostgreSQL through \<^verbatim>\<open>PgUsers\<close>.
\<close>

section \<open>Over a directory of users\<close>

text \<open>The credentials name an active user whose stored hash is the one of the password.\<close>

definition credentials_ok :: "sha256 \<Rightarrow> User set \<Rightarrow> string \<Rightarrow> string \<Rightarrow> User \<Rightarrow> bool" where
  "credentials_ok sha us n pw u \<longleftrightarrow>
     n \<noteq> [] \<and> pw \<noteq> [] \<and> u \<in> us \<and> username u = n \<and> user_active u \<and> password_hash u = hash_password sha pw"

text \<open>The tokens for a user.\<close>

definition tokens_for :: "'c jwt_lib \<Rightarrow> JwtConfig \<Rightarrow> (nat \<Rightarrow> time_point) \<Rightarrow> User \<Rightarrow> AuthTokens" where
  "tokens_for jwt cfg clk u =
     \<lparr>access_token = generate_jwt jwt cfg (clk 0) (clk 1) u (sint (jw_access_expiry_minutes cfg * 60)),
      refresh_token = generate_jwt jwt cfg (clk 2) (clk 3) u (sint (jw_refresh_expiry_days cfg * 86400)),
      token_user = u\<rparr>"

text \<open>The code of a refused login.\<close>

definition refusal :: "User set \<Rightarrow> string \<Rightarrow> string \<Rightarrow> ErrorCode" where
  "refusal us n pw =
     (if n = [] \<or> pw = [] then kValidationError
      else if \<exists>u \<in> us. username u = n \<and> \<not> user_active u then kForbidden
      else kUnauthorized)"

lemma error_codes [simp]:
  "err_code (unauthorized m) = kUnauthorized" "err_code (forbidden m) = kForbidden"
  "err_code (validation m) = kValidationError" "err_code (not_found m) = kNotFound"
  by (simp_all add: unauthorized_def forbidden_def validation_def not_found_def)

lemma impl_simps [simp]:
  "as_verify_password (AuthServiceImpl sha jwt cfg clk us) = verify_password sha"
  "as_authenticate (AuthServiceImpl sha jwt cfg clk us) = svc_authenticate sha jwt cfg clk us"
  "as_refresh_tokens (AuthServiceImpl sha jwt cfg clk us) = svc_refresh_tokens sha jwt cfg clk us"
  "as_validate_token (AuthServiceImpl sha jwt cfg clk us) = svc_validate_token jwt"
  "as_get_current_user (AuthServiceImpl sha jwt cfg clk us) = svc_get_current_user jwt us"
  by (simp_all add: AuthServiceImpl_def)

text \<open>The identifier a token names.\<close>

definition token_subject :: "'c jwt_lib \<Rightarrow> string \<Rightarrow> (exn + Uuid) option" where
  "token_subject jwt token =
     map_option (\<lambda>payload. sum_bind (claim_text jwt (payload ''sub'')) from_string) (decode_jwt jwt token)"

context user_directory begin

lemma find_nameE:
  assumes "ready s"
  obtains (found) u s' where "u_find_by_username users n s = Some (Inr u, s')" and "ready s'" and "members s' = members s"
      and "u \<in> members s" and "username u = n"
  | (missing) e s' where "u_find_by_username users n s = Some (Inl e, s')" and "ready s'" and "members s' = members s"
      and "err_code e = kNotFound" and "\<forall>u \<in> members s. username u \<noteq> n"
  using name_lookup[OF assms, of n] by (fastforce split: sum.splits)

lemma find_idE:
  assumes "ready s"
  obtains (found) u s' where "u_find_by_id users k s = Some (Inr u, s')" and "ready s'" and "members s' = members s"
      and "u \<in> members s" and "user_id u = k"
  | (missing) e s' where "u_find_by_id users k s = Some (Inl e, s')" and "ready s'" and "members s' = members s"
      and "err_code e = kNotFound" and "\<forall>u \<in> members s. user_id u \<noteq> k"
  using id_lookup[OF assms, of k] by (fastforce split: sum.splits)

lemma same_name: "ready s \<Longrightarrow> u \<in> members s \<Longrightarrow> v \<in> members s \<Longrightarrow> username u = username v \<Longrightarrow> u = v"
  using members_distinct[of s] unfolding distinct_users_def by blast

lemma same_id: "ready s \<Longrightarrow> u \<in> members s \<Longrightarrow> v \<in> members s \<Longrightarrow> user_id u = user_id v \<Longrightarrow> u = v"
  using members_distinct[of s] unfolding distinct_users_def by blast

lemma authenticate_member:
  assumes "ready s" and "u \<in> members s" and "username u = n"
  shows "\<exists>s'. svc_authenticate sha jwt cfg clk users n pw s =
      Some (if password_hash u = hash_password sha pw then Inr (tokens_for jwt cfg clk u)
        else Inl (unauthorized ''Invalid credentials''), s') \<and> ready s' \<and> members s' = members s"
  using assms(1)
proof (cases rule: find_nameE[of s n])
  case (found v s')
  then have "v = u" using same_name[OF assms(1)] assms(2,3) by simp
  with found show ?thesis by (auto simp: svc_authenticate_def verify_password_def tokens_for_def)
qed (use assms in auto)

lemma login_cases:
  assumes "ready s"
  shows "\<exists>r s'. auth_execute users (AuthServiceImpl sha jwt cfg clk users) n pw s = Some (r, s') \<and>
    ready s' \<and> members s' = members s \<and>
    (case r of Inr t \<Rightarrow> credentials_ok sha (members s) n pw (token_user t) \<and> t = tokens_for jwt cfg clk (token_user t)
     | Inl e \<Rightarrow> (\<forall>u. \<not> credentials_ok sha (members s) n pw u) \<and> err_code e = refusal (members s) n pw)"
proof (cases "n = [] \<or> pw = []")
  case True
  then show ?thesis using assms by (auto simp: auth_execute_def credentials_ok_def refusal_def)
next
  case False
  show ?thesis
    using assms
  proof (cases rule: find_nameE[of s n])
    case (found u s1)
    have only: "v = u" if "v \<in> members s" "username v = n" for v
      using same_name[OF assms that(1) found(4)] that(2) found(5) by simp
    obtain s2 where s2: "svc_authenticate sha jwt cfg clk users n pw s1 =
      Some (if password_hash u = hash_password sha pw then Inr (tokens_for jwt cfg clk u)
        else Inl (unauthorized ''Invalid credentials''), s2)" "ready s2" "members s2 = members s1"
      using authenticate_member[OF found(2) _ found(5)] found(3,4) by metis
    consider "\<not> user_active u" | "user_active u" "password_hash u \<noteq> hash_password sha pw"
      | "user_active u" "password_hash u = hash_password sha pw" by blast
    then show ?thesis
    proof cases
      case 1
      then have "refusal (members s) n pw = kForbidden" using False found(4,5) by (auto simp: refusal_def)
      moreover have "\<not> credentials_ok sha (members s) n pw v" for v using 1 only by (auto simp: credentials_ok_def)
      ultimately show ?thesis using False found(1-3) 1 by (simp add: auth_execute_def)
    next
      case 2
      then have "refusal (members s) n pw = kUnauthorized" using False only by (auto simp: refusal_def)
      moreover have "\<not> credentials_ok sha (members s) n pw v" for v using 2 only by (auto simp: credentials_ok_def)
      ultimately show ?thesis using False found(1-3) 2 by (auto simp: auth_execute_def verify_password_def)
    next
      case 3
      then have "credentials_ok sha (members s) n pw u" using False found(4,5) by (simp add: credentials_ok_def)
      moreover have "token_user (tokens_for jwt cfg clk u) = u" by (simp add: tokens_for_def)
      ultimately show ?thesis using False found(1-3) 3 s2 by (simp add: auth_execute_def verify_password_def)
    qed
  next
    case (missing e s1)
    then have "\<forall>u. \<not> credentials_ok sha (members s) n pw u" "refusal (members s) n pw = kUnauthorized"
      using False by (auto simp: credentials_ok_def refusal_def)
    then show ?thesis using False missing(1-3) by (simp add: auth_execute_def)
  qed
qed

text \<open>Refreshing authenticates with an empty password.\<close>

lemma refresh_cases:
  assumes "ready s" and "\<forall>u \<in> members s. password_hash u \<noteq> hash_password sha []"
  shows "\<exists>r s'. svc_refresh_tokens sha jwt cfg clk users token s = Some (r, s') \<and> ready s' \<and> members s' = members s \<and>
    (case token_subject jwt token of Some (Inl x) \<Rightarrow> r = Inl x | _ \<Rightarrow> \<exists>m. r = Inr (Inl (unauthorized m)))"
proof (cases "token_subject jwt token")
  case None
  then show ?thesis using assms(1) by (auto simp: svc_refresh_tokens_def token_subject_def)
next
  case (Some sub)
  then obtain payload where p: "decode_jwt jwt token = Some payload"
    "sum_bind (claim_text jwt (payload ''sub'')) from_string = sub" by (auto simp: token_subject_def)
  show ?thesis
  proof (cases sub)
    case (Inl x)
    then show ?thesis using p Some assms(1) by (simp add: svc_refresh_tokens_def)
  next
    case (Inr k)
    from assms(1) show ?thesis
    proof (cases rule: find_idE[of s k])
      case (found u s1)
      have u: "u \<in> members s1" using found(3,4) by simp
      obtain s2 where "svc_authenticate sha jwt cfg clk users (username u) [] s1 =
        Some (if password_hash u = hash_password sha [] then Inr (tokens_for jwt cfg clk u)
          else Inl (unauthorized ''Invalid credentials''), s2)" "ready s2" "members s2 = members s1"
        using authenticate_member[OF found(2) u, of "username u" sha jwt cfg clk "[]"] by auto
      then show ?thesis using p Some Inr found assms(2) by (auto simp: svc_refresh_tokens_def)
    next
      case (missing e s1)
      then show ?thesis using p Some Inr by (auto simp: svc_refresh_tokens_def)
    qed
  qed
qed

lemma current_user_cases:
  assumes "ready s"
  shows "\<exists>r s'. svc_get_current_user jwt users token s = Some (r, s') \<and> ready s' \<and> members s' = members s \<and>
    (case token_subject jwt token of
       None \<Rightarrow> r = Inr (Inl (unauthorized ''Invalid token''))
     | Some (Inl x) \<Rightarrow> r = Inl x
     | Some (Inr k) \<Rightarrow>
         (if \<exists>u \<in> members s. user_id u = k then \<exists>u \<in> members s. user_id u = k \<and> r = Inr (Inr u) else \<exists>e. r = Inr (Inl e)))"
proof (cases "token_subject jwt token")
  case None
  then show ?thesis using assms by (auto simp: svc_get_current_user_def token_subject_def)
next
  case (Some sub)
  then obtain payload where p: "decode_jwt jwt token = Some payload"
    "sum_bind (claim_text jwt (payload ''sub'')) from_string = sub" by (auto simp: token_subject_def)
  show ?thesis
  proof (cases sub)
    case (Inl x)
    then show ?thesis using p Some assms by (simp add: svc_get_current_user_def)
  next
    case (Inr k)
    from assms show ?thesis
      by (cases rule: find_idE[of s k]) (use p Some Inr in \<open>auto simp: svc_get_current_user_def\<close>)
  qed
qed

end

section \<open>A state for the witnesses\<close>

text \<open>A digest, a token format and a table with one user.\<close>

definition plain_sha :: sha256 where
  "plain_sha pw = map (\<lambda>c. of_nat (of_char c)) pw"

fun read_subject :: "string \<Rightarrow> string option" where
  "read_subject [] = None"
| "read_subject [x] = (if x = CHR ''.'' then Some [] else None)"
| "read_subject (x # c # r) =
     (if x = CHR ''.'' then Some [] else if x = CHR ''x'' then map_option ((#) c) (read_subject r) else None)"

definition plain_jwt :: "string jwt_lib" where
  "plain_jwt = \<lparr>jwt_sign = (\<lambda>c k. concat (map (\<lambda>x. [CHR ''x'', x]) (jc_subject c)) @ CHR ''.'' # k),
     jwt_decode = (\<lambda>t. map_option (\<lambda>x. [''sub'' \<mapsto> x]) (read_subject t)), claim_string = Inr\<rparr>"

lemma read_subject_signed: "read_subject (concat (map (\<lambda>x. [CHR ''x'', x]) x) @ CHR ''.'' # k) = Some x"
proof (induction x)
  case Nil
  then show ?case by (cases k) simp_all
qed simp

definition staff_user :: User where
  "staff_user = \<lparr>user_id = generate 3 4, username = ''budi'', user_email = \<lparr>email_value = ''budi@majubersama.id''\<rparr>,
     password_hash = hash_password plain_sha ''rahasia'', user_role = kOperator, user_active = True,
     user_created_at = 0, user_updated_at = 0\<rparr>"

definition staff_row :: row where
  "staff_row = [''id'' \<mapsto> to_string (generate 3 4), ''username'' \<mapsto> ''budi'', ''email'' \<mapsto> ''budi@majubersama.id'',
     ''password_hash'' \<mapsto> hash_password plain_sha ''rahasia'', ''role'' \<mapsto> ''operator'', ''is_active'' \<mapsto> ''t'',
     ''created_at'' \<mapsto> ''1970-01-01 00:00:00+00'', ''updated_at'' \<mapsto> ''1970-01-01 00:00:00+00'']"

definition office :: "row list Backend" where
  "office = \<lparr>bk_pool = sample_pool\<lparr>m_pool := [4, 5], m_available := 2\<rparr>, bk_db = [staff_row]\<rparr>"

definition office_jwt :: JwtConfig where
  "office_jwt = JwtConfig_default\<lparr>jw_access_secret := ''access'', jw_refresh_secret := ''refresh''\<rparr>"

abbreviation "office_ready \<equiv> pg_users_ready user_pq set (\<lambda>_. True)"

lemma staff_user_login: "username staff_user = ''budi''" "user_active staff_user"
    "password_hash staff_user = hash_password plain_sha ''rahasia''"
  by (simp_all add: staff_user_def)

lemma staff_role: "string_to_role ''operator'' = kOperator"
  by (simp add: string_to_role_def)

lemma staff_email: "email_or_unknown ''budi@majubersama.id'' = \<lparr>email_value = ''budi@majubersama.id''\<rparr>"
proof -
  have "email_is_valid ''budi@majubersama.id''" by code_simp
  then show ?thesis by (simp add: email_or_unknown_def Email_create_def value_or_def)
qed

lemma row_to_staff: "row_to_user user_pq staff_row = Inr staff_user"
  by (simp add: row_to_user_def staff_row_def user_pq_def as_text_def as_text_or_def as_bool_or_def epoch_text
      staff_email staff_role staff_user_def from_to_string)

lemma office_members [simp]: "pg_members user_pq set office = {staff_user}"
  by (auto simp: pg_members_def office_def row_to_staff)

lemma office_is_ready: "office_ready office"
proof -
  have "user_rows_ok user_pq {staff_row}"
    using row_to_staff by (auto simp: user_rows_ok_def) (simp_all add: staff_row_def staff_user_def)
  then show ?thesis by (simp add: pg_users_ready_def office_def pool_ready_def pool_inv_def sample_pool_def)
qed

lemma office_server: "sql_users user_pq set (\<lambda>_. True) (\<lambda>d. d)"
  by (rule usr.sql_users_axioms)

section \<open>Over PostgreSQL\<close>

text \<open>C29: a login succeeds exactly for the name and password of an active stored user, and then gives
  that user with tokens for it; otherwise the error says whether the input was empty, the account is
  deactivated, or the credentials are wrong. The stored users stay as they are.\<close>

theorem login_outcome:
  assumes "sql_users pq rows_in up view" and "pg_users_ready pq rows_in up s"
  shows "\<exists>r s'. auth_execute (pg_user_repo pq) (AuthServiceImpl sha jwt cfg clk (pg_user_repo pq)) n pw s = Some (r, s') \<and>
    pg_users_ready pq rows_in up s' \<and> pg_members pq rows_in s' = pg_members pq rows_in s \<and>
    (case r of
       Inr t \<Rightarrow> credentials_ok sha (pg_members pq rows_in s) n pw (token_user t) \<and> t = tokens_for jwt cfg clk (token_user t)
     | Inl e \<Rightarrow> (\<forall>u. \<not> credentials_ok sha (pg_members pq rows_in s) n pw u) \<and>
         err_code e = refusal (pg_members pq rows_in s) n pw)"
  by (rule user_directory.login_cases[OF sql_users.contract[OF assms(1)] assms(2)])

theorem login_outcome_witness:
  "\<exists>s'. auth_execute (pg_user_repo user_pq) (AuthServiceImpl plain_sha plain_jwt office_jwt (\<lambda>n. int n) (pg_user_repo user_pq))
     ''budi'' ''rahasia'' office = Some (Inr (tokens_for plain_jwt office_jwt (\<lambda>n. int n) staff_user), s')"
proof -
  have "credentials_ok plain_sha {staff_user} ''budi'' ''rahasia'' u \<longleftrightarrow> u = staff_user" for u
    by (auto simp: credentials_ok_def) (simp_all add: staff_user_def)
  then show ?thesis
    using login_outcome[OF office_server office_is_ready, of plain_sha plain_jwt office_jwt "\<lambda>n. int n" "''budi''" "''rahasia''"]
    by (fastforce split: sum.splits)
qed

text \<open>C31: as long as no stored hash is the one of the empty password, refreshing gives no tokens for any
  token, not even for a valid one just issued: the service authenticates the token's user with an empty
  password.\<close>

theorem refresh_never_succeeds:
  assumes "sql_users pq rows_in up view" and "pg_users_ready pq rows_in up s"
    and "\<forall>u \<in> pg_members pq rows_in s. password_hash u \<noteq> hash_password sha []"
  shows "\<exists>r s'. svc_refresh_tokens sha jwt cfg clk (pg_user_repo pq) token s = Some (r, s') \<and>
    pg_users_ready pq rows_in up s' \<and> pg_members pq rows_in s' = pg_members pq rows_in s \<and>
    (case token_subject jwt token of Some (Inl x) \<Rightarrow> r = Inl x | _ \<Rightarrow> \<exists>m. r = Inr (Inl (unauthorized m)))"
  by (rule user_directory.refresh_cases[OF sql_users.contract[OF assms(1)] assms(2,3)])

lemma plain_subject:
  "token_subject plain_jwt (jwt_sign plain_jwt c k) = Some (from_string (jc_subject c))"
  by (simp add: token_subject_def decode_jwt_def plain_jwt_def read_subject_signed claim_text_def)

lemma issued_subject:
  "token_subject plain_jwt (generate_jwt plain_jwt cfg t0 t1 u n) = Some (Inr (user_id u))"
  by (simp add: generate_jwt_def plain_subject from_to_string)

lemma staff_hash: "password_hash staff_user \<noteq> hash_password plain_sha []"
  by (simp add: staff_user_def hash_password_def plain_sha_def pad_def)

theorem refresh_never_succeeds_witness:
  "\<exists>m s'. svc_refresh_tokens plain_sha plain_jwt office_jwt int (pg_user_repo user_pq)
     (refresh_token (tokens_for plain_jwt office_jwt int staff_user)) office = Some (Inr (Inl (unauthorized m)), s')"
  using refresh_never_succeeds[OF office_server office_is_ready, of plain_sha plain_jwt office_jwt int
      "refresh_token (tokens_for plain_jwt office_jwt int staff_user)"] staff_hash
  by (auto simp: tokens_for_def issued_subject)

end
