(* ===== verification/AuthApi.thy ===== *)
theory AuthApi
  imports Login ItemApi "HOL-Library.Signed_Division"
begin

text \<open>
  \<^verbatim>\<open>src/api/controllers/auth_controller.cpp\<close> and \<^verbatim>\<open>src/api/middleware/\<close>. The handlers follow the
  conventions of \<^verbatim>\<open>ItemApi\<close>; the rest of the chain behind a middleware is an argument.
\<close>

section \<open>Handlers\<close>

definition token_response :: "'j json_lib \<Rightarrow> AuthTokens \<Rightarrow> 'j HttpResponse" where
  "token_response lib t = make_json_response (auth_response_to_json lib
     \<lparr>ar_access_token = access_token t, ar_refresh_token = refresh_token t, ar_user = user_to_response (token_user t)\<rparr>)"

definition login_status :: "ErrorCode \<Rightarrow> int" where
  "login_status c = (if c = kAuthenticationFailed then 401 else if c = kNotFound then 401 else 500)"

definition login ::
  "'j json_lib \<Rightarrow> 's UserRepository \<Rightarrow> 's AuthService \<Rightarrow> 'j HttpRequest \<Rightarrow> ('s, exn + 'j HttpResponse) op" where
  "login lib users svc req =
     (case rq_json req of
        None \<Rightarrow> op_return (Inr (bad_json lib))
      | Some j \<Rightarrow>
     (case login_from_json lib j of
        Inl x \<Rightarrow> op_return (Inr (bad_body lib x))
      | Inr l \<Rightarrow>
          if lg_username l = [] \<or> lg_password l = []
          then op_return (Inr (make_error_response lib 422 ''Validation Error'' ''Username and password are required''))
          else op_bind (auth_execute users svc (lg_username l) (lg_password l)) (\<lambda>r.
            op_return (Inr (case r of
              Inl e \<Rightarrow> make_error_response lib (login_status (err_code e)) ''Authentication Failed'' (err_message e)
            | Inr t \<Rightarrow> token_response lib t)))))"

definition refresh_status :: "ErrorCode \<Rightarrow> int" where
  "refresh_status c = (if c = kTokenExpired then 401 else if c = kInvalidToken then 401 else 500)"

definition refresh :: "'j json_lib \<Rightarrow> 's AuthService \<Rightarrow> 'j HttpRequest \<Rightarrow> ('s, exn + 'j HttpResponse) op" where
  "refresh lib svc req =
     (case rq_json req of
        None \<Rightarrow> op_return (Inr (bad_json lib))
      | Some j \<Rightarrow>
     (case refresh_from_json lib j of
        Inl x \<Rightarrow> op_return (Inr (bad_body lib x))
      | Inr t \<Rightarrow>
          if t = [] then op_return (Inr (make_error_response lib 422 ''Validation Error'' ''Refresh token is required''))
          else op_bind (as_refresh_tokens svc t) (\<lambda>r.
            op_return (case r of
              Inl x \<Rightarrow> Inl x
            | Inr (Inl e) \<Rightarrow>
                Inr (make_error_response lib (refresh_status (err_code e)) ''Token Refresh Failed'' (err_message e))
            | Inr (Inr t) \<Rightarrow> Inr (token_response lib t)))))"

definition bearer :: string where
  "bearer = ''Bearer ''"

definition starts_with :: "string \<Rightarrow> string \<Rightarrow> bool" where
  "starts_with x p \<longleftrightarrow> take (length p) x = p"

definition logout :: "'j json_lib \<Rightarrow> 's AuthService \<Rightarrow> 'j HttpRequest \<Rightarrow> 'j HttpResponse" where
  "logout lib svc req =
     (let h = rq_header req ''Authorization'' in
      if h = [] \<or> \<not> starts_with h bearer
      then make_error_response lib 401 ''Unauthorized'' ''Missing or invalid Authorization header''
      else (case as_validate_token svc (drop 7 h) of
              Inl _ \<Rightarrow> make_error_response lib 401 ''Unauthorized'' ''Invalid or expired token''
            | Inr _ \<Rightarrow> no_content))"

section \<open>Middleware\<close>

text \<open>The attributes of the request are what a middleware hands to the rest of the chain.\<close>

type_synonym attributes = "string \<Rightarrow> string option"

definition unauthorized_response :: "'j json_lib \<Rightarrow> string \<Rightarrow> 'j HttpResponse" where
  "unauthorized_response lib detail =
     \<lparr>rp_status = 401,
      rp_body = Some (error_to_json lib \<lparr>er_type = ''about:blank'', er_title = ''Unauthorized'', er_status = 401,
        er_detail = detail, er_instance = [], er_errors = []\<rparr>)\<rparr>"

definition AuthMiddleware_invoke ::
  "'j json_lib \<Rightarrow> 's AuthService \<Rightarrow> (attributes \<Rightarrow> ('s, exn + 'j HttpResponse) op) \<Rightarrow> 'j HttpRequest \<Rightarrow> attributes \<Rightarrow>
   ('s, exn + 'j HttpResponse) op" where
  "AuthMiddleware_invoke lib svc nextCb req attrs =
     (let h = rq_header req ''Authorization'' in
      if h = [] then op_return (Inr (unauthorized_response lib ''Missing Authorization header''))
      else if \<not> starts_with h bearer
        then op_return (Inr (unauthorized_response lib ''Authorization header must use Bearer scheme''))
      else
        (let token = drop 7 h in
         case as_validate_token svc token of
           Inl e \<Rightarrow> op_return (Inr (unauthorized_response lib (err_message e)))
         | Inr _ \<Rightarrow>
             op_bind (as_get_current_user svc token) (\<lambda>r.
               case r of
                 Inl x \<Rightarrow> op_return (Inl x)
               | Inr (Inl _) \<Rightarrow> nextCb attrs
               | Inr (Inr u) \<Rightarrow> nextCb (attrs(''user_id'' \<mapsto> to_string (user_id u),
                   ''user_role'' \<mapsto> role_to_string (user_role u))))))"

text \<open>The log is a list of lines; \<open>t0\<close>, \<open>t1\<close> are readings of the steady clock, and a duration in
  milliseconds is cut towards zero. An exception leaves before the second line.\<close>

definition LoggingMiddleware_invoke ::
  "time_point \<Rightarrow> time_point \<Rightarrow> string \<Rightarrow> string \<Rightarrow> ('s, exn + 'j HttpResponse) op \<Rightarrow> ('s \<times> string list, exn + 'j HttpResponse) op" where
  "LoggingMiddleware_invoke t0 t1 method path nextCb s =
     (let lines = snd s @ [''>>> '' @ method @ '' '' @ path] in
      case nextCb (fst s) of
        None \<Rightarrow> None
      | Some (Inl x, s') \<Rightarrow> Some (Inl x, (s', lines))
      | Some (Inr resp, s') \<Rightarrow>
          Some (Inr resp, (s', lines @ [''<<< '' @ method @ '' '' @ path @ '' -> '' @ show_int (rp_status resp) @
            '' ('' @ show_int ((t1 - t0) sdiv 1000000) @ ''ms)''])))"

section \<open>Logging in over HTTP\<close>

lemma login_status_refusal: "login_status (refusal us n pw) = 500"
  by (simp add: login_status_def refusal_def)

lemma credentials_unique:
  "distinct_users us \<Longrightarrow> credentials_ok sha us n pw u \<Longrightarrow> credentials_ok sha us n pw v \<Longrightarrow> u = v"
  unfolding distinct_users_def credentials_ok_def by metis

text \<open>C32: a login request with right credentials is answered 200 with the tokens and the user; with an
  empty name or password 422 before the database is asked; wrong credentials and deactivated accounts are
  answered 500, since the handler knows two error codes that the use case never gives.\<close>

theorem login_http:
  assumes "sql_users pq rows_in up view" and "pg_users_ready pq rows_in up s"
    and "rq_json req = Some j" and "login_from_json lib j = Inr l"
  shows "\<exists>resp s'. login lib (pg_user_repo pq) (AuthServiceImpl sha jwt cfg clk (pg_user_repo pq)) req s = Some (Inr resp, s') \<and>
    pg_members pq rows_in s' = pg_members pq rows_in s \<and>
    (if lg_username l = [] \<or> lg_password l = [] then rp_status resp = 422 \<and> s' = s
     else if \<exists>u. credentials_ok sha (pg_members pq rows_in s) (lg_username l) (lg_password l) u
     then \<exists>u. credentials_ok sha (pg_members pq rows_in s) (lg_username l) (lg_password l) u \<and>
       resp = token_response lib (tokens_for jwt cfg clk u)
     else rp_status resp = 500)"
proof (cases "lg_username l = [] \<or> lg_password l = []")
  case True
  then show ?thesis using assms(3,4) by (auto simp: login_def)
next
  case False
  obtain r s' where r: "auth_execute (pg_user_repo pq) (AuthServiceImpl sha jwt cfg clk (pg_user_repo pq)) (lg_username l)
      (lg_password l) s = Some (r, s')" "pg_members pq rows_in s' = pg_members pq rows_in s"
    and c: "case r of Inr t \<Rightarrow> credentials_ok sha (pg_members pq rows_in s) (lg_username l) (lg_password l) (token_user t) \<and>
        t = tokens_for jwt cfg clk (token_user t)
     | Inl e \<Rightarrow> (\<forall>u. \<not> credentials_ok sha (pg_members pq rows_in s) (lg_username l) (lg_password l) u) \<and>
        err_code e = refusal (pg_members pq rows_in s) (lg_username l) (lg_password l)"
    using user_directory.login_cases[OF sql_users.contract[OF assms(1)] assms(2),
        of sha jwt cfg clk "lg_username l" "lg_password l"] by (elim exE conjE) (rule that)
  show ?thesis
  proof (cases r)
    case (Inl e)
    then show ?thesis using False r c assms(3,4) by (simp add: login_def login_status_refusal)
  next
    case (Inr t)
    then have "login lib (pg_user_repo pq) (AuthServiceImpl sha jwt cfg clk (pg_user_repo pq)) req s =
        Some (Inr (token_response lib t), s')" using False r assms(3,4) by (simp add: login_def)
    moreover have cu: "credentials_ok sha (pg_members pq rows_in s) (lg_username l) (lg_password l) (token_user t) \<and>
        t = tokens_for jwt cfg clk (token_user t)" using c[unfolded Inr sum.case] .
    moreover have "\<exists>u. credentials_ok sha (pg_members pq rows_in s) (lg_username l) (lg_password l) u \<and>
        token_response lib t = token_response lib (tokens_for jwt cfg clk u)"
      by (rule exI[of _ "token_user t"]) (rule conjI[OF conjunct1[OF cu] arg_cong[OF conjunct2[OF cu]]])
    moreover have "\<exists>u. credentials_ok sha (pg_members pq rows_in s) (lg_username l) (lg_password l) u" using cu by blast
    ultimately show ?thesis using False r(2)
      by (intro exI[of _ "token_response lib t"] exI[of _ s'] conjI) (assumption | simp only: if_False if_True)+
  qed
qed

theorem login_http_witness:
  "\<exists>resp s'. login std_json (pg_user_repo user_pq) (AuthServiceImpl plain_sha plain_jwt office_jwt int (pg_user_repo user_pq))
     (request_of (login_to_json std_json \<lparr>lg_username = ''budi'', lg_password = ''salah''\<rparr>)) office = Some (Inr resp, s') \<and>
     rp_status resp = 500"
proof -
  have f: "login_from_json std_json (login_to_json std_json l) = Inr l" for l
    by (simp add: login_from_json_def login_to_json_def std.at_string_object)
  have "hash_password plain_sha ''rahasia'' \<noteq> hash_password plain_sha ''salah''"
    by (simp add: hash_password_def plain_sha_def show_base.simps pad_def digit_char_def)
  then have "\<not> credentials_ok plain_sha {staff_user} ''budi'' ''salah'' u" for u
    using staff_user_login by (auto simp: credentials_ok_def)
  then show ?thesis
    using login_http[OF office_server office_is_ready _ f, of "request_of (login_to_json std_json \<lparr>lg_username = ''budi'', lg_password = ''salah''\<rparr>)"
        "\<lparr>lg_username = ''budi'', lg_password = ''salah''\<rparr>" plain_sha plain_jwt office_jwt int]
    by (auto simp: request_of_def)
qed

section \<open>Behind the middleware\<close>

definition admitted :: "'c jwt_lib \<Rightarrow> string \<Rightarrow> bool" where
  "admitted jwt h \<longleftrightarrow> starts_with h bearer \<and> decode_jwt jwt (drop 7 h) \<noteq> None"

lemma length_bearer [simp]: "length bearer = 7"
  by (simp add: bearer_def)

lemma starts_with_bearer: "starts_with h bearer \<Longrightarrow> h \<noteq> []" "starts_with (bearer @ x) bearer" "drop 7 (bearer @ x) = x"
  by (auto simp: starts_with_def bearer_def)

lemma middleware_refuses:
  assumes "\<not> admitted jwt (rq_header req ''Authorization'')"
  shows "\<exists>d. AuthMiddleware_invoke lib (AuthServiceImpl sha jwt cfg clk us) nextCb req attrs s =
    Some (Inr (unauthorized_response lib d), s)"
  using assms by (auto simp: AuthMiddleware_invoke_def Let_def admitted_def svc_validate_token_def split: option.splits)

lemma middleware_admits:
  assumes "admitted jwt (rq_header req ''Authorization'')"
  shows "AuthMiddleware_invoke lib (AuthServiceImpl sha jwt cfg clk us) nextCb req attrs =
    op_bind (svc_get_current_user jwt us (drop 7 (rq_header req ''Authorization''))) (\<lambda>r.
      case r of
        Inl x \<Rightarrow> op_return (Inl x)
      | Inr (Inl _) \<Rightarrow> nextCb attrs
      | Inr (Inr u) \<Rightarrow> nextCb (attrs(''user_id'' \<mapsto> to_string (user_id u), ''user_role'' \<mapsto> role_to_string (user_role u))))"
  using assms starts_with_bearer(1)
  by (auto simp: AuthMiddleware_invoke_def Let_def admitted_def svc_validate_token_def)

text \<open>C34: a request without a bearer token that decodes is answered 401 and goes no further; any other goes
  on, with the identifier and role of the stored user its token names, or with no attributes at all when
  there is no such user; a subject that is no identifier makes an exception leave the middleware.\<close>

theorem middleware_gate:
  assumes "sql_users pq rows_in up view" and "pg_users_ready pq rows_in up s"
  shows "if \<not> admitted jwt (rq_header req ''Authorization'')
    then \<exists>d. AuthMiddleware_invoke lib (AuthServiceImpl sha jwt cfg clk (pg_user_repo pq)) nextCb req attrs s =
      Some (Inr (unauthorized_response lib d), s)
    else \<exists>s'. pg_users_ready pq rows_in up s' \<and> pg_members pq rows_in s' = pg_members pq rows_in s \<and>
      AuthMiddleware_invoke lib (AuthServiceImpl sha jwt cfg clk (pg_user_repo pq)) nextCb req attrs s =
        (case the (token_subject jwt (drop 7 (rq_header req ''Authorization''))) of
           Inl x \<Rightarrow> Some (Inl x, s')
         | Inr k \<Rightarrow>
             nextCb (if \<exists>u \<in> pg_members pq rows_in s. user_id u = k
               then attrs(''user_id'' \<mapsto> to_string k,
                 ''user_role'' \<mapsto> role_to_string (user_role (THE u. u \<in> pg_members pq rows_in s \<and> user_id u = k)))
               else attrs) s')"
proof (cases "admitted jwt (rq_header req ''Authorization'')")
  case True
  let ?t = "drop 7 (rq_header req ''Authorization'')"
  note dir = sql_users.contract[OF assms(1)]
  obtain r s' where r: "svc_get_current_user jwt (pg_user_repo pq) ?t s = Some (r, s')" "pg_users_ready pq rows_in up s'"
    "pg_members pq rows_in s' = pg_members pq rows_in s"
    and c: "case token_subject jwt ?t of
       None \<Rightarrow> r = Inr (Inl (unauthorized ''Invalid token''))
     | Some (Inl x) \<Rightarrow> r = Inl x
     | Some (Inr k) \<Rightarrow>
         (if \<exists>u \<in> pg_members pq rows_in s. user_id u = k
          then \<exists>u \<in> pg_members pq rows_in s. user_id u = k \<and> r = Inr (Inr u) else \<exists>e. r = Inr (Inl e))"
    using user_directory.current_user_cases[OF dir assms(2), of jwt ?t] by (elim exE conjE) (rule that)
  obtain sub where sub: "token_subject jwt ?t = Some sub" using True by (auto simp: admitted_def token_subject_def)
  have the: "(THE u. u \<in> pg_members pq rows_in s \<and> user_id u = k) = u"
    if "u \<in> pg_members pq rows_in s" "user_id u = k" for u k
    using that user_directory.same_id[OF dir assms(2)] by blast
  have "AuthMiddleware_invoke lib (AuthServiceImpl sha jwt cfg clk (pg_user_repo pq)) nextCb req attrs s =
        (case sub of
           Inl x \<Rightarrow> Some (Inl x, s')
         | Inr k \<Rightarrow>
             nextCb (if \<exists>u \<in> pg_members pq rows_in s. user_id u = k
               then attrs(''user_id'' \<mapsto> to_string k,
                 ''user_role'' \<mapsto> role_to_string (user_role (THE u. u \<in> pg_members pq rows_in s \<and> user_id u = k)))
               else attrs) s')"
  proof (cases sub)
    case (Inr k)
    show ?thesis
    proof (cases "\<exists>u \<in> pg_members pq rows_in s. user_id u = k")
      case found: True
      with c sub Inr obtain u where u: "u \<in> pg_members pq rows_in s" "user_id u = k" "r = Inr (Inr u)" by auto
      then show ?thesis using r(1) found Inr the[OF u(1,2)] by (simp add: middleware_admits[OF True])
    next
      case missing: False
      with c sub Inr obtain e where "r = Inr (Inl e)" by auto
      then show ?thesis using r(1) missing Inr by (simp add: middleware_admits[OF True])
    qed
  qed (use r(1) c sub in \<open>simp add: middleware_admits[OF True]\<close>)
  with True r(2,3) sub show ?thesis by auto
qed (use middleware_refuses in auto)

text \<open>A handler behind the middleware that answers with the role it sees.\<close>

definition whoami :: "attributes \<Rightarrow> ('s, exn + JsonValue HttpResponse) op" where
  "whoami attrs = op_return (Inr (make_json_response (JString (case attrs ''user_role'' of None \<Rightarrow> [] | Some x \<Rightarrow> x))))"

definition request_with :: "string \<Rightarrow> JsonValue HttpRequest" where
  "request_with h = \<lparr>rq_json = None, rq_params = (\<lambda>_. None), rq_header = (\<lambda>k. if k = ''Authorization'' then h else [])\<rparr>"

lemma no_bearer: "\<not> starts_with ''Basic YQ=='' bearer"
  by (simp add: starts_with_def bearer_def)

theorem middleware_gate_witness:
  "\<exists>d. AuthMiddleware_invoke std_json (AuthServiceImpl plain_sha plain_jwt office_jwt int (pg_user_repo user_pq)) whoami
     (request_with ''Basic YQ=='') (\<lambda>_. None) office = Some (Inr (unauthorized_response std_json d), office)"
  using middleware_gate[OF office_server office_is_ready, of plain_jwt "request_with ''Basic YQ==''" std_json plain_sha office_jwt int whoami "\<lambda>_. None"]
  by (simp add: admitted_def request_with_def no_bearer)

text \<open>What jwt-cpp documents of \<open>decode\<close>: it gives the claims of a signed token, whatever the key.\<close>

definition decodes_signed :: "'c jwt_lib \<Rightarrow> bool" where
  "decodes_signed jwt \<longleftrightarrow>
     (\<forall>c k. \<exists>payload. jwt_decode jwt (jwt_sign jwt c k) = Some payload \<and>
       claim_text jwt (payload ''sub'') = Inr (jc_subject c))"

lemma signed_admitted:
  assumes "decodes_signed jwt" and "jc_subject c = to_string k"
  shows "admitted jwt (bearer @ jwt_sign jwt c key) \<and> token_subject jwt (jwt_sign jwt c key) = Some (Inr k)"
  using assms unfolding decodes_signed_def
  by (auto simp: admitted_def starts_with_bearer token_subject_def decode_jwt_def from_to_string
      dest!: spec[of _ c] spec[of _ key])

text \<open>A request with a signed token of a stored user goes on with the identity of that user.\<close>

lemma middleware_signed:
  assumes "sql_users pq rows_in up view" and "pg_users_ready pq rows_in up s" and "decodes_signed jwt"
    and "u \<in> pg_members pq rows_in s" and "jc_subject c = to_string (user_id u)"
    and "rq_header req ''Authorization'' = bearer @ jwt_sign jwt c key"
  shows "\<exists>s'. pg_users_ready pq rows_in up s' \<and> pg_members pq rows_in s' = pg_members pq rows_in s \<and>
    AuthMiddleware_invoke lib (AuthServiceImpl sha jwt cfg clk (pg_user_repo pq)) nextCb req attrs s =
      nextCb (attrs(''user_id'' \<mapsto> to_string (user_id u), ''user_role'' \<mapsto> role_to_string (user_role u))) s'"
proof -
  note dir = sql_users.contract[OF assms(1)]
  have adm: "admitted jwt (rq_header req ''Authorization'')"
    and sub: "token_subject jwt (drop 7 (rq_header req ''Authorization'')) = Some (Inr (user_id u))"
    using signed_admitted[OF assms(3,5), of key] by (simp_all add: assms(6) starts_with_bearer)
  obtain r s' where r: "svc_get_current_user jwt (pg_user_repo pq) (drop 7 (rq_header req ''Authorization'')) s = Some (r, s')"
    "pg_users_ready pq rows_in up s'" "pg_members pq rows_in s' = pg_members pq rows_in s"
    and c: "if \<exists>v \<in> pg_members pq rows_in s. user_id v = user_id u
      then \<exists>v \<in> pg_members pq rows_in s. user_id v = user_id u \<and> r = Inr (Inr v) else \<exists>e. r = Inr (Inl e)"
    using user_directory.current_user_cases[OF dir assms(2), of jwt "drop 7 (rq_header req ''Authorization'')",
        unfolded sub option.case sum.case] by (elim exE conjE) (rule that)
  have "\<exists>v \<in> pg_members pq rows_in s. user_id v = user_id u" using assms(4) by blast
  then have "\<exists>v \<in> pg_members pq rows_in s. user_id v = user_id u \<and> r = Inr (Inr v)" using c by (simp only: if_True)
  then have "r = Inr (Inr u)" using user_directory.same_id[OF dir assms(2)] assms(4) by blast
  with r show ?thesis by (auto simp: middleware_admits[OF adm])
qed

text \<open>C35: a token that names a stored user is let through with that user's role whatever key signed it and
  however long ago it expired: neither the signature nor the expiry is checked.\<close>

theorem signature_not_checked:
  assumes "sql_users pq rows_in up view" and "pg_users_ready pq rows_in up s" and "decodes_signed jwt"
    and "u \<in> pg_members pq rows_in s" and "jc_subject c = to_string (user_id u)"
    and "rq_header req ''Authorization'' = bearer @ jwt_sign jwt c key"
  shows "\<exists>s'. pg_users_ready pq rows_in up s' \<and> pg_members pq rows_in s' = pg_members pq rows_in s \<and>
    AuthMiddleware_invoke lib (AuthServiceImpl sha jwt cfg clk (pg_user_repo pq)) nextCb req attrs s =
      nextCb (attrs(''user_id'' \<mapsto> to_string (user_id u), ''user_role'' \<mapsto> role_to_string (user_role u))) s'"
  by (rule middleware_signed[OF assms])

definition forged :: JwtClaims where
  "forged = \<lparr>jc_issuer = [], jc_subject = to_string (user_id staff_user), jc_issued_at = 0, jc_expires_at = 1,
     jc_role = ''admin'', jc_username = ''nobody''\<rparr>"

lemma plain_jwt_decodes: "decodes_signed plain_jwt"
  by (simp add: decodes_signed_def plain_jwt_def read_subject_signed claim_text_def)

theorem signature_not_checked_witness:
  "\<exists>s'. AuthMiddleware_invoke std_json (AuthServiceImpl plain_sha plain_jwt office_jwt int (pg_user_repo user_pq)) whoami
     (request_with (bearer @ jwt_sign plain_jwt forged ''guess'')) (\<lambda>_. None) office
     = Some (Inr (make_json_response (JString ''operator'')), s')"
proof -
  have "user_role staff_user = kOperator" by (simp add: staff_user_def)
  then show ?thesis
    using signature_not_checked[OF office_server office_is_ready plain_jwt_decodes, of staff_user forged
        "request_with (bearer @ jwt_sign plain_jwt forged ''guess'')" "''guess''" std_json plain_sha office_jwt int whoami "\<lambda>_. None"]
    by (auto simp: forged_def request_with_def whoami_def)
qed

section \<open>The log\<close>

text \<open>The logging middleware changes neither the response nor the rest of the state; it adds one line
  for the request and, unless an exception leaves, one for the response with its status.\<close>

lemma logging_transparent:
  assumes "nextCb s = Some (r, s')"
  shows "\<exists>lines. LoggingMiddleware_invoke t0 t1 method path nextCb (s, ls) = Some (r, (s', ls @ lines)) \<and>
    (case r of
       Inl x \<Rightarrow> lines = [''>>> '' @ method @ '' '' @ path]
     | Inr resp \<Rightarrow> \<exists>ms. lines = [''>>> '' @ method @ '' '' @ path,
         ''<<< '' @ method @ '' '' @ path @ '' -> '' @ show_int (rp_status resp) @ '' ('' @ ms @ ''ms)''])"
  using assms by (cases r) (auto simp: LoggingMiddleware_invoke_def Let_def)

end
