(* ===== verification/Service.thy ===== *)
theory Service
  imports Traffic AuthApi
begin

text \<open>
  Both controllers over one database: any sequence of requests to the item and the authentication
  endpoints. The statements of the item repository leave the users alone and the authentication only reads,
  so neither part disturbs the other.
\<close>

section \<open>The endpoints\<close>

text \<open>The routes of \<^verbatim>\<open>AuthController\<close> beside those of \<^verbatim>\<open>ItemController\<close>. No route names a middleware.\<close>

datatype 'j ServiceCall =
    Item_call "'j ItemCall"
  | Login_call "'j HttpRequest"
  | Refresh_call "'j HttpRequest"
  | Logout_call "'j HttpRequest"

fun service_handle ::
  "'j json_lib \<Rightarrow> (int \<Rightarrow> string) \<Rightarrow> int32 \<Rightarrow> 's ItemRepository \<Rightarrow> 's UserRepository \<Rightarrow> 's AuthService \<Rightarrow> 'j ServiceCall \<Rightarrow>
   ('s, exn + 'j HttpResponse) op" where
  "service_handle lib ctime ub items users svc (Item_call c) = handle lib ctime ub items c"
| "service_handle lib ctime ub items users svc (Login_call req) = login lib users svc req"
| "service_handle lib ctime ub items users svc (Refresh_call req) = refresh lib svc req"
| "service_handle lib ctime ub items users svc (Logout_call req) = op_return (Inr (logout lib svc req))"

fun service_all ::
  "'j json_lib \<Rightarrow> (int \<Rightarrow> string) \<Rightarrow> int32 \<Rightarrow> 's ItemRepository \<Rightarrow> 's UserRepository \<Rightarrow> 's AuthService \<Rightarrow> 'j ServiceCall list \<Rightarrow>
   ('s, (exn + 'j HttpResponse) list) op" where
  "service_all lib ctime ub items users svc [] = op_return []"
| "service_all lib ctime ub items users svc (c # cs) =
     op_bind (service_handle lib ctime ub items users svc c) (\<lambda>r.
     op_bind (service_all lib ctime ub items users svc cs) (\<lambda>rs. op_return (r # rs)))"

fun service_time :: "'j ServiceCall \<Rightarrow> time_point" where
  "service_time (Item_call c) = call_time c"
| "service_time _ = 0"

section \<open>Authentication keeps the state\<close>

locale readable_users =
  fixes users :: "'s UserRepository"
    and ready :: "'s \<Rightarrow> bool"
  assumes name_keeps [keeps_rules]: "keeps ready any (u_find_by_username users n)"
    and id_keeps [keeps_rules]: "keeps ready any (u_find_by_id users k)"
begin

lemma authenticate_keeps [keeps_rules]: "keeps ready any (svc_authenticate sha jwt cfg clk users n pw)"
  unfolding svc_authenticate_def Let_def
  by (intro keeps_bind[OF name_keeps] keeps_case_sum keeps_if keeps_return) simp_all

lemma auth_execute_keeps [keeps_rules]: "keeps ready any (auth_execute users (AuthServiceImpl sha jwt cfg clk users) n pw)"
  unfolding auth_execute_def AuthServiceImpl_def
  by (simp, intro conjI impI keeps_bind[OF name_keeps] keeps_case_sum keeps_if keeps_return) (simp_all add: authenticate_keeps)

lemma refresh_tokens_keeps [keeps_rules]: "keeps ready any (svc_refresh_tokens sha jwt cfg clk users x)"
  unfolding svc_refresh_tokens_def
  by (intro keeps_case_option keeps_bind[OF id_keeps] keeps_bind[OF authenticate_keeps] keeps_case_sum keeps_return) simp_all

lemma login_keeps: "keeps ready any (login lib users (AuthServiceImpl sha jwt cfg clk users) req)"
  unfolding login_def
  by (intro keeps_case_option keeps_bind[OF auth_execute_keeps] keeps_case_sum keeps_if keeps_return) simp_all

lemma refresh_keeps: "keeps ready any (refresh lib (AuthServiceImpl sha jwt cfg clk users) req)"
  unfolding refresh_def AuthServiceImpl_def AuthService.simps
  by (intro keeps_case_option keeps_bind[OF refresh_tokens_keeps] keeps_case_sum keeps_if keeps_return) simp_all

end

locale shared_service = robust_repository items ready + readable_users users ready
  for items :: "'s ItemRepository" and users :: "'s UserRepository" and ready :: "'s \<Rightarrow> bool"
begin

lemma service_keeps:
  "in_clock (service_time c) \<Longrightarrow>
     keeps ready any (service_handle lib ctime ub items users (AuthServiceImpl sha jwt cfg clk users) c)"
  by (cases c) (simp_all add: handle_keeps login_keeps refresh_keeps keeps_return)

lemma service_all_keeps:
  "\<forall>c \<in> set cs. in_clock (service_time c) \<Longrightarrow>
     keeps ready (\<lambda>rs. length rs = length cs)
       (service_all lib ctime ub items users (AuthServiceImpl sha jwt cfg clk users) cs)"
proof (induction cs)
  case (Cons c cs)
  then show ?case
    by (auto intro!: keeps_bind[OF service_keeps] keeps_bind[where Q = "\<lambda>rs. length rs = length cs"] keeps_return)
qed (simp add: keeps_return)

end

section \<open>One database\<close>

text \<open>The statements of the item repository that write do not touch the table of users.\<close>

definition item_write :: "string \<Rightarrow> bool" where
  "item_write sql \<longleftrightarrow> sql = sql_item_insert \<or> sql = sql_item_update \<or> sql = sql_item_delete"

locale sql_shop = store: sql_items_strict pq rows_of up view storable + staff: sql_users pq rows_in up view
  for pq :: "('d, 't) pqxx" and rows_of :: "'d \<Rightarrow> string \<Rightarrow> row option" and rows_in :: "'d \<Rightarrow> row set"
    and up :: "'d \<Rightarrow> bool" and view :: "'t \<Rightarrow> 'd" and storable :: "Item \<Rightarrow> bool" +
  assumes apart: "item_write sql \<Longrightarrow> exec_sql pq sql ps t = Inr (res, t') \<Longrightarrow> rows_in (view t') = rows_in (view t)"
begin

text \<open>So what \<open>sql_items_strict\<close> says still holds when being up includes that the users are as they are.\<close>

lemma items_apart: "sql_items_strict pq rows_of (\<lambda>d. up d \<and> rows_in d = R) view storable"
proof unfold_locales
  fix t i
  assume up: "up (view t) \<and> rows_in (view t) = R" and st: "storable i" "rows_of (view t) (to_string (item_id i)) = None"
    "sku_unused (rows_of (view t)) (to_string (item_id i)) (sku i)"
  obtain t' res r where t': "exec_sql pq sql_item_insert
      (item_params i @ [PText (format_iso8601 (created_at i)), PText (format_iso8601 (updated_at i))]) t = Inr (res, t')"
    "rows res = [r]" "row_holds pq i r" "up (view t')" "rows_of (view t') = (rows_of (view t))(to_string (item_id i) \<mapsto> r)"
    using store.ins[OF _ st] up by blast
  moreover have "rows_in (view t') = R" using apart[OF _ t'(1)] up by (simp add: item_write_def)
  ultimately show "\<exists>t' res r. exec_sql pq sql_item_insert
      (item_params i @ [PText (format_iso8601 (created_at i)), PText (format_iso8601 (updated_at i))]) t = Inr (res, t') \<and>
    rows res = [r] \<and> row_holds pq i r \<and> (up (view t') \<and> rows_in (view t') = R) \<and>
    rows_of (view t') = (rows_of (view t))(to_string (item_id i) \<mapsto> r)" by blast
next
  fix t i r0
  assume up: "up (view t) \<and> rows_in (view t) = R" and st: "storable i" "rows_of (view t) (to_string (item_id i)) = Some r0"
    "sku_unused (rows_of (view t)) (to_string (item_id i)) (sku i)" "holds_time (r0 ''created_at'')"
  obtain t' res r where t': "exec_sql pq sql_item_update (item_params i @ [PText (format_iso8601 (updated_at i))]) t = Inr (res, t')"
    "rows res = [r]" "row_holds pq i r" "r ''created_at'' = r0 ''created_at''" "up (view t')"
    "rows_of (view t') = (rows_of (view t))(to_string (item_id i) \<mapsto> r)"
    using store.upd[OF _ st] up by blast
  moreover have "rows_in (view t') = R" using apart[OF _ t'(1)] up by (simp add: item_write_def)
  ultimately show "\<exists>t' res r. exec_sql pq sql_item_update (item_params i @ [PText (format_iso8601 (updated_at i))]) t = Inr (res, t') \<and>
    rows res = [r] \<and> row_holds pq i r \<and> r ''created_at'' = r0 ''created_at'' \<and> (up (view t') \<and> rows_in (view t') = R) \<and>
    rows_of (view t') = (rows_of (view t))(to_string (item_id i) \<mapsto> r)" by blast
next
  fix t k
  assume up: "up (view t) \<and> rows_in (view t) = R"
  obtain t' res where t': "exec_sql pq sql_item_delete [PText (to_string k)] t = Inr (res, t')"
    "affected_rows res = (if rows_of (view t) (to_string k) = None then 0 else 1)" "up (view t')"
    "rows_of (view t') = (rows_of (view t))(to_string k := None)"
    using store.del[of t k] up by blast
  moreover have "rows_in (view t') = R" using apart[OF _ t'(1)] up by (simp add: item_write_def)
  ultimately show "\<exists>t' res. exec_sql pq sql_item_delete [PText (to_string k)] t = Inr (res, t') \<and>
    affected_rows res = (if rows_of (view t) (to_string k) = None then 0 else 1) \<and> (up (view t') \<and> rows_in (view t') = R) \<and>
    rows_of (view t') = (rows_of (view t))(to_string k := None)" by blast
next
  fix t i res t'
  assume up: "up (view t) \<and> rows_in (view t) = R" and i: "item_ok i" "in_clock (created_at i)" "in_clock (updated_at i)"
    and ex: "exec_sql pq sql_item_insert
      (item_params i @ [PText (format_iso8601 (created_at i)), PText (format_iso8601 (updated_at i))]) t = Inr (res, t')"
  show "(up (view t') \<and> rows_in (view t') = R) \<and> stores pq i (rows_of (view t)) (rows_of (view t'))"
    using store.ins_strict[OF _ i ex] apart[OF _ ex] up by (simp add: item_write_def)
next
  fix t i res t'
  assume up: "up (view t) \<and> rows_in (view t) = R" and i: "rows_ok pq (rows_of (view t))" "item_ok i" "in_clock (updated_at i)"
    and ex: "exec_sql pq sql_item_update (item_params i @ [PText (format_iso8601 (updated_at i))]) t = Inr (res, t')"
  show "(up (view t') \<and> rows_in (view t') = R) \<and>
      (rows_of (view t') = rows_of (view t) \<or> stores pq i (rows_of (view t)) (rows_of (view t')))"
    using store.upd_strict[OF _ i ex] apart[OF _ ex] up by (simp add: item_write_def)
qed (elim conjE, (rule store.open_conn store.begin_work store.commits store.sel_id store.sel_sku store.page_reads store.count_reads;
    assumption))+

text \<open>And the authentication, which only reads, leaves the database as it is.\<close>

lemma staff_apart: "up D \<Longrightarrow> sql_users pq rows_in (\<lambda>d. d = D) view"
  by unfold_locales (blast intro: staff.open_conn staff.begin_work staff.commits staff.sel_id staff.sel_name)+

lemma staff_readable:
  assumes R: "user_rows_ok pq R"
  shows "readable_users (pg_user_repo pq) (pg_ready pq rows_of (\<lambda>d. up d \<and> rows_in d = R))"
proof
  fix n k
  let ?ready = "pg_ready pq rows_of (\<lambda>d. up d \<and> rows_in d = R)"
  have users: "user_directory (pg_user_repo pq) (pg_members pq rows_in) (pg_users_ready pq rows_in (\<lambda>d. d = bk_db s))"
      "pg_users_ready pq rows_in (\<lambda>d. d = bk_db s) s" if "?ready s" for s
    using that R sql_users.contract[OF staff_apart[of "bk_db s"]] by (simp_all add: pg_ready_def pg_users_ready_def)
  have same: "?ready s'" if "?ready s" "pg_users_ready pq rows_in (\<lambda>d. d = bk_db s) s'" for s s'
    using that by (simp add: pg_ready_def pg_users_ready_def)
  show "keeps ?ready any (u_find_by_username (pg_user_repo pq) n)"
  proof (rule keepsI)
    fix s assume s: "?ready s"
    show "\<exists>x s'. u_find_by_username (pg_user_repo pq) n s = Some (x, s') \<and> ?ready s' \<and> True"
      using user_directory.name_lookup[OF users[OF s], of n] same[OF s] by blast
  qed
  show "keeps ?ready any (u_find_by_id (pg_user_repo pq) k)"
  proof (rule keepsI)
    fix s assume s: "?ready s"
    show "\<exists>x s'. u_find_by_id (pg_user_repo pq) k s = Some (x, s') \<and> ?ready s' \<and> True"
      using user_directory.id_lookup[OF users[OF s], of k] same[OF s] by blast
  qed
qed

lemma service:
  assumes "user_rows_ok pq R"
  shows "shared_service (pg_item_repo pq) (pg_user_repo pq) (pg_ready pq rows_of (\<lambda>d. up d \<and> rows_in d = R))"
  by (rule shared_service.intro[OF sql_items_strict.traffic[OF items_apart] staff_readable[OF assms]])

text \<open>Any calls leave everything ready and the users as they are.\<close>

lemma calls_kept:
  assumes "pg_ready pq rows_of up s" and "pg_users_ready pq rows_in up s" and "\<forall>c \<in> set calls. in_clock (service_time c)"
  shows "\<exists>rs s'. service_all lib ctime ub (pg_item_repo pq) (pg_user_repo pq) (AuthServiceImpl sha jwt cfg clk (pg_user_repo pq))
      calls s = Some (rs, s') \<and> length rs = length calls \<and>
    pg_ready pq rows_of up s' \<and> pg_users_ready pq rows_in up s' \<and> pg_members pq rows_in s' = pg_members pq rows_in s"
proof -
  let ?up = "\<lambda>d. up d \<and> rows_in d = rows_in (bk_db s)"
  have users: "user_rows_ok pq (rows_in (bk_db s))" using assms(2) by (simp add: pg_users_ready_def)
  have "pg_ready pq rows_of ?up s" using assms(1) by (simp add: pg_ready_def)
  then obtain rs s' where "service_all lib ctime ub (pg_item_repo pq) (pg_user_repo pq)
      (AuthServiceImpl sha jwt cfg clk (pg_user_repo pq)) calls s = Some (rs, s')" "pg_ready pq rows_of ?up s'" "length rs = length calls"
    using keepsD[OF shared_service.service_all_keeps[OF service[OF users] assms(3)]] by blast
  then show ?thesis using users by (auto simp: pg_ready_def pg_users_ready_def pg_members_def)
qed

lemma login_kept:
  assumes "pg_ready pq rows_of up s" and "pg_users_ready pq rows_in up s"
    and "login lib (pg_user_repo pq) (AuthServiceImpl sha jwt cfg clk (pg_user_repo pq)) req s = Some (x, s1)"
  shows "pg_ready pq rows_of up s1 \<and> pg_users_ready pq rows_in up s1 \<and> pg_members pq rows_in s1 = pg_members pq rows_in s"
  using calls_kept[OF assms(1,2), where calls = "[Login_call req]" and lib = lib and sha = sha and jwt = jwt and cfg = cfg and clk = clk]
    assms(3) by (auto simp: in_clock_def op_bind_def op_return_def)

end

section \<open>The executable server\<close>

text \<open>The tables of \<^verbatim>\<open>Server\<close> and \<^verbatim>\<open>PgUsers\<close> side by side; statements about users go to the second.\<close>

definition shop_exec :: "string \<Rightarrow> param list \<Rightarrow> Server \<times> row list \<Rightarrow> db_exn + (pg_result \<times> (Server \<times> row list))" where
  "shop_exec sql ps d =
     (if sql = sql_user_by_id \<or> sql = sql_user_by_username
      then map_sum id (\<lambda>(res, u). (res, (fst d, u))) (user_server_exec sql ps (snd d))
      else map_sum id (\<lambda>(res, i). (res, (i, snd d))) (server_exec sql ps (fst d)))"

definition shop_pq :: "(Server \<times> row list, Server \<times> row list) pqxx" where
  "shop_pq = \<lparr>conn_open = (\<lambda>d c. True), conn_attempt = (\<lambda>d n. Not_open), work = (\<lambda>c d. Inr d),
     exec_sql = shop_exec, commit = (\<lambda>t d. (t, Inr ())), parse_int64 = (\<lambda>x. lift_exn (stoll x)), parse_size = (\<lambda>x. lift_exn (stoll x)),
     parse_bool = (\<lambda>x. Inr (x = ''t'')), null_error = Std_exception ''null''\<rparr>"

lemma user_statements_other:
  "sql_item_by_id \<noteq> sql_user_by_id" "sql_item_by_id \<noteq> sql_user_by_username"
  "sql_item_by_sku \<noteq> sql_user_by_id" "sql_item_by_sku \<noteq> sql_user_by_username"
  "sql_item_insert \<noteq> sql_user_by_id" "sql_item_insert \<noteq> sql_user_by_username"
  "sql_item_update \<noteq> sql_user_by_id" "sql_item_update \<noteq> sql_user_by_username"
  "sql_item_delete \<noteq> sql_user_by_id" "sql_item_delete \<noteq> sql_user_by_username"
  by (simp_all add: sql_item_by_id_def sql_item_by_sku_def sql_item_insert_def sql_item_update_def sql_item_delete_def
      sql_user_by_id_def sql_user_by_username_def)

lemma shop_rows: "row_holds shop_pq i r = row_holds server_pq i r" "rows_ok shop_pq m = rows_ok server_pq m"
  "stores shop_pq i m m' = stores server_pq i m m'"
proof -
  show h: "row_holds shop_pq i r = row_holds server_pq i r" for i r
    by (simp add: row_holds_def holds_int_def as_int64_def shop_pq_def server_pq_def)
  show "rows_ok shop_pq m = rows_ok server_pq m" by (simp add: rows_ok_def h)
  show "stores shop_pq i m m' = stores server_pq i m m'" by (simp add: stores_def h)
qed

lemma shop_exec_item:
  assumes "sql \<noteq> sql_user_by_id" and "sql \<noteq> sql_user_by_username"
  shows "exec_sql server_pq sql ps (fst t) = Inr (res, a) \<Longrightarrow> exec_sql shop_pq sql ps t = Inr (res, (a, snd t))"
    and "exec_sql shop_pq sql ps t = Inr (res, t') \<Longrightarrow> exec_sql server_pq sql ps (fst t) = Inr (res, fst t') \<and> snd t' = snd t"
  using assms by (auto simp: shop_pq_def server_pq_def shop_exec_def map_sum_def split: sum.splits)

lemma shop_reads:
  assumes "selects (q, ps)" and "exec_sql shop_pq q ps' t = Inr (res, t')"
  shows "t' = t"
proof (cases "q = sql_user_by_id \<or> q = sql_user_by_username")
  case True
  then show ?thesis using assms(2)
    by (cases ps' rule: list.exhaust)
      (auto simp: shop_pq_def shop_exec_def user_server_exec_def map_sum_def user_statements_differ split: sum.splits param.splits list.splits if_splits)
next
  case False
  then have "exec_sql server_pq q ps' (fst t) = Inr (res, fst t')" "snd t' = snd t" using shop_exec_item(2)[OF _ _ assms(2)] by blast+
  then show ?thesis using server_reads[OF assms(1)] by (simp add: server_pq_def prod_eq_iff)
qed

interpretation shop_items: sql_items_strict shop_pq "\<lambda>d. server_rows (fst d)" "\<lambda>d. server_up cats sups (fst d)" "\<lambda>d. d"
  "server_storable cats sups"
  for cats sups
proof unfold_locales
  fix t :: "Server \<times> row list" and k
  assume "server_up cats sups (fst t)"
  from srv.sel_id[OF this, of k] obtain a res where a: "exec_sql server_pq sql_item_by_id [PText (to_string k)] (fst t) = Inr (res, a)"
    "a = fst t" "rows res = (case server_rows (fst t) (to_string k) of None \<Rightarrow> [] | Some r \<Rightarrow> [r])" by blast
  show "\<exists>t' res. exec_sql shop_pq sql_item_by_id [PText (to_string k)] t = Inr (res, t') \<and> t' = t \<and>
      rows res = (case server_rows (fst t) (to_string k) of None \<Rightarrow> [] | Some r \<Rightarrow> [r])"
    by (intro exI[of _ t] exI[of _ res] conjI refl a(3)
        shop_exec_item(1)[OF user_statements_other(1,2) a(1)[unfolded a(2)], unfolded prod.collapse])
next
  fix t :: "Server \<times> row list" and y
  assume "server_up cats sups (fst t)"
  from srv.sel_sku[OF this, of y] obtain a res where a: "exec_sql server_pq sql_item_by_sku [PText y] (fst t) = Inr (res, a)"
    "a = fst t" "set (rows res) = {r. \<exists>x. server_rows (fst t) x = Some r \<and> r ''sku'' = Some y}" by blast
  show "\<exists>t' res. exec_sql shop_pq sql_item_by_sku [PText y] t = Inr (res, t') \<and> t' = t \<and>
      set (rows res) = {r. \<exists>x. server_rows (fst t) x = Some r \<and> r ''sku'' = Some y}"
    by (intro exI[of _ t] exI[of _ res] conjI refl a(3)
        shop_exec_item(1)[OF user_statements_other(3,4) a(1)[unfolded a(2)], unfolded prod.collapse])
next
  fix t :: "Server \<times> row list" and i
  assume "server_up cats sups (fst t)" "server_storable cats sups i" "server_rows (fst t) (to_string (item_id i)) = None"
    "sku_unused (server_rows (fst t)) (to_string (item_id i)) (sku i)"
  from srv.ins[OF this] obtain a res r where a: "exec_sql server_pq sql_item_insert
      (item_params i @ [PText (format_iso8601 (created_at i)), PText (format_iso8601 (updated_at i))]) (fst t) = Inr (res, a)"
    "rows res = [r]" "row_holds server_pq i r" "server_up cats sups a"
    "server_rows a = (server_rows (fst t))(to_string (item_id i) \<mapsto> r)" by blast
  then show "\<exists>t' res r. exec_sql shop_pq sql_item_insert
      (item_params i @ [PText (format_iso8601 (created_at i)), PText (format_iso8601 (updated_at i))]) t = Inr (res, t') \<and>
    rows res = [r] \<and> row_holds shop_pq i r \<and> server_up cats sups (fst t') \<and>
    server_rows (fst t') = (server_rows (fst t))(to_string (item_id i) \<mapsto> r)"
    using shop_exec_item(1)[OF user_statements_other(5,6) a(1)]
    by (intro exI[of _ "(a, snd t)"] exI[of _ res] exI[of _ r]) (simp add: shop_rows)
next
  fix t :: "Server \<times> row list" and i and r0 :: row
  assume "server_up cats sups (fst t)" "server_storable cats sups i" "server_rows (fst t) (to_string (item_id i)) = Some r0"
    "sku_unused (server_rows (fst t)) (to_string (item_id i)) (sku i)" "holds_time (r0 ''created_at'')"
  from srv.upd[OF this] obtain a res r where a:
    "exec_sql server_pq sql_item_update (item_params i @ [PText (format_iso8601 (updated_at i))]) (fst t) = Inr (res, a)"
    "rows res = [r]" "row_holds server_pq i r" "r ''created_at'' = r0 ''created_at''" "server_up cats sups a"
    "server_rows a = (server_rows (fst t))(to_string (item_id i) \<mapsto> r)" by blast
  then show "\<exists>t' res r. exec_sql shop_pq sql_item_update (item_params i @ [PText (format_iso8601 (updated_at i))]) t = Inr (res, t') \<and>
    rows res = [r] \<and> row_holds shop_pq i r \<and> r ''created_at'' = r0 ''created_at'' \<and> server_up cats sups (fst t') \<and>
    server_rows (fst t') = (server_rows (fst t))(to_string (item_id i) \<mapsto> r)"
    using shop_exec_item(1)[OF user_statements_other(7,8) a(1)]
    by (intro exI[of _ "(a, snd t)"] exI[of _ res] exI[of _ r]) (simp add: shop_rows)
next
  fix t :: "Server \<times> row list" and k
  assume "server_up cats sups (fst t)"
  from srv.del[OF this, of k] obtain a res where a: "exec_sql server_pq sql_item_delete [PText (to_string k)] (fst t) = Inr (res, a)"
    "affected_rows res = (if server_rows (fst t) (to_string k) = None then 0 else 1)" "server_up cats sups a"
    "server_rows a = (server_rows (fst t))(to_string k := None)" by blast
  then show "\<exists>t' res. exec_sql shop_pq sql_item_delete [PText (to_string k)] t = Inr (res, t') \<and>
    affected_rows res = (if server_rows (fst t) (to_string k) = None then 0 else 1) \<and> server_up cats sups (fst t') \<and>
    server_rows (fst t') = (server_rows (fst t))(to_string k := None)"
    using shop_exec_item(1)[OF user_statements_other(9,10) a(1)]
    by (intro exI[of _ "(a, snd t)"] exI[of _ res]) simp
next
  fix t t' :: "Server \<times> row list" and i res
  assume i: "server_up cats sups (fst t)" "item_ok i" "in_clock (created_at i)" "in_clock (updated_at i)"
    and ex: "exec_sql shop_pq sql_item_insert
      (item_params i @ [PText (format_iso8601 (created_at i)), PText (format_iso8601 (updated_at i))]) t = Inr (res, t')"
  show "server_up cats sups (fst t') \<and> stores shop_pq i (server_rows (fst t)) (server_rows (fst t'))"
    using strict_srv.ins_strict[OF i conjunct1[OF shop_exec_item(2)[OF user_statements_other(5,6) ex]]] by (simp add: shop_rows)
next
  fix t t' :: "Server \<times> row list" and i res
  assume up: "server_up cats sups (fst t)" and ok: "rows_ok shop_pq (server_rows (fst t))"
    and i: "item_ok i" "in_clock (updated_at i)"
    and ex: "exec_sql shop_pq sql_item_update (item_params i @ [PText (format_iso8601 (updated_at i))]) t = Inr (res, t')"
  show "server_up cats sups (fst t') \<and>
      (server_rows (fst t') = server_rows (fst t) \<or> stores shop_pq i (server_rows (fst t)) (server_rows (fst t')))"
    using strict_srv.upd_strict[OF up ok[unfolded shop_rows] i conjunct1[OF shop_exec_item(2)[OF user_statements_other(7,8) ex]]]
    by (simp add: shop_rows)
next
  fix t t' :: "Server \<times> row list" and f q ps res
  assume q: "build_find_all_query f = (q, ps)" and ex: "exec_sql shop_pq q (map PText ps) t = Inr (res, t')"
  show "t' = t" using built_queries_select(1)[of f] ex unfolding q by (rule shop_reads)
next
  fix t t' :: "Server \<times> row list" and f q ps res
  assume q: "build_count_query f = (q, ps)" and ex: "exec_sql shop_pq q (map PText ps) t = Inr (res, t')"
  show "t' = t" using built_queries_select(2)[of f] ex unfolding q by (rule shop_reads)
qed (simp_all add: shop_pq_def)

interpretation shop_users: sql_users shop_pq "\<lambda>d. set (snd d)" "\<lambda>d. server_up cats sups (fst d)" "\<lambda>d. d"
  for cats sups
  by unfold_locales
    (auto simp: shop_pq_def shop_exec_def user_server_exec_def user_statements_differ user_statements_differ[symmetric])

lemma shop_apart:
  assumes "item_write sql" and "exec_sql shop_pq sql ps t = Inr (res, t')"
  shows "snd t' = snd t"
proof -
  have "sql \<noteq> sql_user_by_id \<and> sql \<noteq> sql_user_by_username" using assms(1) by (auto simp: item_write_def user_statements_other)
  then show ?thesis using shop_exec_item(2)[OF _ _ assms(2)] by blast
qed

interpretation one_shop: sql_shop shop_pq "\<lambda>d. server_rows (fst d)" "\<lambda>d. set (snd d)" "\<lambda>d. server_up cats sups (fst d)" "\<lambda>d. d"
  "server_storable cats sups"
  for cats sups
  by unfold_locales (simp add: shop_apart)

definition staffed_shop :: "(Server \<times> row list) Backend" where
  "staffed_shop = \<lparr>bk_pool = bk_pool empty_shop, bk_db = (bk_db empty_shop, [staff_row])\<rparr>"

lemma shop_user_rows: "row_to_user shop_pq = row_to_user user_pq"
proof -
  have "as_text shop_pq = as_text user_pq" "as_bool_or shop_pq = as_bool_or user_pq"
    by (simp_all add: fun_eq_iff as_text_def as_bool_or_def shop_pq_def user_pq_def split: option.split)
  then show ?thesis by (simp add: fun_eq_iff row_to_user_def)
qed

lemma staffed_shop_members: "pg_members shop_pq (\<lambda>d. set (snd d)) staffed_shop = {staff_user}"
  by (auto simp: pg_members_def staffed_shop_def shop_user_rows row_to_staff)

lemma staffed_shop_ready:
  "pg_ready shop_pq (\<lambda>d. server_rows (fst d)) (\<lambda>d. server_up [shop_cat] [shop_sup] (fst d)) staffed_shop"
  "pg_users_ready shop_pq (\<lambda>d. set (snd d)) (\<lambda>d. server_up [shop_cat] [shop_sup] (fst d)) staffed_shop"
proof -
  show 1: "pg_ready shop_pq (\<lambda>d. server_rows (fst d)) (\<lambda>d. server_up [shop_cat] [shop_sup] (fst d)) staffed_shop"
    using empty_shop_ready by (simp add: pg_ready_def staffed_shop_def shop_rows)
  have "user_rows_ok shop_pq {staff_row}"
    using office_is_ready by (simp add: pg_users_ready_def user_rows_ok_def office_def shop_user_rows)
  then show "pg_users_ready shop_pq (\<lambda>d. set (snd d)) (\<lambda>d. server_up [shop_cat] [shop_sup] (fst d)) staffed_shop"
    using 1 by (simp add: pg_users_ready_def pg_ready_def staffed_shop_def)
qed

interpretation counter: shared_service "pg_item_repo shop_pq" "pg_user_repo shop_pq"
  "pg_ready shop_pq (\<lambda>d. server_rows (fst d)) (\<lambda>d. server_up [shop_cat] [shop_sup] (fst d) \<and> set (snd d) = {staff_row})"
  by (rule one_shop.service) (use staffed_shop_ready(2) in \<open>simp add: pg_users_ready_def staffed_shop_def\<close>)

section \<open>Properties\<close>

text \<open>C6: whatever requests reach the endpoints of both controllers, valid or not, in any number and order,
  every call returns; afterwards the pool and the database can still serve, the table of items is well-formed
  (every item under its own identifier, with distinct stock keeping units and valid prices and quantities),
  and the stored users are the same.\<close>

theorem service_traffic:
  assumes "sql_shop pq rows_of rows_in up view storable" and "pg_ready pq rows_of up s" and "pg_users_ready pq rows_in up s"
    and "\<forall>c \<in> set calls. in_clock (service_time c)"
  shows "\<exists>rs s'. service_all lib ctime ub (pg_item_repo pq) (pg_user_repo pq) (AuthServiceImpl sha jwt cfg clk (pg_user_repo pq))
      calls s = Some (rs, s') \<and> length rs = length calls \<and>
    pg_ready pq rows_of up s' \<and> table_ok (pg_table pq rows_of s') \<and>
    pg_users_ready pq rows_in up s' \<and> pg_members pq rows_in s' = pg_members pq rows_in s"
  using sql_shop.calls_kept[OF assms] by (fastforce simp: pg_ready_def pg_table_def items_of_ok)

theorem service_traffic_witness:
  "\<exists>rs s'. service_all std_json shop_ctime 0 (pg_item_repo shop_pq) (pg_user_repo shop_pq)
       (AuthServiceImpl plain_sha plain_jwt office_jwt int (pg_user_repo shop_pq))
       [Login_call (request_of (login_to_json std_json \<lparr>lg_username = ''budi'', lg_password = ''rahasia''\<rparr>)),
        Item_call (Post (request_of (create_to_json std_json shop_body)) 1 2 0), Refresh_call (request_of (JString ''bad'')),
        Item_call (Delete ''no such item''), Logout_call (request_of (JInt 0))] staffed_shop = Some (rs, s') \<and>
     length rs = 5 \<and> table_ok (pg_table shop_pq (\<lambda>d. server_rows (fst d)) s') \<and>
     pg_members shop_pq (\<lambda>d. set (snd d)) s' = pg_members shop_pq (\<lambda>d. set (snd d)) staffed_shop"
  using service_traffic[OF one_shop.sql_shop_axioms staffed_shop_ready,
      of "[Login_call (request_of (login_to_json std_json \<lparr>lg_username = ''budi'', lg_password = ''rahasia''\<rparr>)),
        Item_call (Post (request_of (create_to_json std_json shop_body)) 1 2 0), Refresh_call (request_of (JString ''bad'')),
        Item_call (Delete ''no such item''), Logout_call (request_of (JInt 0))]"
      std_json shop_ctime 0 plain_sha plain_jwt office_jwt int]
  by (auto simp: in_clock_def)

definition with_token :: "string \<Rightarrow> 'j HttpRequest \<Rightarrow> 'j HttpRequest" where
  "with_token tok req = req\<lparr>rq_header := (rq_header req)(''Authorization'' := bearer @ tok)\<rparr>"

lemma token_lets_in:
  assumes "sql_users pq rows_in up view" and "pg_users_ready pq rows_in up s" and "decodes_signed jwt"
    and "u \<in> pg_members pq rows_in s"
  shows "\<exists>s'. pg_members pq rows_in s' = pg_members pq rows_in s \<and>
    AuthMiddleware_invoke lib (AuthServiceImpl sha jwt cfg clk (pg_user_repo pq)) nextCb
        (with_token (generate_jwt jwt cfg t0 t1 u expiry) req) attrs s =
      nextCb (attrs(''user_id'' \<mapsto> to_string (user_id u), ''user_role'' \<mapsto> role_to_string (user_role u))) s'"
  unfolding generate_jwt_def
  using middleware_signed[OF assms, of "\<lparr>jc_issuer = jw_issuer cfg, jc_subject = to_string (user_id u), jc_issued_at = t0,
        jc_expires_at = t1 + expiry * 10 ^ 9, jc_role = role_to_string (user_role u), jc_username = username u\<rparr>"
      "with_token (jwt_sign jwt \<lparr>jc_issuer = jw_issuer cfg, jc_subject = to_string (user_id u), jc_issued_at = t0,
        jc_expires_at = t1 + expiry * 10 ^ 9, jc_role = role_to_string (user_role u), jc_username = username u\<rparr> (jw_access_secret cfg)) req"
      "jw_access_secret cfg" lib sha cfg clk nextCb attrs]
  by (auto simp: with_token_def)

lemma login_gives_tokens:
  assumes users: "sql_users pq rows_in up view" and ready: "pg_users_ready pq rows_in up s"
    and req: "rq_json req = Some j" "login_from_json lib j = Inr l"
    and u: "credentials_ok sha (pg_members pq rows_in s) (lg_username l) (lg_password l) u"
  shows "\<exists>s'. login lib (pg_user_repo pq) (AuthServiceImpl sha jwt cfg clk (pg_user_repo pq)) req s =
    Some (Inr (token_response lib (tokens_for jwt cfg clk u)), s')"
proof -
  note dir = sql_users.contract[OF users]
  have ne: "lg_username l \<noteq> []" "lg_password l \<noteq> []" using u by (simp_all add: credentials_ok_def)
  obtain r s' where r: "auth_execute (pg_user_repo pq) (AuthServiceImpl sha jwt cfg clk (pg_user_repo pq)) (lg_username l)
      (lg_password l) s = Some (r, s')"
    and c: "case r of Inr t \<Rightarrow> credentials_ok sha (pg_members pq rows_in s) (lg_username l) (lg_password l) (token_user t) \<and>
        t = tokens_for jwt cfg clk (token_user t)
     | Inl e \<Rightarrow> (\<forall>u. \<not> credentials_ok sha (pg_members pq rows_in s) (lg_username l) (lg_password l) u) \<and>
        err_code e = refusal (pg_members pq rows_in s) (lg_username l) (lg_password l)"
    using user_directory.login_cases[OF dir ready, of sha jwt cfg clk "lg_username l" "lg_password l"] by (elim exE conjE) (rule that)
  have "r = Inr (tokens_for jwt cfg clk u)"
  proof (cases r)
    case (Inl e)
    then show ?thesis using c u by simp
  next
    case (Inr t)
    then have t: "credentials_ok sha (pg_members pq rows_in s) (lg_username l) (lg_password l) (token_user t)"
      "t = tokens_for jwt cfg clk (token_user t)" using c[unfolded Inr sum.case] by blast+
    have "token_user t = u" by (rule credentials_unique[OF user_directory.members_distinct[OF dir ready] t(1) u])
    then show ?thesis using Inr t(2) by simp
  qed
  then show ?thesis using ne req r by (simp add: login_def)
qed

text \<open>C33: a user who logs in gets tokens that, after whatever other calls have been served, let a request
  through the middleware with the identifier and role of that user. This holds of the refresh token as of the
  access token: both are signed and read alike.\<close>

theorem session_identity:
  assumes "sql_shop pq rows_of rows_in up view storable" and "pg_ready pq rows_of up s" and "pg_users_ready pq rows_in up s"
    and "decodes_signed jwt" and "\<forall>c \<in> set calls. in_clock (service_time c)"
    and "rq_json req = Some j" and "login_from_json lib j = Inr l"
    and "credentials_ok sha (pg_members pq rows_in s) (lg_username l) (lg_password l) u"
  shows "\<exists>t s1 rs s2 s3 s4.
    login lib (pg_user_repo pq) (AuthServiceImpl sha jwt cfg clk (pg_user_repo pq)) req s = Some (Inr (token_response lib t), s1) \<and>
    token_user t = u \<and>
    service_all lib ctime ub (pg_item_repo pq) (pg_user_repo pq) (AuthServiceImpl sha jwt cfg clk (pg_user_repo pq)) calls s1 =
      Some (rs, s2) \<and>
    AuthMiddleware_invoke lib (AuthServiceImpl sha jwt cfg clk (pg_user_repo pq)) nextCb (with_token (access_token t) req') attrs s2 =
      nextCb (attrs(''user_id'' \<mapsto> to_string (user_id u), ''user_role'' \<mapsto> role_to_string (user_role u))) s3 \<and>
    AuthMiddleware_invoke lib (AuthServiceImpl sha jwt cfg clk (pg_user_repo pq)) nextCb (with_token (refresh_token t) req') attrs s2 =
      nextCb (attrs(''user_id'' \<mapsto> to_string (user_id u), ''user_role'' \<mapsto> role_to_string (user_role u))) s4"
proof -
  note users = sql_shop.axioms(2)[OF assms(1)]
  obtain s1 where s1: "login lib (pg_user_repo pq) (AuthServiceImpl sha jwt cfg clk (pg_user_repo pq)) req s =
      Some (Inr (token_response lib (tokens_for jwt cfg clk u)), s1)"
    using login_gives_tokens[OF users assms(3,6,7,8)] by blast
  have kept: "pg_ready pq rows_of up s1" "pg_users_ready pq rows_in up s1" "pg_members pq rows_in s1 = pg_members pq rows_in s"
    using sql_shop.login_kept[OF assms(1,2,3) s1] by simp_all
  obtain rs s2 where s2: "service_all lib ctime ub (pg_item_repo pq) (pg_user_repo pq)
      (AuthServiceImpl sha jwt cfg clk (pg_user_repo pq)) calls s1 = Some (rs, s2)"
    "pg_users_ready pq rows_in up s2" "pg_members pq rows_in s2 = pg_members pq rows_in s1"
    using sql_shop.calls_kept[OF assms(1) kept(1,2) assms(5)] by blast
  have u: "u \<in> pg_members pq rows_in s2" using assms(8) s2(3) kept(3) by (simp add: credentials_ok_def)
  let ?t = "tokens_for jwt cfg clk u"
  have tokens: "token_user ?t = u"
    "access_token ?t = generate_jwt jwt cfg (clk 0) (clk 1) u (sint (jw_access_expiry_minutes cfg * 60))"
    "refresh_token ?t = generate_jwt jwt cfg (clk 2) (clk 3) u (sint (jw_refresh_expiry_days cfg * 86400))"
    by (simp_all add: tokens_for_def)
  show ?thesis
    using s1 s2(1) tokens token_lets_in[OF users s2(2) assms(4) u] by metis
qed

theorem session_identity_witness:
  "\<exists>t s1 rs s2 s3.
    login std_json (pg_user_repo shop_pq) (AuthServiceImpl plain_sha plain_jwt office_jwt int (pg_user_repo shop_pq))
      (request_of (login_to_json std_json \<lparr>lg_username = ''budi'', lg_password = ''rahasia''\<rparr>)) staffed_shop =
      Some (Inr (token_response std_json t), s1) \<and>
    service_all std_json shop_ctime 0 (pg_item_repo shop_pq) (pg_user_repo shop_pq)
      (AuthServiceImpl plain_sha plain_jwt office_jwt int (pg_user_repo shop_pq))
      [Item_call (Post (request_of (create_to_json std_json shop_body)) 1 2 0)] s1 = Some (rs, s2) \<and>
    AuthMiddleware_invoke std_json (AuthServiceImpl plain_sha plain_jwt office_jwt int (pg_user_repo shop_pq)) whoami
      (with_token (refresh_token t) (request_of (JInt 0))) (\<lambda>_. None) s2 = Some (Inr (make_json_response (JString ''operator'')), s3)"
proof -
  let ?l = "\<lparr>lg_username = ''budi'', lg_password = ''rahasia''\<rparr>"
  have l: "login_from_json std_json (login_to_json std_json ?l) = Inr ?l"
    by (simp add: login_from_json_def login_to_json_def std.at_string_object)
  have cred: "credentials_ok plain_sha (pg_members shop_pq (\<lambda>d. set (snd d)) staffed_shop) (lg_username ?l) (lg_password ?l) staff_user"
    unfolding staffed_shop_members by (simp add: credentials_ok_def staff_user_login)
  have clock: "\<forall>c \<in> set [Item_call (Post (request_of (create_to_json std_json shop_body)) 1 2 0)]. in_clock (service_time c)"
    by (simp add: in_clock_def)
  have "rq_json (request_of (login_to_json std_json ?l)) = Some (login_to_json std_json ?l)" by (simp add: request_of_def)
  moreover have "user_role staff_user = kOperator" by (simp add: staff_user_def)
  ultimately show ?thesis
    using session_identity[OF one_shop.sql_shop_axioms staffed_shop_ready plain_jwt_decodes clock _ l cred,
        of "request_of (login_to_json std_json ?l)" office_jwt int shop_ctime 0 whoami "request_of (JInt 0)" "\<lambda>_. None"]
    by (auto simp: whoami_def) blast
qed

end
