(* ===== verification/Logger.thy ===== *)
theory Logger
  imports Config
begin

text \<open>
  \<^verbatim>\<open>src/common/logger.hpp\<close>: what \<^verbatim>\<open>Logger::init\<close> sets up. The constructor of spdlog's rotating file sink opens
  the file and may throw; it is the argument \<open>open_sink\<close>.
\<close>

record LoggerSetup =
  lg_name :: string
  lg_console_pattern :: string
  lg_file :: string
  lg_max_bytes :: uint64
  lg_max_files :: uint64
  lg_file_pattern :: string
  lg_level :: level_enum
  lg_flush_on :: level_enum
  lg_default_level :: level_enum

text \<open>The path, the size in bytes and the number of files of a rotating sink; the text is the one of the exception.\<close>

type_synonym sink_opener = "string \<Rightarrow> uint64 \<Rightarrow> uint64 \<Rightarrow> string + unit"

definition Logger_init :: "sink_opener \<Rightarrow> string \<Rightarrow> string \<Rightarrow> uint64 \<Rightarrow> uint64 \<Rightarrow> string + LoggerSetup" where
  "Logger_init open_sink level file_path max_size_mb max_files =
     (case open_sink file_path (max_size_mb * 1024 * 1024) max_files of
        Inl w \<Rightarrow> Inl w
      | Inr _ \<Rightarrow> Inr
          \<lparr>lg_name = ''inventory'', lg_console_pattern = ''[%Y-%m-%d %H:%M:%S.%e] [%^%l%$] %v'',
           lg_file = file_path, lg_max_bytes = max_size_mb * 1024 * 1024, lg_max_files = max_files,
           lg_file_pattern = ''[%Y-%m-%d %H:%M:%S.%e] [%^%l%$] [%t] %v'',
           lg_level = level_from_string level, lg_flush_on = lv_err,
           lg_default_level = level_from_string level\<rparr>)"

text \<open>Whatever the level is called, the logger and the default level of spdlog agree, and the size of a file
  is the configured number of megabytes as long as it fits.\<close>

lemma Logger_init_setup:
  assumes "Logger_init open_sink level path mb files = Inr lg"
  shows "lg_default_level lg = lg_level lg \<and>
    (unat mb < 2 ^ 44 \<longrightarrow> unat (lg_max_bytes lg) = unat mb * 2 ^ 20)"
proof -
  have "lg_max_bytes lg = mb * 1048576" "lg_default_level lg = lg_level lg"
    using assms by (auto simp: Logger_init_def split: sum.splits)
  then show ?thesis by (simp add: unat_word_ariths unat_of_nat)
qed

end
