(* ===== verification/Migrate.thy ===== *)
theory Migrate
  imports Pqxx "HOL-Library.Char_ord" "HOL-Library.List_Lexorder"
begin

text \<open>
  \<^verbatim>\<open>src/infrastructure/database/migration.cpp\<close>: applying the SQL files of a directory in the order of
  their names, each in one transaction with its entry in the table \<^verbatim>\<open>schema_migrations\<close>. The directory is
  an argument; strings are ordered by \<^verbatim>\<open>std::string::operator<\<close>, byte by byte.
\<close>

section \<open>Files\<close>

text \<open>What the code asks of the directory: whether it exists as a directory, its entries with whether
  they are regular files, and the text of a file, \<open>None\<close> when it cannot be opened. The first two may raise a
  \<^verbatim>\<open>filesystem_error\<close>, on the left, which no function here catches.\<close>

record MigrationDir =
  dir_path :: string
  dir_exists :: "string + bool"
  dir_entries :: "string + (string \<times> bool) list"
  file_text :: "string \<Rightarrow> string option"

text \<open>\<^verbatim>\<open>std::filesystem::path::extension\<close> of a file name.\<close>

definition path_extension :: "string \<Rightarrow> string" where
  "path_extension n =
     (if n = ''..'' \<or> CHR ''.'' \<notin> set (tl n) then [] else CHR ''.'' # rev (takeWhile (\<lambda>c. c \<noteq> CHR ''.'') (rev n)))"

definition migration_files :: "MigrationDir \<Rightarrow> string + string list Result" where
  "migration_files dir =
     (case dir_exists dir of
        Inl w \<Rightarrow> Inl w
      | Inr there \<Rightarrow>
          if \<not> there then Inr (Inl (configuration (''Migration directory does not exist: '' @ dir_path dir)))
          else (case dir_entries dir of
              Inl w \<Rightarrow> Inl w
            | Inr es \<Rightarrow> Inr (Inr (sort (map fst (filter (\<lambda>(n, regular). regular \<and> path_extension n = ''.sql'') es))))))"

section \<open>Statements\<close>

definition line :: "nat \<Rightarrow> string \<Rightarrow> string" where
  "line n x = CHR 0x0A # replicate n CHR '' '' @ x"

definition sql_create_migrations :: string where
  "sql_create_migrations = line 12 ''CREATE TABLE IF NOT EXISTS schema_migrations ('' @
     line 16 ''filename    VARCHAR(255) PRIMARY KEY,'' @
     line 16 ''applied_at  TIMESTAMPTZ NOT NULL DEFAULT NOW()'' @ line 12 '')'' @ line 8 []"

definition sql_applied :: string where
  "sql_applied = ''SELECT filename FROM schema_migrations ORDER BY filename ASC''"

definition sql_is_applied :: string where
  "sql_is_applied = ''SELECT COUNT(*) AS cnt FROM schema_migrations WHERE filename = $1''"

definition sql_insert_migration :: string where
  "sql_insert_migration = ''INSERT INTO schema_migrations (filename) VALUES ($1)''"

definition sql_record_migration :: string where
  "sql_record_migration = ''INSERT INTO schema_migrations (filename) VALUES ($1) ON CONFLICT DO NOTHING''"

text \<open>A transaction of several statements whose results are not looked at.\<close>

fun exec_all :: "('d, 't) pqxx \<Rightarrow> (string \<times> param list) list \<Rightarrow> 't \<Rightarrow> db_exn + 't" where
  "exec_all pq [] t = Inr t"
| "exec_all pq ((sql, ps) # rest) t = sum_bind (exec_sql pq sql ps t) (\<lambda>(res, t'). exec_all pq rest t')"

definition txn_script ::
  "('d, 't) pqxx \<Rightarrow> (string \<times> param list) list \<Rightarrow> conn \<Rightarrow> 'd \<Rightarrow> (db_exn + unit Result) \<times> 'd" where
  "txn_script pq stmts c d =
     (case sum_bind (work pq c d) (exec_all pq stmts) of
        Inl x \<Rightarrow> (Inl x, d)
      | Inr t \<Rightarrow> (case commit pq t d of (d', Inl x) \<Rightarrow> (Inl x, d') | (d', Inr _) \<Rightarrow> (Inr (Inr ()), d')))"

section \<open>Operations\<close>

definition db_failure :: "string \<Rightarrow> string \<Rightarrow> Error" where
  "db_failure prefix w = database (prefix @ '': '' @ w)"

definition ensure_migrations_table :: "('d, 't) pqxx \<Rightarrow> ('d Backend, unit Result) op" where
  "ensure_migrations_table pq =
     with_session pq (db_failure ''Failed to create schema_migrations table'')
       (db_failure ''Unexpected error creating migrations table'') (txn_script pq [(sql_create_migrations, [])])"

definition is_applied :: "('d, 't) pqxx \<Rightarrow> string \<Rightarrow> ('d Backend, bool Result) op" where
  "is_applied pq filename =
     with_session pq (db_failure ''SQL error checking migration'') (db_failure ''Error checking migration'')
       (txn_convert_first pq sql_is_applied [PText filename]
          (\<lambda>res. sum_bind (as_size pq (hd (rows res) ''cnt'')) (\<lambda>n. Inr (0 < n))))"

definition apply_migration :: "('d, 't) pqxx \<Rightarrow> MigrationDir \<Rightarrow> string \<Rightarrow> ('d Backend, unit Result) op" where
  "apply_migration pq dir filename =
     (case file_text dir filename of
        None \<Rightarrow> op_return (Inl (database (''Cannot open migration file: '' @ dir_path dir @ ''/'' @ filename)))
      | Some sql \<Rightarrow>
          if sql = [] then op_return (Inl (database (''Migration file is empty: '' @ filename)))
          else with_session pq (db_failure (''Migration '' @ filename @ '' failed''))
            (db_failure (''Migration '' @ filename @ '' error''))
            (txn_script pq [(sql, []), (sql_insert_migration, [PText filename])]))"

definition record_migration :: "('d, 't) pqxx \<Rightarrow> string \<Rightarrow> ('d Backend, unit Result) op" where
  "record_migration pq filename =
     with_session pq (db_failure ''Failed to record migration'') (db_failure ''Error recording migration'')
       (txn_script pq [(sql_record_migration, [PText filename])])"

fun apply_files :: "('d, 't) pqxx \<Rightarrow> MigrationDir \<Rightarrow> string list \<Rightarrow> ('d Backend, unit Result) op" where
  "apply_files pq dir [] = op_return (Inr ())"
| "apply_files pq dir (filename # rest) =
     op_bind (is_applied pq filename) (\<lambda>applied.
       case applied of
         Inl e \<Rightarrow> op_return (Inl (db_failure ''Failed to check migration status'' (err_message e)))
       | Inr True \<Rightarrow> apply_files pq dir rest
       | Inr False \<Rightarrow>
           op_bind (apply_migration pq dir filename) (\<lambda>result.
             case result of
               Inl e \<Rightarrow> op_return (Inl (db_failure (''Failed to apply migration '' @ filename) (err_message e)))
             | Inr _ \<Rightarrow> apply_files pq dir rest))"

text \<open>The outer sum: the exception that leaves the function.\<close>

definition apply_all :: "('d, 't) pqxx \<Rightarrow> MigrationDir \<Rightarrow> ('d Backend, string + unit Result) op" where
  "apply_all pq dir =
     op_bind (ensure_migrations_table pq) (\<lambda>ensure.
       case ensure of
         Inl e \<Rightarrow> op_return (Inr (Inl (db_failure ''Failed to ensure migrations table'' (err_message e))))
       | Inr _ \<Rightarrow>
           (case migration_files dir of
              Inl w \<Rightarrow> op_return (Inl w)
            | Inr (Inl e) \<Rightarrow> op_return (Inr (Inl e))
            | Inr (Inr files) \<Rightarrow> op_bind (apply_files pq dir files) (\<lambda>r. op_return (Inr r))))"

definition applied_migrations :: "('d, 't) pqxx \<Rightarrow> ('d Backend, string list Result) op" where
  "applied_migrations pq =
     op_bind (ensure_migrations_table pq) (\<lambda>ensure.
       case ensure of
         Inl e \<Rightarrow> op_return (Inl (db_failure ''Failed to ensure migrations table'' (err_message e)))
       | Inr _ \<Rightarrow>
           with_session pq (db_failure ''SQL error querying migrations'') (db_failure ''Error querying migrations'')
             (txn_convert_first pq sql_applied [] (\<lambda>res. sum_list_map (\<lambda>r. as_text pq (r ''filename'')) (rows res))))"

text \<open>\<^verbatim>\<open>std::set_difference\<close> on two ranges taken to be sorted.\<close>

fun set_difference :: "'a::linorder list \<Rightarrow> 'a list \<Rightarrow> 'a list" where
  "set_difference [] ys = []"
| "set_difference (x # xs) [] = x # xs"
| "set_difference (x # xs) (y # ys) =
     (if x < y then x # set_difference xs (y # ys)
      else if \<not> y < x then set_difference xs ys
      else set_difference (x # xs) ys)"

definition pending_migrations :: "('d, 't) pqxx \<Rightarrow> MigrationDir \<Rightarrow> ('d Backend, string + string list Result) op" where
  "pending_migrations pq dir =
     op_bind (applied_migrations pq) (\<lambda>applied.
       op_return (case applied of
           Inl e \<Rightarrow> Inr (Inl e)
         | Inr past \<Rightarrow> map_sum id (map_sum id (\<lambda>files. set_difference files past)) (migration_files dir)))"

section \<open>What applying migrations means\<close>

text \<open>
  The specification works on the set of recorded names and the rest of the database: run every file
  that is not recorded, in order, until one cannot be read, is empty or fails; a file that runs is
  recorded. The flag says whether all went well.
\<close>

fun run_files ::
  "(string \<Rightarrow> string option) \<Rightarrow> (string \<Rightarrow> 'r \<Rightarrow> 'r option) \<Rightarrow> string list \<Rightarrow> string set \<Rightarrow> 'r \<Rightarrow> bool \<times> string set \<times> 'r" where
  "run_files text_of run [] done_names r = (True, done_names, r)"
| "run_files text_of run (f # fs) done_names r =
     (if f \<in> done_names then run_files text_of run fs done_names r
      else case text_of f of
          None \<Rightarrow> (False, done_names, r)
        | Some sql \<Rightarrow>
            (case (if sql = [] then None else run sql r) of
               None \<Rightarrow> (False, done_names, r)
             | Some r' \<Rightarrow> run_files text_of run fs (insert f done_names) r'))"

lemma run_files_names:
  "run_files text_of run fs D r = (ok, D', r') \<Longrightarrow> D \<subseteq> D' \<and> D' \<subseteq> D \<union> set fs \<and> (ok \<longrightarrow> D' = D \<union> set fs)"
  by (induction fs arbitrary: D r) (auto split: if_splits option.splits)

lemma run_files_recorded: "set fs \<subseteq> D \<Longrightarrow> run_files text_of run fs D r = (True, D, r)"
  by (induction fs) auto

text \<open>A run that stops has recorded exactly the files before the one that failed.\<close>

lemma run_files_stops:
  assumes "run_files text_of run fs D r = (False, D', r')"
  shows "\<exists>before f after. fs = before @ f # after \<and> f \<notin> D' \<and> D' = D \<union> set before \<and>
    run_files text_of run before D r = (True, D', r') \<and>
    (case text_of f of None \<Rightarrow> True | Some sql \<Rightarrow> sql = [] \<or> run sql r' = None)"
  using assms
proof (induction fs arbitrary: D r)
  case (Cons f fs)
  show ?case
  proof (cases "f \<in> D")
    case True
    then have "run_files text_of run fs D r = (False, D', r')" using Cons.prems by simp
    from Cons.IH[OF this] obtain before g after where "fs = before @ g # after" "g \<notin> D'" "D' = D \<union> set before"
      "run_files text_of run before D r = (True, D', r')"
      "case text_of g of None \<Rightarrow> True | Some sql \<Rightarrow> sql = [] \<or> run sql r' = None" by blast
    then show ?thesis using True by (intro exI[of _ "f # before"] exI[of _ g] exI[of _ after]) auto
  next
    case False
    show ?thesis
    proof (cases "\<exists>sql r1. text_of f = Some sql \<and> sql \<noteq> [] \<and> run sql r = Some r1")
      case True
      then obtain sql r1 where f: "text_of f = Some sql" "sql \<noteq> []" "run sql r = Some r1" by blast
      then have "run_files text_of run fs (insert f D) r1 = (False, D', r')" using Cons.prems False by simp
      from Cons.IH[OF this] obtain before g after where "fs = before @ g # after" "g \<notin> D'" "D' = insert f D \<union> set before"
        "run_files text_of run before (insert f D) r1 = (True, D', r')"
        "case text_of g of None \<Rightarrow> True | Some sql \<Rightarrow> sql = [] \<or> run sql r' = None" by blast
      then show ?thesis using f False by (intro exI[of _ "f # before"] exI[of _ g] exI[of _ after]) auto
    next
      case fails: False
      then have "D' = D" "r' = r" "case text_of f of None \<Rightarrow> True | Some sql \<Rightarrow> sql = [] \<or> run sql r' = None"
        using Cons.prems False by (auto split: option.splits if_splits)
      then show ?thesis using False by (intro exI[of _ "[]"] exI[of _ f] exI[of _ fs]) auto
    qed
  qed
qed simp

section \<open>The set difference\<close>

lemma set_difference_sorted:
  "sorted xs \<Longrightarrow> sorted ys \<Longrightarrow> distinct xs \<Longrightarrow> set_difference xs ys = filter (\<lambda>x. x \<notin> set ys) xs"
proof (induction xs ys rule: set_difference.induct)
  case (3 x xs y ys)
  consider "x < y" | "x = y" | "y < x" by force
  then show ?case
  proof cases
    case 1
    then have "x \<notin> set (y # ys)" using "3.prems"(2) by (auto simp: not_le[symmetric])
    then show ?thesis using 1 3 by simp
  next
    case 2
    then have "filter (\<lambda>z. z \<notin> set (y # ys)) xs = filter (\<lambda>z. z \<notin> set ys) xs"
      using "3.prems"(3) by (intro filter_cong) auto
    then show ?thesis using 2 3 by simp
  next
    case 3
    then have "\<forall>z \<in> set (x # xs). z \<noteq> y" using "3.prems"(1) by auto
    then have "filter (\<lambda>z. z \<notin> set (y # ys)) (x # xs) = filter (\<lambda>z. z \<notin> set ys) (x # xs)"
      by (intro filter_cong) auto
    moreover have "\<not> x < y" using 3 by (rule less_not_sym)
    ultimately show ?thesis using 3 "3.IH"(3) "3.prems" by simp
  qed
qed simp_all

section \<open>Over PostgreSQL\<close>

text \<open>
  What the migrations rely on: \<open>recorded\<close> is the set of names in \<^verbatim>\<open>schema_migrations\<close>, \<open>None\<close> when there
  is no such table, \<open>contents\<close> everything else; a script accepted by \<open>script\<close> neither ends the transaction nor
  touches that table, and \<open>run\<close> is what it does to the rest; \<open>order\<close> is the order of the column's collation.
\<close>

locale migration_db =
  fixes pq :: "('d, 't) pqxx"
    and view :: "'t \<Rightarrow> 'd"
    and up :: "'d \<Rightarrow> bool"
    and recorded :: "'d \<Rightarrow> string set option"
    and contents :: "'d \<Rightarrow> 'r"
    and script :: "string \<Rightarrow> bool"
    and run :: "string \<Rightarrow> 'r \<Rightarrow> 'r option"
    and order :: "string set \<Rightarrow> string list"
  assumes open_conn: "up d \<Longrightarrow> conn_open pq d c"
    and begin_work: "up d \<Longrightarrow> \<exists>t. work pq c d = Inr t \<and> view t = d"
    and commits: "up (view t) \<Longrightarrow> commit pq t d = (view t, Inr ())"
    and creates: "up (view t) \<Longrightarrow> \<exists>t' res. exec_sql pq sql_create_migrations [] t = Inr (res, t') \<and> up (view t') \<and>
      recorded (view t') = Some (case recorded (view t) of None \<Rightarrow> {} | Some D \<Rightarrow> D) \<and> contents (view t') = contents (view t)"
    and counts: "up (view t) \<Longrightarrow> recorded (view t) = Some D \<Longrightarrow> \<exists>t' res r x. exec_sql pq sql_is_applied [PText f] t = Inr (res, t') \<and>
      view t' = view t \<and> rows res = [r] \<and> r ''cnt'' = Some x \<and> parse_size pq x = Inr (if f \<in> D then 1 else 0)"
    and inserts: "up (view t) \<Longrightarrow> recorded (view t) = Some D \<Longrightarrow> f \<notin> D \<Longrightarrow> length f \<le> 255 \<Longrightarrow>
      \<exists>t' res. exec_sql pq sql_insert_migration [PText f] t = Inr (res, t') \<and> up (view t') \<and>
        recorded (view t') = Some (insert f D) \<and> contents (view t') = contents (view t)"
    and runs: "up (view t) \<Longrightarrow> recorded (view t) = Some D \<Longrightarrow> script sql \<Longrightarrow>
      (case run sql (contents (view t)) of
         None \<Rightarrow> \<exists>w. exec_sql pq sql [] t = Inl (Sql_error w)
       | Some r \<Rightarrow> \<exists>t' res. exec_sql pq sql [] t = Inr (res, t') \<and> up (view t') \<and>
           recorded (view t') = Some D \<and> contents (view t') = r)"
    and selects: "up (view t) \<Longrightarrow> recorded (view t) = Some D \<Longrightarrow> \<exists>t' res. exec_sql pq sql_applied [] t = Inr (res, t') \<and>
      view t' = view t \<and> map (\<lambda>r. r ''filename'') (rows res) = map Some (order D)"
    and order_names: "finite D \<Longrightarrow> set (order D) = D"

definition migration_ready :: "('d \<Rightarrow> bool) \<Rightarrow> 'd Backend \<Rightarrow> bool" where
  "migration_ready up s \<longleftrightarrow> pool_ready (bk_pool s) \<and> up (bk_db s)"

text \<open>The names recorded, none when there is no table yet.\<close>

definition names :: "string set option \<Rightarrow> string set" where
  "names v = (case v of None \<Rightarrow> {} | Some D \<Rightarrow> D)"

lemma names_Some [simp]: "names (Some D) = D"
  by (simp add: names_def)

definition scripts_ok :: "(string \<Rightarrow> bool) \<Rightarrow> MigrationDir \<Rightarrow> string list \<Rightarrow> bool" where
  "scripts_ok script dir fs \<longleftrightarrow>
     (\<forall>f \<in> set fs. length f \<le> 255 \<and> (\<forall>sql. file_text dir f = Some sql \<longrightarrow> sql \<noteq> [] \<longrightarrow> script sql))"

lemma scripts_ok_Cons:
  "scripts_ok script dir (f # fs) \<longleftrightarrow>
     length f \<le> 255 \<and> (\<forall>sql. file_text dir f = Some sql \<longrightarrow> sql \<noteq> [] \<longrightarrow> script sql) \<and> scripts_ok script dir fs"
  by (auto simp: scripts_ok_def)

context migration_db begin

lemma session_step:
  assumes "migration_ready up s" and "\<And>c. \<exists>r d. body c (bk_db s) = (r, d) \<and> up d \<and> Q r d"
  shows "\<exists>r s'. with_session pq f g body s = Some (catch_exn f g r, s') \<and> migration_ready up s' \<and> Q r (bk_db s')"
proof -
  have "\<exists>r s'. with_session pq f g body s = Some (catch_exn f g r, s') \<and> pool_ready (bk_pool s') \<and>
      (up (bk_db s') \<and> Q r (bk_db s'))"
  proof (rule with_session_some)
    fix c
    obtain r d where "body c (bk_db s) = (r, d)" "up d" "Q r d" using assms(2) by blast
    then show "\<exists>r d. body c (bk_db s) = (r, d) \<and> (up d \<and> Q r d) \<and> (\<forall>c. conn_open pq d c)" by (auto intro: open_conn)
  qed (use assms(1) in \<open>auto simp: migration_ready_def open_conn\<close>)
  then show ?thesis by (auto simp: migration_ready_def)
qed

lemma readyD: "migration_ready up s \<Longrightarrow> up (bk_db s)"
  by (simp add: migration_ready_def)

lemma ensure_step:
  assumes "migration_ready up s"
  shows "\<exists>s'. ensure_migrations_table pq s = Some (Inr (), s') \<and> migration_ready up s' \<and>
    recorded (bk_db s') = Some (names (recorded (bk_db s))) \<and> contents (bk_db s') = contents (bk_db s)"
proof -
  let ?d = "bk_db s"
  note up = readyD[OF assms]
  let ?Q = "\<lambda>r d. r = Inr (Inr ()) \<and> recorded d = Some (names (recorded ?d)) \<and> contents d = contents ?d"
  have "\<exists>r d. txn_script pq [(sql_create_migrations, [])] c ?d = (r, d) \<and> up d \<and> ?Q r d" for c
  proof -
    obtain t where t: "work pq c ?d = Inr t" "view t = ?d" using begin_work[OF up] by blast
    obtain t' res where t': "exec_sql pq sql_create_migrations [] t = Inr (res, t')" "up (view t')"
      "recorded (view t') = Some (names (recorded ?d))" "contents (view t') = contents ?d"
      using creates[of t] t(2) up by (auto simp: names_def)
    then show ?thesis using t(1) commits[OF t'(2)] by (simp add: txn_script_def)
  qed
  from session_step[where Q = ?Q and s = s and body = "txn_script pq [(sql_create_migrations, [])]", OF assms this] show ?thesis by (auto simp: ensure_migrations_table_def)
qed

lemma is_applied_step:
  assumes "migration_ready up s" and "recorded (bk_db s) = Some D"
  shows "\<exists>s'. is_applied pq f s = Some (Inr (f \<in> D), s') \<and> migration_ready up s' \<and> bk_db s' = bk_db s"
proof -
  let ?d = "bk_db s"
  note up = readyD[OF assms(1)]
  let ?Q = "\<lambda>r d. r = Inr (Inr (f \<in> D)) \<and> d = ?d"
  have "\<exists>r d. txn_convert_first pq sql_is_applied [PText f]
      (\<lambda>res. sum_bind (as_size pq (hd (rows res) ''cnt'')) (\<lambda>n. Inr (0 < n))) c ?d = (r, d) \<and> up d \<and> ?Q r d" for c
  proof -
    obtain t where t: "work pq c ?d = Inr t" "view t = ?d" using begin_work[OF up] by blast
    obtain t' res r x where t': "exec_sql pq sql_is_applied [PText f] t = Inr (res, t')" "view t' = ?d"
      "rows res = [r]" "r ''cnt'' = Some x" "parse_size pq x = Inr (if f \<in> D then 1 else 0)"
      using counts[of t D f] t(2) up assms(2) by auto
    then show ?thesis using t(1) commits[of t' ?d] up by (simp add: txn_convert_first_def as_size_def)
  qed
  from session_step[where Q = ?Q and s = s and body = "txn_convert_first pq sql_is_applied [PText f]
      (\<lambda>res. sum_bind (as_size pq (hd (rows res) ''cnt'')) (\<lambda>n. Inr (0 < n)))", OF assms(1) this]
  show ?thesis by (auto simp: is_applied_def)
qed

lemma apply_migration_step:
  assumes "migration_ready up s" and "recorded (bk_db s) = Some D" and "f \<notin> D" and "scripts_ok script dir (f # fs)"
  shows "\<exists>res s'. apply_migration pq dir f s = Some (res, s') \<and> migration_ready up s' \<and>
    (case (case file_text dir f of None \<Rightarrow> None | Some sql \<Rightarrow> if sql = [] then None else run sql (contents (bk_db s))) of
       None \<Rightarrow> (\<exists>e. res = Inl e) \<and> bk_db s' = bk_db s
     | Some r \<Rightarrow> res = Inr () \<and> recorded (bk_db s') = Some (insert f D) \<and> contents (bk_db s') = r)"
proof (cases "\<exists>sql. file_text dir f = Some sql \<and> sql \<noteq> []")
  case False
  then show ?thesis using assms(1) by (auto simp: apply_migration_def split: option.splits)
next
  case True
  then obtain sql where sql: "file_text dir f = Some sql" "sql \<noteq> []" by blast
  let ?d = "bk_db s" and ?stmts = "[(sql, []), (sql_insert_migration, [PText f])]"
  note up = readyD[OF assms(1)]
  have ok: "script sql" "length f \<le> 255" using assms(4) sql by (auto simp: scripts_ok_Cons)
  show ?thesis
  proof (cases "run sql (contents ?d)")
    case None
    let ?Q = "\<lambda>r d. (\<exists>w. r = Inl (Sql_error w)) \<and> d = ?d"
    have "\<exists>r d. txn_script pq ?stmts c ?d = (r, d) \<and> up d \<and> ?Q r d" for c
    proof -
      obtain t where t: "work pq c ?d = Inr t" "view t = ?d" using begin_work[OF up] by blast
      obtain w where "exec_sql pq sql [] t = Inl (Sql_error w)" using runs[of t D sql] t(2) up assms(2) ok(1) None by auto
      then show ?thesis using t(1) up by (simp add: txn_script_def)
    qed
    from session_step[where Q = ?Q and s = s and body = "txn_script pq ?stmts"
        and f = "db_failure (''Migration '' @ f @ '' failed'')" and g = "db_failure (''Migration '' @ f @ '' error'')",
        OF assms(1) this]
    show ?thesis using sql None by (auto simp: apply_migration_def)
  next
    case (Some r)
    let ?Q = "\<lambda>x d. x = Inr (Inr ()) \<and> recorded d = Some (insert f D) \<and> contents d = r"
    have "\<exists>x d. txn_script pq ?stmts c ?d = (x, d) \<and> up d \<and> ?Q x d" for c
    proof -
      obtain t where t: "work pq c ?d = Inr t" "view t = ?d" using begin_work[OF up] by blast
      obtain t1 res1 where t1: "exec_sql pq sql [] t = Inr (res1, t1)" "up (view t1)" "recorded (view t1) = Some D" "contents (view t1) = r"
        using runs[of t D sql] t(2) up assms(2) ok(1) Some by auto
      obtain t2 res2 where t2: "exec_sql pq sql_insert_migration [PText f] t1 = Inr (res2, t2)" "up (view t2)"
        "recorded (view t2) = Some (insert f D)" "contents (view t2) = r"
        using inserts[OF t1(2,3) assms(3) ok(2)] t1(4) by auto
      show ?thesis using t(1) t1(1) t2 commits[OF t2(2)] by (simp add: txn_script_def)
    qed
    from session_step[where Q = ?Q and s = s and body = "txn_script pq ?stmts"
        and f = "db_failure (''Migration '' @ f @ '' failed'')" and g = "db_failure (''Migration '' @ f @ '' error'')",
        OF assms(1) this]
    show ?thesis using sql Some by (auto simp: apply_migration_def)
  qed
qed

lemma apply_files_step:
  assumes "migration_ready up s" and "recorded (bk_db s) = Some D" and "scripts_ok script dir fs"
  shows "\<exists>res s'. apply_files pq dir fs s = Some (res, s') \<and> migration_ready up s' \<and>
    (case run_files (file_text dir) run fs D (contents (bk_db s)) of
       (ok, D', r') \<Rightarrow> (ok \<longleftrightarrow> res = Inr ()) \<and> recorded (bk_db s') = Some D' \<and> contents (bk_db s') = r')"
  using assms
proof (induction fs arbitrary: s D)
  case (Cons f fs)
  obtain s1 where s1: "is_applied pq f s = Some (Inr (f \<in> D), s1)" "migration_ready up s1" "bk_db s1 = bk_db s"
    using is_applied_step[OF Cons.prems(1,2)] by blast
  have ok: "scripts_ok script dir fs" using Cons.prems(3) by (simp add: scripts_ok_Cons)
  show ?case
  proof (cases "f \<in> D")
    case True
    then show ?thesis using Cons.IH[OF s1(2) _ ok, of D] s1 Cons.prems(2) by simp
  next
    case False
    let ?r = "case file_text dir f of None \<Rightarrow> None | Some sql \<Rightarrow> if sql = [] then None else run sql (contents (bk_db s))"
    have rec: "recorded (bk_db s1) = Some D" using Cons.prems(2) s1(3) by simp
    obtain res s2 where s2: "apply_migration pq dir f s1 = Some (res, s2)" "migration_ready up s2"
      "case ?r of None \<Rightarrow> (\<exists>e. res = Inl e) \<and> bk_db s2 = bk_db s
       | Some r \<Rightarrow> res = Inr () \<and> recorded (bk_db s2) = Some (insert f D) \<and> contents (bk_db s2) = r"
      using apply_migration_step[OF s1(2) rec False Cons.prems(3)] unfolding s1(3) by (elim exE conjE) (rule that)
    have step: "apply_files pq dir (f # fs) s =
        (case res of Inl e \<Rightarrow> Some (Inl (db_failure (''Failed to apply migration '' @ f) (err_message e)), s2)
         | Inr _ \<Rightarrow> apply_files pq dir fs s2)"
      using s1(1) s2(1) False by (simp split: sum.split)
    show ?thesis
    proof (cases ?r)
      case None
      then have "run_files (file_text dir) run (f # fs) D (contents (bk_db s)) = (False, D, contents (bk_db s))"
        using False by (auto split: option.splits)
      then show ?thesis using step s2(2,3) None s1(3) Cons.prems(2) by auto
    next
      case (Some r)
      then have "run_files (file_text dir) run (f # fs) D (contents (bk_db s)) =
          run_files (file_text dir) run fs (insert f D) r"
        using False by (auto split: option.splits)
      moreover have "res = Inr ()" "recorded (bk_db s2) = Some (insert f D)" "contents (bk_db s2) = r"
        using s2(3) Some by simp_all
      ultimately show ?thesis using step Cons.IH[OF s2(2) _ ok, of "insert f D"] by simp
    qed
  qed
qed simp

lemma apply_all_step:
  assumes "migration_ready up s" and "migration_files dir = Inr (Inr fs)" and "scripts_ok script dir fs"
  shows "\<exists>res s'. apply_all pq dir s = Some (Inr res, s') \<and> migration_ready up s' \<and>
    (case run_files (file_text dir) run fs (names (recorded (bk_db s))) (contents (bk_db s)) of
       (ok, D', r') \<Rightarrow> (ok \<longleftrightarrow> res = Inr ()) \<and> recorded (bk_db s') = Some D' \<and> contents (bk_db s') = r')"
proof -
  obtain s1 where s1: "ensure_migrations_table pq s = Some (Inr (), s1)" "migration_ready up s1"
    "recorded (bk_db s1) = Some (names (recorded (bk_db s)))" "contents (bk_db s1) = contents (bk_db s)"
    using ensure_step[OF assms(1)] by blast
  then have "apply_all pq dir s = op_bind (apply_files pq dir fs) (\<lambda>r. op_return (Inr r)) s1"
    using assms(2) by (simp add: apply_all_def)
  moreover obtain res s' where files: "apply_files pq dir fs s1 = Some (res, s')" "migration_ready up s'"
    "case run_files (file_text dir) run fs (names (recorded (bk_db s))) (contents (bk_db s1)) of
       (ok, D', r') \<Rightarrow> (ok \<longleftrightarrow> res = Inr ()) \<and> recorded (bk_db s') = Some D' \<and> contents (bk_db s') = r'"
    using apply_files_step[OF s1(2,3) assms(3)] by (elim exE conjE) (rule that)
  ultimately show ?thesis unfolding s1(4) by (intro exI[of _ res] exI[of _ s']) simp
qed

lemma applied_step:
  assumes "migration_ready up s"
  shows "\<exists>s'. applied_migrations pq s = Some (Inr (order (names (recorded (bk_db s)))), s') \<and> migration_ready up s' \<and>
    recorded (bk_db s') = Some (names (recorded (bk_db s))) \<and> contents (bk_db s') = contents (bk_db s)"
proof -
  obtain s1 where s1: "ensure_migrations_table pq s = Some (Inr (), s1)" "migration_ready up s1"
    "recorded (bk_db s1) = Some (names (recorded (bk_db s)))" "contents (bk_db s1) = contents (bk_db s)"
    using ensure_step[OF assms] by blast
  let ?d = "bk_db s1" and ?conv = "\<lambda>res. sum_list_map (\<lambda>r. as_text pq (r ''filename'')) (rows res)"
  let ?Q = "\<lambda>r d. r = Inr (Inr (order (names (recorded (bk_db s))))) \<and> d = ?d"
  note up = readyD[OF s1(2)]
  have "\<exists>r d. txn_convert_first pq sql_applied [] ?conv c ?d = (r, d) \<and> up d \<and> ?Q r d" for c
  proof -
    obtain t where t: "work pq c ?d = Inr t" "view t = ?d" using begin_work[OF up] by blast
    obtain t' res where t': "exec_sql pq sql_applied [] t = Inr (res, t')" "view t' = ?d"
      "map (\<lambda>r. r ''filename'') (rows res) = map Some (order (names (recorded (bk_db s))))"
      using selects[of t] t(2) up s1(3) by auto
    have "sum_list_map (\<lambda>r. as_text pq (r ''filename'')) rs = Inr xs"
      if "map (\<lambda>r. r ''filename'') rs = map Some xs" for rs xs
      using that by (induction rs arbitrary: xs) (auto simp: as_text_def Cons_eq_map_conv)
    from this[OF t'(3)] show ?thesis using t(1) t'(1,2) commits[of t' ?d] up by (simp add: txn_convert_first_def)
  qed
  from session_step[where Q = ?Q and s = s1 and body = "txn_convert_first pq sql_applied [] ?conv"
      and f = "db_failure ''SQL error querying migrations''" and g = "db_failure ''Error querying migrations''", OF s1(2) this]
  show ?thesis using s1 by (auto simp: applied_migrations_def)
qed

lemma pending_step:
  assumes "migration_ready up s" and "migration_files dir = Inr (Inr fs)"
  shows "\<exists>s'. pending_migrations pq dir s = Some (Inr (Inr (set_difference fs (order (names (recorded (bk_db s)))))), s') \<and>
    migration_ready up s' \<and> contents (bk_db s') = contents (bk_db s)"
proof -
  obtain s' where "applied_migrations pq s = Some (Inr (order (names (recorded (bk_db s)))), s')" "migration_ready up s'"
    "contents (bk_db s') = contents (bk_db s)" using applied_step[OF assms(1)] by blast
  then show ?thesis using assms(2) by (simp add: pending_migrations_def)
qed

end

section \<open>An executable server\<close>

record MigServer =
  mg_names :: "string list option"
  mg_ran :: "string list"

definition run_script :: "string \<Rightarrow> string list \<Rightarrow> string list option" where
  "run_script sql r = (if take 1 sql = ''!'' then None else Some (r @ [sql]))"

definition own_statement :: "string \<Rightarrow> bool" where
  "own_statement sql \<longleftrightarrow> sql = sql_create_migrations \<or> sql = sql_applied \<or> sql = sql_is_applied \<or> sql = sql_insert_migration"

definition names_exec :: "string \<Rightarrow> param list \<Rightarrow> MigServer \<Rightarrow> string list \<Rightarrow> db_exn + (pg_result \<times> MigServer)" where
  "names_exec sql ps d l =
     (if sql = sql_applied
      then Inr (\<lparr>rows = map (\<lambda>f. [''filename'' \<mapsto> f]) (sorted_list_of_set (set l)), affected_rows = 0\<rparr>, d)
      else case ps of
          [PText f] \<Rightarrow>
            if sql = sql_is_applied
            then Inr (\<lparr>rows = [[''cnt'' \<mapsto> if f \<in> set l then ''1'' else ''0'']], affected_rows = 0\<rparr>, d)
            else if f \<in> set l \<or> 255 < length f then Inl (Sql_error ''constraint violation'')
            else Inr (\<lparr>rows = [], affected_rows = 1\<rparr>, d\<lparr>mg_names := Some (l @ [f])\<rparr>)
        | _ \<Rightarrow> Inl (Sql_error ''bad statement''))"

definition mig_exec :: "string \<Rightarrow> param list \<Rightarrow> MigServer \<Rightarrow> db_exn + (pg_result \<times> MigServer)" where
  "mig_exec sql ps d =
     (if \<not> own_statement sql then
        (case run_script sql (mg_ran d) of
           None \<Rightarrow> Inl (Sql_error ''syntax error'')
         | Some r \<Rightarrow> Inr (\<lparr>rows = [], affected_rows = 0\<rparr>, d\<lparr>mg_ran := r\<rparr>))
      else if sql = sql_create_migrations then
        Inr (\<lparr>rows = [], affected_rows = 0\<rparr>, d\<lparr>mg_names := Some (case mg_names d of None \<Rightarrow> [] | Some l \<Rightarrow> l)\<rparr>)
      else case mg_names d of
          None \<Rightarrow> Inl (Sql_error ''no such table'')
        | Some l \<Rightarrow> names_exec sql ps d l)"

definition mig_pq :: "(MigServer, MigServer) pqxx" where
  "mig_pq = \<lparr>conn_open = (\<lambda>d c. True), conn_attempt = (\<lambda>d n. Not_open), work = (\<lambda>c d. Inr d),
     exec_sql = mig_exec, commit = (\<lambda>t d. (t, Inr ())), parse_int64 = (\<lambda>x. lift_exn (stoll x)),
     parse_size = (\<lambda>x. Inr (if x = ''0'' then 0 else 1)), parse_bool = (\<lambda>x. Inr (x = ''t'')), null_error = Std_exception ''null''\<rparr>"

lemma statement_texts [simp]:
  "sql_applied \<noteq> sql_create_migrations" "sql_is_applied \<noteq> sql_create_migrations" "sql_insert_migration \<noteq> sql_create_migrations"
  "sql_is_applied \<noteq> sql_applied" "sql_insert_migration \<noteq> sql_applied" "sql_insert_migration \<noteq> sql_is_applied"
  by (simp_all add: sql_applied_def sql_create_migrations_def sql_is_applied_def sql_insert_migration_def line_def)

lemma own_statements [simp]:
  "own_statement sql_create_migrations" "own_statement sql_applied" "own_statement sql_is_applied"
  "own_statement sql_insert_migration"
  by (simp_all add: own_statement_def)

interpretation mig: migration_db mig_pq "\<lambda>d. d" "\<lambda>_. True" "\<lambda>d. map_option set (mg_names d)" mg_ran
  "\<lambda>sql. \<not> own_statement sql" run_script sorted_list_of_set
proof unfold_locales
  fix t :: MigServer and D assume D: "map_option set (mg_names t) = Some D"
  then obtain l where l: "mg_names t = Some l" "D = set l" by auto
  show "\<exists>t' res r x. exec_sql mig_pq sql_is_applied [PText f] t = Inr (res, t') \<and> t' = t \<and> rows res = [r] \<and>
      r ''cnt'' = Some x \<and> parse_size mig_pq x = Inr (if f \<in> D then 1 else 0)" for f
    using l by (simp add: mig_pq_def mig_exec_def names_exec_def)
  show "\<exists>t' res. exec_sql mig_pq sql_insert_migration [PText f] t = Inr (res, t') \<and> True \<and>
      map_option set (mg_names t') = Some (insert f D) \<and> mg_ran t' = mg_ran t" if "f \<notin> D" "length f \<le> 255" for f
    using l that by (simp add: mig_pq_def mig_exec_def names_exec_def)
  show "\<exists>t' res. exec_sql mig_pq sql_applied [] t = Inr (res, t') \<and> t' = t \<and>
      map (\<lambda>r. r ''filename'') (rows res) = map Some (sorted_list_of_set D)"
    using l by (simp add: mig_pq_def mig_exec_def names_exec_def)
qed (auto simp: mig_pq_def mig_exec_def split: option.splits)

definition new_server :: "MigServer Backend" where
  "new_server = \<lparr>bk_pool = sample_pool\<lparr>m_pool := [4, 5], m_available := 2\<rparr>, bk_db = \<lparr>mg_names = None, mg_ran = []\<rparr>\<rparr>"

lemma new_server_ready: "migration_ready (\<lambda>_. True) new_server"
  by (simp add: migration_ready_def new_server_def pool_ready_def pool_inv_def sample_pool_def)

lemma new_server_state: "mg_names (bk_db new_server) = None" "mg_ran (bk_db new_server) = []"
  by (simp_all add: new_server_def)

definition sample_dir :: MigrationDir where
  "sample_dir = \<lparr>dir_path = ''migrations'', dir_exists = Inr True,
     dir_entries = Inr [(''002_b.sql'', True), (''notes.txt'', True), (''003_c.sql'', True), (''old.sql'', False), (''001_a.sql'', True)],
     file_text = [''001_a.sql'' \<mapsto> ''CREATE'', ''002_b.sql'' \<mapsto> ''INSERT'', ''003_c.sql'' \<mapsto> ''!'']\<rparr>"

lemma sample_files: "migration_files sample_dir = Inr (Inr [''001_a.sql'', ''002_b.sql'', ''003_c.sql''])"
  by code_simp

section \<open>Properties\<close>

abbreviation "mig_script \<equiv> \<lambda>sql. \<not> own_statement sql"

lemma mig_server: "migration_db mig_pq (\<lambda>d. d) (\<lambda>_. True) (\<lambda>d. map_option set (mg_names d)) mg_ran mig_script run_script sorted_list_of_set"
  by (rule mig.migration_db_axioms)

lemma sample_scripts: "scripts_ok mig_script sample_dir [''001_a.sql'', ''002_b.sql'', ''003_c.sql'']"
  by (simp add: scripts_ok_def sample_dir_def own_statement_def sql_create_migrations_def sql_applied_def
      sql_is_applied_def sql_insert_migration_def line_def)

text \<open>C36: applying the migrations does what the specification says: the unrecorded files run in the order
  of their names, each recorded in the same transaction, up to the first that cannot be read, is empty or
  fails; that one leaves no trace, and success is reported exactly when none failed.\<close>

theorem migrations_refine:
  assumes "migration_db pq view up recorded contents script run order" and "migration_ready up s"
    and "migration_files dir = Inr (Inr fs)" and "scripts_ok script dir fs"
  shows "\<exists>res s'. apply_all pq dir s = Some (Inr res, s') \<and> migration_ready up s' \<and>
    (case run_files (file_text dir) run fs (names (recorded (bk_db s))) (contents (bk_db s)) of
       (ok, D', r') \<Rightarrow> (ok \<longleftrightarrow> res = Inr ()) \<and> recorded (bk_db s') = Some D' \<and> contents (bk_db s') = r')"
  by (rule migration_db.apply_all_step[OF assms])

theorem migrations_refine_witness:
  "\<exists>e s'. apply_all mig_pq sample_dir new_server = Some (Inr (Inl e), s') \<and> mg_ran (bk_db s') = [''CREATE'', ''INSERT'']"
proof -
  have run: "run_files (file_text sample_dir) run_script [''001_a.sql'', ''002_b.sql'', ''003_c.sql''] {} [] =
      (False, {''001_a.sql'', ''002_b.sql''}, [''CREATE'', ''INSERT''])"
    by (simp add: sample_dir_def run_script_def insert_commute)
  obtain res s' where r: "apply_all mig_pq sample_dir new_server = Some (Inr res, s')" "res \<noteq> Inr ()"
    "mg_ran (bk_db s') = [''CREATE'', ''INSERT'']"
    using migrations_refine[OF mig_server new_server_ready sample_files sample_scripts] run
    by (auto simp: new_server_state names_def)
  then obtain e where "res = Inl e" by (cases res) auto
  then show ?thesis using r(1,3) by blast
qed

text \<open>C37: after the migrations have been applied successfully, every file of the directory is recorded and
  applying them again succeeds without running anything.\<close>

theorem second_apply_noop:
  assumes "migration_db pq view up recorded contents script run order" and "migration_ready up s"
    and "migration_files dir = Inr (Inr fs)" and "scripts_ok script dir fs" and "apply_all pq dir s = Some (Inr (Inr ()), s1)"
  shows "\<exists>D s2. recorded (bk_db s1) = Some D \<and> set fs \<subseteq> D \<and> apply_all pq dir s1 = Some (Inr (Inr ()), s2) \<and>
    recorded (bk_db s2) = Some D \<and> contents (bk_db s2) = contents (bk_db s1)"
proof -
  obtain D' r' where run: "run_files (file_text dir) run fs (names (recorded (bk_db s))) (contents (bk_db s)) = (True, D', r')"
    and s1: "migration_ready up s1" "recorded (bk_db s1) = Some D'" "contents (bk_db s1) = r'"
    using migration_db.apply_all_step[OF assms(1-4)] assms(5) by (auto split: prod.splits)
  have "set fs \<subseteq> D'" using run_files_names[OF run] by blast
  then show ?thesis
    using migration_db.apply_all_step[OF assms(1) s1(1) assms(3,4)] s1(2,3)
    by (auto simp: run_files_recorded)
qed

definition good_dir :: MigrationDir where
  "good_dir = sample_dir\<lparr>file_text := (file_text sample_dir)(''003_c.sql'' \<mapsto> ''ALTER'')\<rparr>"

lemma good_files: "migration_files good_dir = Inr (Inr [''001_a.sql'', ''002_b.sql'', ''003_c.sql''])"
  by code_simp

lemma good_scripts: "scripts_ok mig_script good_dir [''001_a.sql'', ''002_b.sql'', ''003_c.sql'']"
  by (simp add: scripts_ok_def good_dir_def sample_dir_def own_statement_def sql_create_migrations_def sql_applied_def
      sql_is_applied_def sql_insert_migration_def line_def)

lemma good_dir_runs: "run_files (file_text good_dir) run_script [''001_a.sql'', ''002_b.sql'', ''003_c.sql''] {} [] =
    (True, {''001_a.sql'', ''002_b.sql'', ''003_c.sql''}, [''CREATE'', ''INSERT'', ''ALTER''])"
  by (simp add: good_dir_def sample_dir_def run_script_def insert_commute)

lemma good_run: "\<exists>s1. apply_all mig_pq good_dir new_server = Some (Inr (Inr ()), s1)"
  using mig.apply_all_step[OF new_server_ready good_files good_scripts] good_dir_runs
  by (auto simp: new_server_state names_def)

theorem second_apply_noop_witness:
  "\<exists>s1 s2. apply_all mig_pq good_dir new_server = Some (Inr (Inr ()), s1) \<and> apply_all mig_pq good_dir s1 = Some (Inr (Inr ()), s2) \<and>
     mg_ran (bk_db s2) = mg_ran (bk_db s1)"
proof -
  obtain s1 where "apply_all mig_pq good_dir new_server = Some (Inr (Inr ()), s1)" using good_run by blast
  then show ?thesis using second_apply_noop[OF mig_server new_server_ready good_files good_scripts, of s1] by blast
qed

text \<open>The pending migrations are exactly the files that are not recorded, provided the collation of the
  database orders the recorded names byte by byte; listing them runs no migration.\<close>

theorem pending_exact:
  assumes "migration_db pq view up recorded contents script run order" and "migration_ready up s"
    and "migration_files dir = Inr (Inr fs)" and "distinct fs"
    and "finite (names (recorded (bk_db s)))" and "sorted (order (names (recorded (bk_db s))))"
  shows "\<exists>s'. pending_migrations pq dir s = Some (Inr (Inr (filter (\<lambda>f. f \<notin> names (recorded (bk_db s))) fs)), s') \<and>
    migration_ready up s' \<and> contents (bk_db s') = contents (bk_db s)"
proof -
  have "sorted fs" using assms(3) by (auto simp: migration_files_def split: if_splits sum.splits)
  then have "set_difference fs (order (names (recorded (bk_db s)))) = filter (\<lambda>f. f \<notin> names (recorded (bk_db s))) fs"
    using assms(4,6) migration_db.order_names[OF assms(1,5)] by (simp add: set_difference_sorted)
  then show ?thesis using migration_db.pending_step[OF assms(1-3)] by simp
qed

theorem pending_exact_witness:
  "\<exists>s'. pending_migrations mig_pq sample_dir (new_server\<lparr>bk_db := \<lparr>mg_names = Some [''002_b.sql''], mg_ran = []\<rparr>\<rparr>) =
     Some (Inr (Inr [''001_a.sql'', ''003_c.sql'']), s')"
  using pending_exact[OF mig_server _ sample_files, of "new_server\<lparr>bk_db := \<lparr>mg_names = Some [''002_b.sql''], mg_ran = []\<rparr>\<rparr>"]
    new_server_ready by (auto simp: migration_ready_def)

text \<open>With a linguistic collation, where the name in capitals comes last, both files are recorded and
  one of them is still listed as pending.\<close>

lemma pending_collation:
  "set_difference [''B.sql'', ''a.sql''] [''a.sql'', ''B.sql''] = [''B.sql'']"
  by code_simp

end
