(* ===== verification/Faults.thy ===== *)
theory Faults
  imports Migrate
begin

text \<open>
  Applying migrations while statements fail: the begin, the commit and every statement may raise, and a commit that
  raises may have happened or not. The laws say what holds when a statement succeeds; the connections themselves
  stay open. Whatever fails, the database holds the effects and the records of some first files, in step.
\<close>

section \<open>Statements that may fail\<close>

locale migration_faults =
  fixes pq :: "('d, 't) pqxx"
    and view :: "'t \<Rightarrow> 'd"
    and up :: "'d \<Rightarrow> bool"
    and recorded :: "'d \<Rightarrow> string set option"
    and contents :: "'d \<Rightarrow> 'r"
    and script :: "string \<Rightarrow> bool"
    and run :: "string \<Rightarrow> 'r \<Rightarrow> 'r option"
  assumes stays_open: "up d \<Longrightarrow> conn_open pq d c"
    and begun: "up d \<Longrightarrow> work pq c d = Inr t \<Longrightarrow> view t = d"
    and ended: "up (view t) \<Longrightarrow> commit pq t d = (d', r) \<Longrightarrow> d' = view t \<or> d' = d \<and> (\<exists>x. r = Inl x)"
    and created: "up (view t) \<Longrightarrow> exec_sql pq sql_create_migrations [] t = Inr (res, t') \<Longrightarrow>
      up (view t') \<and> recorded (view t') = Some (names (recorded (view t))) \<and> contents (view t') = contents (view t)"
    and counted: "up (view t) \<Longrightarrow> recorded (view t) = Some D \<Longrightarrow> exec_sql pq sql_is_applied [PText f] t = Inr (res, t') \<Longrightarrow>
      view t' = view t \<and> (\<exists>r x. rows res = [r] \<and> r ''cnt'' = Some x \<and> parse_size pq x = Inr (if f \<in> D then 1 else 0))"
    and inserted: "up (view t) \<Longrightarrow> recorded (view t) = Some D \<Longrightarrow> f \<notin> D \<Longrightarrow> length f \<le> 255 \<Longrightarrow>
      exec_sql pq sql_insert_migration [PText f] t = Inr (res, t') \<Longrightarrow>
      up (view t') \<and> recorded (view t') = Some (insert f D) \<and> contents (view t') = contents (view t)"
    and ran: "up (view t) \<Longrightarrow> recorded (view t) = Some D \<Longrightarrow> script sql \<Longrightarrow> exec_sql pq sql [] t = Inr (res, t') \<Longrightarrow>
      up (view t') \<and> recorded (view t') = Some D \<and> run sql (contents (view t)) = Some (contents (view t'))"
begin

lemma session_try:
  assumes "migration_ready up s" and "\<And>c. \<exists>r d. body c (bk_db s) = (r, d) \<and> up d \<and> Q r d"
  shows "\<exists>r s'. with_session pq f g body s = Some (catch_exn f g r, s') \<and> migration_ready up s' \<and> Q r (bk_db s')"
proof -
  have "\<exists>r s'. with_session pq f g body s = Some (catch_exn f g r, s') \<and> pool_ready (bk_pool s') \<and>
      (up (bk_db s') \<and> Q r (bk_db s'))"
  proof (rule with_session_some)
    fix c
    obtain r d where "body c (bk_db s) = (r, d)" "up d" "Q r d" using assms(2) by blast
    then show "\<exists>r d. body c (bk_db s) = (r, d) \<and> (up d \<and> Q r d) \<and> (\<forall>c. conn_open pq d c)" by (auto intro: stays_open)
  qed (use assms(1) in \<open>auto simp: migration_ready_def stays_open\<close>)
  then show ?thesis by (auto simp: migration_ready_def)
qed

text \<open>A transaction of statements leaves the database alone, raising, or as the statements make it.\<close>

lemma script_outcome:
  assumes "up d" and "\<And>t t'. view t = d \<Longrightarrow> exec_all pq stmts t = Inr t' \<Longrightarrow> up (view t') \<and> P (view t')"
  shows "\<exists>r d'. txn_script pq stmts c d = (r, d') \<and> up d' \<and>
    ((\<exists>x. r = Inl x) \<and> d' = d \<or> P d' \<and> (r = Inr (Inr ()) \<or> (\<exists>x. r = Inl x)))"
proof (cases "sum_bind (work pq c d) (exec_all pq stmts)")
  case (Inl x)
  then show ?thesis using assms(1) by (simp add: txn_script_def)
next
  case (Inr t')
  then obtain t where t: "work pq c d = Inr t" "exec_all pq stmts t = Inr t'" by (auto simp: sum_bind_eq_Inr)
  have up: "up (view t') \<and> P (view t')" using assms(2)[OF begun[OF assms(1) t(1)] t(2)] .
  obtain d' r where e: "commit pq t' d = (d', r)" by force
  then show ?thesis using Inr up assms(1) ended[of t' d d' r] by (cases r) (auto simp: txn_script_def)
qed

lemma ensure_try:
  assumes "migration_ready up s"
  shows "\<exists>r s'. ensure_migrations_table pq s = Some (r, s') \<and> migration_ready up s' \<and>
    contents (bk_db s') = contents (bk_db s) \<and> names (recorded (bk_db s')) = names (recorded (bk_db s)) \<and>
    (r = Inr () \<longrightarrow> recorded (bk_db s') = Some (names (recorded (bk_db s))))"
proof -
  let ?d = "bk_db s" and ?stmts = "[(sql_create_migrations, [])]"
  let ?P = "\<lambda>d'. recorded d' = Some (names (recorded ?d)) \<and> contents d' = contents ?d"
  let ?Q = "\<lambda>r d'. (\<exists>x. r = Inl x) \<and> d' = ?d \<or> ?P d' \<and> (r = Inr (Inr ()) \<or> (\<exists>x. r = Inl x))"
  have up: "up ?d" using assms by (simp add: migration_ready_def)
  have "up (view t') \<and> ?P (view t')" if "view t = ?d" and "exec_all pq ?stmts t = Inr t'" for t t'
    using that up created[of t] by (auto simp: sum_bind_eq_Inr)
  then have "\<exists>r d'. txn_script pq ?stmts c ?d = (r, d') \<and> up d' \<and> ?Q r d'" for c
    using script_outcome[OF up, of ?stmts ?P c] by blast
  from session_try[where Q = ?Q and s = s and body = "txn_script pq ?stmts"
      and f = "db_failure ''Failed to create schema_migrations table''"
      and g = "db_failure ''Unexpected error creating migrations table''", OF assms this]
  obtain r s' where r: "ensure_migrations_table pq s = Some (catch_exn (db_failure ''Failed to create schema_migrations table'')
      (db_failure ''Unexpected error creating migrations table'') r, s')" "migration_ready up s'" "?Q r (bk_db s')"
    unfolding ensure_migrations_table_def by blast
  have "catch_exn f g (Inl x) \<noteq> (Inr () :: unit Result)" for f g x by (cases x) simp_all
  then show ?thesis using r by auto
qed

lemma is_applied_try:
  assumes "migration_ready up s" and "recorded (bk_db s) = Some D"
  shows "\<exists>r s'. is_applied pq f s = Some (r, s') \<and> migration_ready up s' \<and> bk_db s' = bk_db s \<and>
    (\<forall>b. r = Inr b \<longrightarrow> b = (f \<in> D))"
proof -
  let ?d = "bk_db s" and ?conv = "\<lambda>res. sum_bind (as_size pq (hd (rows res) ''cnt'')) (\<lambda>n. Inr (0 < n))"
  let ?body = "txn_convert_first pq sql_is_applied [PText f] ?conv"
  let ?Q = "\<lambda>r d'. d' = ?d \<and> ((\<exists>x. r = Inl x) \<or> r = Inr (Inr (f \<in> D)))"
  have up: "up ?d" using assms(1) by (simp add: migration_ready_def)
  have body: "\<exists>r d'. ?body c ?d = (r, d') \<and> up d' \<and> ?Q r d'" for c
  proof (cases "work pq c ?d")
    case (Inr t)
    have v: "view t = ?d" using begun[OF up Inr] .
    show ?thesis
    proof (cases "exec_sql pq sql_is_applied [PText f] t")
      case ex: (Inr y)
      obtain res t' where y: "y = (res, t')" by force
      have c: "view t' = ?d" "?conv res = Inr (f \<in> D)"
        using counted[of t D f res t'] ex y v up assms(2) by (auto simp: as_size_def)
      obtain d' q where e: "commit pq t' ?d = (d', q)" by force
      then have "d' = ?d" using ended[of t' ?d d' q] c(1) up by auto
      then show ?thesis using Inr ex y c(2) e up by (cases q) (simp_all add: txn_convert_first_def)
    qed (use Inr up in \<open>simp add: txn_convert_first_def\<close>)
  qed (use up in \<open>simp add: txn_convert_first_def\<close>)
  from session_try[where Q = ?Q and s = s and body = ?body and f = "db_failure ''SQL error checking migration''"
      and g = "db_failure ''Error checking migration''", OF assms(1) body]
  obtain r s' where r: "is_applied pq f s = Some (catch_exn (db_failure ''SQL error checking migration'')
      (db_failure ''Error checking migration'') r, s')" "migration_ready up s'" "?Q r (bk_db s')"
    unfolding is_applied_def by blast
  have "catch_exn f g (Inl x) \<noteq> (Inr b :: bool Result)" for f g x b by (cases x) simp_all
  then show ?thesis using r by auto
qed

lemma apply_migration_try:
  assumes "migration_ready up s" and "recorded (bk_db s) = Some D" and "f \<notin> D" and "scripts_ok script dir (f # fs)"
  shows "\<exists>res s'. apply_migration pq dir f s = Some (res, s') \<and> migration_ready up s' \<and>
    (bk_db s' = bk_db s \<and> (\<exists>e. res = Inl e) \<or>
     recorded (bk_db s') = Some (insert f D) \<and>
       run_files (file_text dir) run [f] D (contents (bk_db s)) = (True, insert f D, contents (bk_db s')))"
proof (cases "\<exists>sql. file_text dir f = Some sql \<and> sql \<noteq> []")
  case False
  then show ?thesis using assms(1) by (auto simp: apply_migration_def split: option.splits)
next
  case True
  then obtain sql where sql: "file_text dir f = Some sql" "sql \<noteq> []" by blast
  let ?d = "bk_db s" and ?stmts = "[(sql, []), (sql_insert_migration, [PText f])]"
  let ?P = "\<lambda>d'. recorded d' = Some (insert f D) \<and> run sql (contents ?d) = Some (contents d')"
  let ?Q = "\<lambda>r d'. (\<exists>x. r = Inl x) \<and> d' = ?d \<or> ?P d' \<and> (r = Inr (Inr ()) \<or> (\<exists>x. r = Inl x))"
  have up: "up ?d" using assms(1) by (simp add: migration_ready_def)
  have ok: "script sql" "length f \<le> 255" using assms(4) sql by (auto simp: scripts_ok_Cons)
  have "up (view t') \<and> ?P (view t')" if v: "view t = ?d" and ex: "exec_all pq ?stmts t = Inr t'" for t t'
  proof -
    obtain res1 t1 res2 where 1: "exec_sql pq sql [] t = Inr (res1, t1)" "exec_sql pq sql_insert_migration [PText f] t1 = Inr (res2, t')"
      using ex by (auto simp: sum_bind_eq_Inr)
    have 2: "up (view t1)" "recorded (view t1) = Some D" "run sql (contents ?d) = Some (contents (view t1))"
      using ran[of t D sql res1 t1] 1(1) v up assms(2) ok(1) by auto
    then show ?thesis using inserted[OF 2(1,2) assms(3) ok(2) 1(2)] by simp
  qed
  then have "\<exists>r d'. txn_script pq ?stmts c ?d = (r, d') \<and> up d' \<and> ?Q r d'" for c
    using script_outcome[OF up, of ?stmts ?P c] by blast
  from session_try[where Q = ?Q and s = s and body = "txn_script pq ?stmts"
      and f = "db_failure (''Migration '' @ f @ '' failed'')" and g = "db_failure (''Migration '' @ f @ '' error'')",
      OF assms(1) this]
  obtain r s' where r: "apply_migration pq dir f s = Some (catch_exn (db_failure (''Migration '' @ f @ '' failed''))
      (db_failure (''Migration '' @ f @ '' error'')) r, s')" "migration_ready up s'" "?Q r (bk_db s')"
    using sql by (auto simp: apply_migration_def)
  have "\<exists>e. catch_exn g h (Inl x) = (Inl e :: unit Result)" for g h x by (cases x) simp_all
  then show ?thesis using r sql assms(3) by auto
qed

text \<open>However it ends, some first files have run, and exactly they are recorded.\<close>

lemma apply_files_try:
  assumes "migration_ready up s" and "recorded (bk_db s) = Some D" and "scripts_ok script dir fs"
  shows "\<exists>n res s'. apply_files pq dir fs s = Some (res, s') \<and> migration_ready up s' \<and>
    run_files (file_text dir) run (take n fs) D (contents (bk_db s)) = (True, names (recorded (bk_db s')), contents (bk_db s')) \<and>
    recorded (bk_db s') \<noteq> None \<and> (res = Inr () \<longrightarrow> take n fs = fs)"
  using assms
proof (induction fs arbitrary: s D)
  case Nil
  then show ?case by simp
next
  case (Cons f fs)
  have ok: "scripts_ok script dir fs" using Cons.prems(3) by (simp add: scripts_ok_Cons)
  obtain a s1 where s1: "is_applied pq f s = Some (a, s1)" "migration_ready up s1" "bk_db s1 = bk_db s"
    "\<forall>b. a = Inr b \<longrightarrow> b = (f \<in> D)" using is_applied_try[OF Cons.prems(1,2)] by blast
  have rec: "recorded (bk_db s1) = Some D" using Cons.prems(2) s1(3) by simp
  show ?case
  proof (cases a)
    case (Inl e)
    then show ?thesis using s1 rec by (intro exI[of _ 0]) auto
  next
    case (Inr b)
    then have b: "a = Inr (f \<in> D)" using s1(4) by simp
    show ?thesis
    proof (cases "f \<in> D")
      case True
      obtain n res s' where n: "apply_files pq dir fs s1 = Some (res, s')" "migration_ready up s'"
        "run_files (file_text dir) run (take n fs) D (contents (bk_db s1)) = (True, names (recorded (bk_db s')), contents (bk_db s'))"
        "recorded (bk_db s') \<noteq> None" "res = Inr () \<longrightarrow> take n fs = fs"
        using Cons.IH[OF s1(2) rec ok] by blast
      then show ?thesis using s1(1,3) b True by (intro exI[of _ "Suc n"]) auto
    next
      case False
      obtain res s2 where s2: "apply_migration pq dir f s1 = Some (res, s2)" "migration_ready up s2"
        "bk_db s2 = bk_db s1 \<and> (\<exists>e. res = Inl e) \<or> recorded (bk_db s2) = Some (insert f D) \<and>
           run_files (file_text dir) run [f] D (contents (bk_db s1)) = (True, insert f D, contents (bk_db s2))"
        using apply_migration_try[OF s1(2) rec False Cons.prems(3)] by blast
      have step: "apply_files pq dir (f # fs) s =
          (case res of Inl e \<Rightarrow> Some (Inl (db_failure (''Failed to apply migration '' @ f) (err_message e)), s2)
           | Inr _ \<Rightarrow> apply_files pq dir fs s2)"
        using s1(1) s2(1) b False by (simp split: sum.split)
      show ?thesis
      proof (cases "bk_db s2 = bk_db s1 \<and> (\<exists>e. res = Inl e)")
        case True
        then show ?thesis using step s2(2) rec s1(3) by (intro exI[of _ 0]) auto
      next
        case moved: False
        then have m: "recorded (bk_db s2) = Some (insert f D)"
          "run_files (file_text dir) run [f] D (contents (bk_db s1)) = (True, insert f D, contents (bk_db s2))" using s2(3) by auto
        have ahead: "run_files (file_text dir) run (f # gs) D (contents (bk_db s)) =
            run_files (file_text dir) run gs (insert f D) (contents (bk_db s2))" for gs
          using m(2) False unfolding s1(3) by (auto split: option.splits if_splits)
        show ?thesis
        proof (cases res)
          case (Inl e)
          then show ?thesis using step s2(2) m(1) ahead[of "[]"] by (intro exI[of _ 1]) auto
        next
          case (Inr u)
          obtain n res' s' where n: "apply_files pq dir fs s2 = Some (res', s')" "migration_ready up s'"
            "run_files (file_text dir) run (take n fs) (insert f D) (contents (bk_db s2)) = (True, names (recorded (bk_db s')), contents (bk_db s'))"
            "recorded (bk_db s') \<noteq> None" "res' = Inr () \<longrightarrow> take n fs = fs"
            using Cons.IH[OF s2(2) m(1) ok] by blast
          then show ?thesis using step Inr ahead by (intro exI[of _ "Suc n"]) auto
        qed
      qed
    qed
  qed
qed

text \<open>What the run of \<^verbatim>\<open>apply\<close> can come to: an exception of the file system leaves it only when the directory cannot
  be read, and without an error every file has been applied.\<close>

lemma apply_all_try:
  assumes "migration_ready up s" and "\<And>fs. migration_files dir = Inr (Inr fs) \<Longrightarrow> scripts_ok script dir fs"
  shows "\<exists>r s'. apply_all pq dir s = Some (r, s') \<and> migration_ready up s' \<and>
    (case migration_files dir of
       Inl w \<Rightarrow> r = Inl w \<or> (\<exists>e. r = Inr (Inl e))
     | Inr (Inl e) \<Rightarrow> \<exists>e. r = Inr (Inl e)
     | Inr (Inr fs) \<Rightarrow> (\<exists>e. r = Inr (Inl e)) \<or> r = Inr (Inr ())) \<and>
    (\<exists>n. run_files (file_text dir) run (take n (case migration_files dir of Inr (Inr fs) \<Rightarrow> fs | _ \<Rightarrow> []))
        (names (recorded (bk_db s))) (contents (bk_db s)) = (True, names (recorded (bk_db s')), contents (bk_db s')) \<and>
      (r = Inr (Inr ()) \<longrightarrow> recorded (bk_db s') \<noteq> None \<and> (\<exists>fs. migration_files dir = Inr (Inr fs) \<and> take n fs = fs)))"
proof -
  obtain e s1 where s1: "ensure_migrations_table pq s = Some (e, s1)" "migration_ready up s1"
    "contents (bk_db s1) = contents (bk_db s)" "names (recorded (bk_db s1)) = names (recorded (bk_db s))"
    "e = Inr () \<longrightarrow> recorded (bk_db s1) = Some (names (recorded (bk_db s)))"
    using ensure_try[OF assms(1)] by blast
  show ?thesis
  proof (cases e)
    case (Inl x)
    then show ?thesis using s1 by (auto simp: apply_all_def split: sum.split intro!: exI[of _ 0])
  next
    case (Inr u)
    show ?thesis
    proof (cases "\<exists>fs. migration_files dir = Inr (Inr fs)")
      case False
      then consider w where "migration_files dir = Inl w" | x where "migration_files dir = Inr (Inl x)"
        by (metis sum.exhaust)
      then show ?thesis using s1 Inr by cases (auto simp: apply_all_def intro!: exI[of _ 0])
    next
      case True
      then obtain fs where fs: "migration_files dir = Inr (Inr fs)" by blast
      obtain n res s' where n: "apply_files pq dir fs s1 = Some (res, s')" "migration_ready up s'"
        "run_files (file_text dir) run (take n fs) (names (recorded (bk_db s))) (contents (bk_db s1)) =
           (True, names (recorded (bk_db s')), contents (bk_db s'))"
        "recorded (bk_db s') \<noteq> None" "res = Inr () \<longrightarrow> take n fs = fs"
        using apply_files_try[OF s1(2) _ assms(2)[OF fs], of "names (recorded (bk_db s))"] s1(5) Inr by auto
      have "apply_all pq dir s = Some (Inr res, s')" using s1(1) Inr fs n(1) by (simp add: apply_all_def)
      then show ?thesis using n(2-5) fs s1(3)
        by (intro exI[of _ "Inr res"] exI[of _ s'] conjI exI[of _ n]) (cases res; auto)+
    qed
  qed
qed

end

text \<open>Statements that succeed whenever they can are a special case.\<close>

sublocale migration_db \<subseteq> faults: migration_faults pq view up recorded contents script run
proof unfold_locales
  fix t t' d c res f D sql
  show "up d \<Longrightarrow> work pq c d = Inr t \<Longrightarrow> view t = d" using begin_work[of d c] by auto
  show "up (view t) \<Longrightarrow> exec_sql pq sql_create_migrations [] t = Inr (res, t') \<Longrightarrow>
      up (view t') \<and> recorded (view t') = Some (names (recorded (view t))) \<and> contents (view t') = contents (view t)"
    using creates[of t] by (auto simp: names_def)
  show "up (view t) \<Longrightarrow> recorded (view t) = Some D \<Longrightarrow> exec_sql pq sql_is_applied [PText f] t = Inr (res, t') \<Longrightarrow>
      view t' = view t \<and> (\<exists>r x. rows res = [r] \<and> r ''cnt'' = Some x \<and> parse_size pq x = Inr (if f \<in> D then 1 else 0))"
    using counts[of t D f] by auto
  show "up (view t) \<Longrightarrow> recorded (view t) = Some D \<Longrightarrow> f \<notin> D \<Longrightarrow> length f \<le> 255 \<Longrightarrow>
      exec_sql pq sql_insert_migration [PText f] t = Inr (res, t') \<Longrightarrow>
      up (view t') \<and> recorded (view t') = Some (insert f D) \<and> contents (view t') = contents (view t)"
    using inserts[of t D f] by auto
  show "up (view t) \<Longrightarrow> recorded (view t) = Some D \<Longrightarrow> script sql \<Longrightarrow> exec_sql pq sql [] t = Inr (res, t') \<Longrightarrow>
      up (view t') \<and> recorded (view t') = Some D \<and> run sql (contents (view t)) = Some (contents (view t'))"
    using runs[of t D sql] by (auto split: option.splits)
qed (auto simp: open_conn commits)

section \<open>A server that fails now and then\<close>

definition flaky_pq :: "(string \<Rightarrow> param list \<Rightarrow> bool) \<Rightarrow> (MigServer, MigServer) pqxx" where
  "flaky_pq bad = mig_pq\<lparr>exec_sql := (\<lambda>sql ps t. if bad sql ps then Inl (Std_exception ''canceled'') else mig_exec sql ps t)\<rparr>"

lemma flaky_exec: "exec_sql (flaky_pq bad) sql ps t = Inr y \<Longrightarrow> exec_sql mig_pq sql ps t = Inr y"
  by (simp add: flaky_pq_def mig_pq_def split: if_splits)

lemma flaky_rest: "conn_open (flaky_pq bad) = conn_open mig_pq" "work (flaky_pq bad) = work mig_pq"
  "commit (flaky_pq bad) = commit mig_pq" "parse_size (flaky_pq bad) = parse_size mig_pq"
  by (simp_all add: flaky_pq_def)

interpretation flaky: migration_faults "flaky_pq bad" "\<lambda>d. d" "\<lambda>_. True" "\<lambda>d. map_option set (mg_names d)" mg_ran mig_script run_script
  for bad
proof unfold_locales
  fix t t' :: MigServer and d d' c res f D sql r
  show "conn_open (flaky_pq bad) d c" by (simp add: flaky_rest mig.faults.stays_open)
  show "work (flaky_pq bad) c d = Inr t \<Longrightarrow> t = d" unfolding flaky_rest by (rule mig.faults.begun[OF TrueI])
  show "commit (flaky_pq bad) t d = (d', r) \<Longrightarrow> d' = t \<or> d' = d \<and> (\<exists>x. r = Inl x)"
    unfolding flaky_rest by (rule mig.faults.ended[OF TrueI])
  show "exec_sql (flaky_pq bad) sql_create_migrations [] t = Inr (res, t') \<Longrightarrow> True \<and>
      map_option set (mg_names t') = Some (names (map_option set (mg_names t))) \<and> mg_ran t' = mg_ran t"
    by (rule mig.faults.created[OF TrueI flaky_exec])
  show "map_option set (mg_names t) = Some D \<Longrightarrow> exec_sql (flaky_pq bad) sql_is_applied [PText f] t = Inr (res, t') \<Longrightarrow>
      t' = t \<and> (\<exists>r x. rows res = [r] \<and> r ''cnt'' = Some x \<and> parse_size (flaky_pq bad) x = Inr (if f \<in> D then 1 else 0))"
    unfolding flaky_rest by (rule mig.faults.counted[OF TrueI _ flaky_exec])
  show "map_option set (mg_names t) = Some D \<Longrightarrow> f \<notin> D \<Longrightarrow> length f \<le> 255 \<Longrightarrow>
      exec_sql (flaky_pq bad) sql_insert_migration [PText f] t = Inr (res, t') \<Longrightarrow>
      True \<and> map_option set (mg_names t') = Some (insert f D) \<and> mg_ran t' = mg_ran t"
    by (rule mig.faults.inserted[OF TrueI _ _ _ flaky_exec])
  show "map_option set (mg_names t) = Some D \<Longrightarrow> mig_script sql \<Longrightarrow> exec_sql (flaky_pq bad) sql [] t = Inr (res, t') \<Longrightarrow>
      True \<and> map_option set (mg_names t') = Some D \<and> run_script sql (mg_ran t) = Some (mg_ran t')"
    by (rule mig.faults.ran[OF TrueI _ _ flaky_exec])
qed

lemma flaky_server: "migration_faults (flaky_pq bad) (\<lambda>d. d) (\<lambda>_. True) (\<lambda>d. map_option set (mg_names d)) mg_ran mig_script run_script"
  by (rule flaky.migration_faults_axioms)

section \<open>Property\<close>

text \<open>C38: whichever statements, begins and commits fail while the migrations are applied, the database ends with the
  effects of some first files of the directory, in order and each at most once, and with exactly their names recorded
  beside those it had; without an error these are all files. So a later run goes on where this one has stopped.\<close>

theorem migrations_prefix:
  assumes "migration_faults pq view up recorded contents script run" and "migration_ready up s"
    and "migration_files dir = Inr (Inr fs)" and "scripts_ok script dir fs"
  shows "\<exists>n res s'. apply_all pq dir s = Some (Inr res, s') \<and> migration_ready up s' \<and>
    run_files (file_text dir) run (take n fs) (names (recorded (bk_db s))) (contents (bk_db s)) =
      (True, names (recorded (bk_db s')), contents (bk_db s')) \<and>
    (res = Inr () \<longrightarrow> recorded (bk_db s') \<noteq> None \<and> take n fs = fs)"
proof -
  have ok: "\<And>gs. migration_files dir = Inr (Inr gs) \<Longrightarrow> scripts_ok script dir gs" using assms(3,4) by simp
  obtain r s' n where r: "apply_all pq dir s = Some (r, s')" "migration_ready up s'" "(\<exists>e. r = Inr (Inl e)) \<or> r = Inr (Inr ())"
    "run_files (file_text dir) run (take n fs) (names (recorded (bk_db s))) (contents (bk_db s)) =
       (True, names (recorded (bk_db s')), contents (bk_db s'))"
    "r = Inr (Inr ()) \<longrightarrow> recorded (bk_db s') \<noteq> None \<and> take n fs = fs"
    using migration_faults.apply_all_try[OF assms(1,2) ok] assms(3) by auto
  then obtain res where "r = Inr res" by blast
  then show ?thesis using r by blast
qed

text \<open>A server on which the check of the second file fails.\<close>

definition second_check :: "string \<Rightarrow> param list \<Rightarrow> bool" where
  "second_check sql ps \<longleftrightarrow> sql = sql_is_applied \<and> ps = [PText ''002_b.sql'']"

theorem migrations_prefix_witness:
  "\<exists>n res s'. apply_all (flaky_pq second_check) good_dir new_server = Some (Inr res, s') \<and> migration_ready (\<lambda>_. True) s' \<and>
     run_files (file_text good_dir) run_script (take n [''001_a.sql'', ''002_b.sql'', ''003_c.sql'']) {} [] =
       (True, names (map_option set (mg_names (bk_db s'))), mg_ran (bk_db s')) \<and>
     (res = Inr () \<longrightarrow> mg_names (bk_db s') \<noteq> None \<and> take n [''001_a.sql'', ''002_b.sql'', ''003_c.sql''] = [''001_a.sql'', ''002_b.sql'', ''003_c.sql''])"
  using migrations_prefix[OF flaky_server new_server_ready good_files good_scripts, of second_check]
  by (simp only: new_server_state names_def option.map option.case option.map_disc_iff)

end
