(* ===== verification/App.thy ===== *)
theory App
  imports Catalog Service Logger Faults
begin

text \<open>
  \<^verbatim>\<open>src/main.cpp\<close>: starting the application, serving and ending. The configuration is read, the logger is set up,
  the pool is made, the migrations are applied and the controllers are wired; then drogon runs its loop. The pool
  belongs to a local pointer of \<^verbatim>\<open>initialize_application\<close> and is freed when that function returns, although the
  repositories keep references to it.
\<close>

section \<open>References to the pool\<close>

text \<open>The memory of the process: the pool while it lives, and the database it talks to.\<close>

record 'd Memory =
  mem_pool :: "ConnectionPool option"
  mem_db :: 'd

text \<open>An operation through the reference: with a freed pool it is undefined, which is \<open>None\<close> as waiting for ever is.\<close>

definition via_pool :: "('d Backend, 'a) op \<Rightarrow> ('d Memory, 'a) op" where
  "via_pool f m =
     (case mem_pool m of
        None \<Rightarrow> None
      | Some p \<Rightarrow> map_option (\<lambda>(x, s). (x, \<lparr>mem_pool = Some (bk_pool s), mem_db = bk_db s\<rparr>)) (f \<lparr>bk_pool = p, bk_db = mem_db m\<rparr>))"

definition borrowed_items :: "('d, 't) pqxx \<Rightarrow> 'd Memory ItemRepository" where
  "borrowed_items pq = (let repo = pg_item_repo pq in
     \<lparr>find_by_id = (\<lambda>k. via_pool (find_by_id repo k)), find_by_sku = (\<lambda>x. via_pool (find_by_sku repo x)),
      find_all = (\<lambda>f. via_pool (find_all repo f)), count_items = (\<lambda>f. via_pool (count_items repo f)),
      save = (\<lambda>i. via_pool (save repo i)), update = (\<lambda>i. via_pool (update repo i)),
      remove = (\<lambda>k. via_pool (remove repo k)), find_low_stock = via_pool (find_low_stock repo)\<rparr>)"

definition borrowed_users :: "('d, 't) pqxx \<Rightarrow> 'd Memory UserRepository" where
  "borrowed_users pq = (let repo = pg_user_repo pq in
     \<lparr>u_find_by_id = (\<lambda>k. via_pool (u_find_by_id repo k)), u_find_by_username = (\<lambda>n. via_pool (u_find_by_username repo n)),
      u_find_by_email = (\<lambda>e. via_pool (u_find_by_email repo e)), u_find_all = (\<lambda>p n. via_pool (u_find_all repo p n)),
      u_save = (\<lambda>u. via_pool (u_save repo u)), u_update = (\<lambda>u. via_pool (u_update repo u)),
      u_remove = (\<lambda>k. via_pool (u_remove repo k))\<rparr>)"

section \<open>Starting\<close>

text \<open>What \<^verbatim>\<open>initialize_application\<close> hands to drogon.\<close>

record 's Application =
  ap_items :: "'s ItemRepository"
  ap_users :: "'s UserRepository"
  ap_auth :: "'s AuthService"
  ap_host :: string
  ap_port :: "16 word"
  ap_threads :: uint64
  ap_max_body :: nat
  ap_idle_timeout :: uint64

text \<open>
  What the program is run with: the file system, the environment and the libraries, and three facts of the platform,
  the number an undefined page count has, the default action of a signal and whether drogon answers a request whose
  handler raises, or lets the exception out.
\<close>

record ('d, 't, 'c, 'j) Host =
  h_exists :: "string \<Rightarrow> string + bool"
  h_load_file :: "string \<Rightarrow> yaml_exn + Yaml"
  h_getenv :: "string \<Rightarrow> string option"
  h_open_sink :: sink_opener
  h_pq :: "('d, 't) pqxx"
  h_sha :: sha256
  h_jwt :: "'c jwt_lib"
  h_clk :: "nat \<Rightarrow> time_point"
  h_net :: "nat \<Rightarrow> nat \<Rightarrow> attempt"
  h_dir :: MigrationDir
  h_json :: "'j json_lib"
  h_ctime :: "int \<Rightarrow> string"
  h_ub :: int32
  h_deadly :: "int \<Rightarrow> bool"
  h_caught :: "exn \<Rightarrow> bool"

text \<open>The result is \<open>None\<close> when the function never returns. The sum: an exception of the logger's file sink or of the
  file system leaves the function. However it is left, the local pointer goes and the pool is freed.\<close>

definition initialize_application ::
  "('d, 't, 'c, 'j) Host \<Rightarrow> Config \<Rightarrow> 'd \<Rightarrow> ((string + 'd Memory Application Result) \<times> 'd Memory) option" where
  "initialize_application h cfg d =
     (case Logger_init (h_open_sink h) (lc_level (cf_log cfg)) (lc_file (cf_log cfg)) (lc_max_size_mb (cf_log cfg))
         (lc_max_files (cf_log cfg)) of
        Inl w \<Rightarrow> Some (Inl w, \<lparr>mem_pool = None, mem_db = d\<rparr>)
      | Inr _ \<Rightarrow>
     (case apply_all (h_pq h) (h_dir h) \<lparr>bk_pool = ConnectionPool_of_config (h_net h) (cf_database cfg), bk_db = d\<rparr> of
        None \<Rightarrow> None
      | Some (r, s) \<Rightarrow>
          Some (map_sum id (map_sum id (\<lambda>_.
                \<lparr>ap_items = borrowed_items (h_pq h), ap_users = borrowed_users (h_pq h),
                 ap_auth = AuthServiceImpl (h_sha h) (h_jwt h) (cf_jwt cfg) (h_clk h) (borrowed_users (h_pq h)),
                 ap_host = sv_host (cf_server cfg), ap_port = sv_port (cf_server cfg),
                 ap_threads = sv_workers (cf_server cfg), ap_max_body = 10 * 1024 * 1024,
                 ap_idle_timeout = sv_request_timeout_ms (cf_server cfg)\<rparr>)) r,
            \<lparr>mem_pool = None, mem_db = bk_db s\<rparr>)))"

section \<open>Serving\<close>

text \<open>What the signal handler changes: the flag, the log and whether drogon has been told to quit.\<close>

record Process =
  g_running :: bool
  quit_asked :: bool
  warnings :: "string list"

definition signal_handler :: "int \<Rightarrow> Process \<Rightarrow> Process" where
  "signal_handler sig p = p\<lparr>warnings := warnings p @ [''Received signal '' @ show_int sig @ '', shutting down...''],
     g_running := False, quit_asked := True\<rparr>"

text \<open>The handlers \<^verbatim>\<open>main\<close> registers, for \<^verbatim>\<open>SIGINT\<close> and \<^verbatim>\<open>SIGTERM\<close>.\<close>

definition signals :: "int \<Rightarrow> (int \<Rightarrow> Process \<Rightarrow> Process) option" where
  "signals = [2 \<mapsto> signal_handler, 15 \<mapsto> signal_handler]"

text \<open>What can happen while drogon runs its loop: a signal, a request to a route, or drogon itself failing.\<close>

datatype 'j event = Signal int | Request "'j ServiceCall" | Failure string

text \<open>How the program is afterwards: it waits for ever, is terminated by an exception, ends with a code and lines on the
  error stream, is killed by a signal, has run into undefined behaviour, or is still serving.\<close>

datatype 'd outcome =
    Waits_forever
  | Terminated string 'd
  | Exits int "string list" 'd
  | Killed int 'd
  | Undefined
  | Serving Process "'d Memory"

text \<open>The loop leaves as soon as it has been told to quit, and \<^verbatim>\<open>main\<close> then returns zero.\<close>

fun drogon_run ::
  "('d, 't, 'c, 'j) Host \<Rightarrow> 'd Memory Application \<Rightarrow> 'j event list \<Rightarrow> Process \<Rightarrow> 'd Memory \<Rightarrow> 'd outcome" where
  "drogon_run h app [] p m = Serving p m"
| "drogon_run h app (Signal n # es) p m =
     (case signals n of
        None \<Rightarrow> if h_deadly h n then Killed n (mem_db m) else drogon_run h app es p m
      | Some handler \<Rightarrow>
          if quit_asked (handler n p) then Exits 0 [] (mem_db m) else drogon_run h app es (handler n p) m)"
| "drogon_run h app (Request c # es) p m =
     (case service_handle (h_json h) (h_ctime h) (h_ub h) (ap_items app) (ap_users app) (ap_auth app) c m of
        None \<Rightarrow> if mem_pool m = None then Undefined else Waits_forever
      | Some (Inl x, m') \<Rightarrow> if h_caught h x then drogon_run h app es p m' else Terminated (what x) (mem_db m')
      | Some (Inr _, m') \<Rightarrow> drogon_run h app es p m')"
| "drogon_run h app (Failure w # es) p m = Terminated w (mem_db m)"

definition main_program :: "('d, 't, 'c, 'j) Host \<Rightarrow> 'j event list \<Rightarrow> 'd \<Rightarrow> 'd outcome" where
  "main_program h events d =
     (case config_load (h_exists h) (h_load_file h) (h_getenv h) ''config/config.yaml'' Config_default of
        (Inl e, _) \<Rightarrow> Exits 1 [''Failed to load config: '' @ err_message e] d
      | (Inr _, cfg) \<Rightarrow>
          (case initialize_application h cfg d of
             None \<Rightarrow> Waits_forever
           | Some (Inl w, m) \<Rightarrow> Terminated w (mem_db m)
           | Some (Inr (Inl e), m) \<Rightarrow> Exits 1 [''Initialization failed: '' @ err_message e] (mem_db m)
           | Some (Inr (Inr app), m) \<Rightarrow> drogon_run h app events \<lparr>g_running = True, quit_asked = False, warnings = []\<rparr> m))"

abbreviation log_opens :: "sink_opener \<Rightarrow> Config \<Rightarrow> string + unit" where
  "log_opens open_sink cfg \<equiv> open_sink (lc_file (cf_log cfg)) (lc_max_size_mb (cf_log cfg) * 1024 * 1024) (lc_max_files (cf_log cfg))"

section \<open>The pool at the start\<close>

lemma create_loop_None:
  "fst (create_loop net retries i delay) = None \<longleftrightarrow> (\<forall>j. i \<le> j \<and> j \<le> retries \<longrightarrow> try_open (net j) = None)"
proof (induction net retries i delay rule: create_loop.induct)
  case (1 net retries i delay)
  have split_le: "(\<forall>j. i \<le> j \<and> j \<le> retries \<longrightarrow> P j) \<longleftrightarrow> P i \<and> (\<forall>j. Suc i \<le> j \<and> j \<le> retries \<longrightarrow> P j)"
    if "i \<le> retries" for P using that by (metis Suc_leD le_antisym not_less_eq_eq order_refl)
  show ?case
  proof (cases "i \<le> retries")
    case True
    show ?thesis
    proof (cases "try_open (net i)")
      case None
      then show ?thesis using 1 True by (subst create_loop.simps) (auto simp: split_le case_prod_unfold Let_def)
    next
      case (Some c)
      then show ?thesis using True by (subst create_loop.simps) (auto simp: split_le)
    qed
  qed (subst create_loop.simps, auto)
qed

definition opens_some :: "(nat \<Rightarrow> nat \<Rightarrow> attempt) \<Rightarrow> DatabaseConfig \<Rightarrow> bool" where
  "opens_some net c \<longleftrightarrow>
     (\<exists>i < unat (db_pool_size c). \<exists>j \<le> unat (db_max_retries c). try_open (net i j) \<noteq> None)"

lemma fill_loop_empty:
  "m_pool (fill_loop net i n p) = [] \<longleftrightarrow>
     m_pool p = [] \<and> (\<forall>k < n. \<forall>j \<le> m_max_retries p. try_open (net (i + k) j) = None)"
proof (induction n arbitrary: i p)
  case (Suc n)
  have all_Suc: "(\<forall>k < Suc n. P (i + k)) \<longleftrightarrow> P i \<and> (\<forall>k < n. P (Suc i + k))" for P
    by (auto simp: All_less_Suc2)
  show ?case
    using create_loop_None[of "net i" "m_max_retries p" 0 "m_retry_delay_ms p"] all_Suc[of "\<lambda>i. \<forall>j \<le> m_max_retries p. try_open (net i j) = None"]
    by (auto simp: Suc create_connection_def split: option.split)
qed simp

lemma pool_at_start:
  "pool_ready (ConnectionPool_of_config net c) \<longleftrightarrow> opens_some net c"
  "m_pool (ConnectionPool_of_config net c) = [] \<longleftrightarrow> \<not> opens_some net c"
proof -
  show empty: "m_pool (ConnectionPool_of_config net c) = [] \<longleftrightarrow> \<not> opens_some net c"
    by (auto simp: ConnectionPool_of_config_def ConnectionPool_new_def fill_loop_empty opens_some_def)
  have "pool_inv (ConnectionPool_of_config net c)" by (simp add: ConnectionPool_of_config_def pool_inv_new)
  moreover have "\<not> m_shutdown (ConnectionPool_of_config net c)"
    by (simp add: ConnectionPool_of_config_def ConnectionPool_new_def fill_loop_inv)
  ultimately show "pool_ready (ConnectionPool_of_config net c) \<longleftrightarrow> opens_some net c"
    by (simp add: pool_ready_def empty)
qed

lemma empty_pool_blocks:
  assumes "m_pool (bk_pool s) = []" and "pool_inv (bk_pool s)" and "\<not> m_shutdown (bk_pool s)"
  shows "with_session pq f g body s = None"
  using assms by (simp add: with_session_def acquire_def acquire_locked_simps)

lemma apply_all_blocks:
  assumes "\<not> opens_some net c"
  shows "apply_all pq dir \<lparr>bk_pool = ConnectionPool_of_config net c, bk_db = d\<rparr> = None"
proof -
  have "\<not> m_shutdown (ConnectionPool_of_config net c)"
    by (simp add: ConnectionPool_of_config_def ConnectionPool_new_def fill_loop_inv)
  then have "ensure_migrations_table pq \<lparr>bk_pool = ConnectionPool_of_config net c, bk_db = d\<rparr> = None"
    using assms pool_at_start(2)[of net c] unfolding ensure_migrations_table_def
    by (intro empty_pool_blocks) (simp_all add: ConnectionPool_of_config_def pool_inv_new)
  then show ?thesis by (simp add: apply_all_def)
qed

section \<open>Requests after the pool has gone\<close>

text \<open>The requests that get as far as the database, and those whose handler raises before.\<close>

definition names_item :: "string \<Rightarrow> bool" where
  "names_item y \<longleftrightarrow> (\<exists>k. from_string y = Inr k \<and> k \<noteq> Uuid_default)"

definition token_subject :: "'c jwt_lib \<Rightarrow> string \<Rightarrow> exn + Uuid \<Rightarrow> bool" where
  "token_subject jwt t r \<longleftrightarrow>
     (\<exists>claims. jwt_decode jwt t = Some claims \<and> sum_bind (claim_text jwt (claims ''sub'')) from_string = r)"

fun reaches_database :: "'j json_lib \<Rightarrow> 'c jwt_lib \<Rightarrow> 'j ServiceCall \<Rightarrow> bool" where
  "reaches_database lib jwt (Item_call (GetAll req)) = params_readable (rq_params req)"
| "reaches_database lib jwt (Item_call (Post req r0 r1 now)) =
     (\<exists>j i. rq_json req = Some j \<and> asked_item lib j r0 r1 now i \<and> sellable i)"
| "reaches_database lib jwt (Item_call (GetOne y)) = names_item y"
| "reaches_database lib jwt (Item_call (Put req y now)) =
     (names_item y \<and> (\<exists>j. rq_json req = Some j \<and> change_readable lib j \<and> change_allowed lib j))"
| "reaches_database lib jwt (Item_call (Delete y)) = names_item y"
| "reaches_database lib jwt (Item_call (Patch req y now)) =
     (names_item y \<and> (\<exists>j. rq_json req = Some j \<and> change_readable lib j \<and> change_allowed lib j))"
| "reaches_database lib jwt (Login_call req) =
     (\<exists>j n pw. rq_json req = Some j \<and> text_at lib j ''username'' n \<and> text_at lib j ''password'' pw \<and> n \<noteq> [] \<and> pw \<noteq> [])"
| "reaches_database lib jwt (Refresh_call req) =
     (\<exists>j t k. rq_json req = Some j \<and> text_at lib j ''refresh_token'' t \<and> t \<noteq> [] \<and> token_subject jwt t (Inr k))"
| "reaches_database lib jwt (Logout_call req) = False"

fun raises_before :: "'j json_lib \<Rightarrow> 'c jwt_lib \<Rightarrow> 'j ServiceCall \<Rightarrow> bool" where
  "raises_before lib jwt (Item_call (GetAll req)) = (\<not> params_readable (rq_params req))"
| "raises_before lib jwt (Item_call (Post req r0 r1 now)) = False"
| "raises_before lib jwt (Item_call (GetOne y)) = id_raises y"
| "raises_before lib jwt (Item_call (Put req y now)) = id_raises y"
| "raises_before lib jwt (Item_call (Delete y)) = id_raises y"
| "raises_before lib jwt (Item_call (Patch req y now)) = id_raises y"
| "raises_before lib jwt (Login_call req) = False"
| "raises_before lib jwt (Refresh_call req) =
     (\<exists>j t x. rq_json req = Some j \<and> text_at lib j ''refresh_token'' t \<and> t \<noteq> [] \<and> token_subject jwt t (Inl x))"
| "raises_before lib jwt (Logout_call req) = False"

text \<open>How serving ends, event by event: the first signal to quit, the first request that gets to the database or the first
  failure decides.\<close>

fun served ::
  "'j json_lib \<Rightarrow> 'c jwt_lib \<Rightarrow> (int \<Rightarrow> bool) \<Rightarrow> (exn \<Rightarrow> bool) \<Rightarrow> 'd \<Rightarrow> 'j event list \<Rightarrow> 'd outcome \<Rightarrow> bool" where
  "served lib jwt deadly caught d [] out \<longleftrightarrow> (\<exists>p m. out = Serving p m \<and> g_running p \<and> mem_db m = d)"
| "served lib jwt deadly caught d (Signal n # es) out \<longleftrightarrow>
     (if n = 2 \<or> n = 15 then out = Exits 0 [] d
      else if deadly n then out = Killed n d else served lib jwt deadly caught d es out)"
| "served lib jwt deadly caught d (Request c # es) out \<longleftrightarrow>
     (if reaches_database lib jwt c then out = Undefined
      else if raises_before lib jwt c
      then \<exists>x. if caught x then served lib jwt deadly caught d es out else out = Terminated (what x) d
      else served lib jwt deadly caught d es out)"
| "served lib jwt deadly caught d (Failure w # es) out \<longleftrightarrow> out = Terminated w d"

text \<open>On the freed pool every operation is undefined.\<close>

lemma gone_items [simp]:
  assumes "mem_pool m = None"
  shows "find_by_id (borrowed_items pq) k m = None" "find_by_sku (borrowed_items pq) x m = None"
    "find_all (borrowed_items pq) f m = None"
  using assms by (simp_all add: borrowed_items_def via_pool_def Let_def)

lemma gone_users [simp]:
  assumes "mem_pool m = None"
  shows "u_find_by_id (borrowed_users pq) k m = None" "u_find_by_username (borrowed_users pq) n m = None"
  using assms by (simp_all add: borrowed_users_def via_pool_def Let_def)

definition stops :: "('s, exn + 'a) op \<Rightarrow> 's \<Rightarrow> bool \<Rightarrow> bool \<Rightarrow> bool" where
  "stops f m reach raise \<longleftrightarrow>
     (if reach then f m = None else \<exists>r. f m = Some (r, m) \<and> ((\<exists>x. r = Inl x) \<longleftrightarrow> raise))"

lemma names_item_iff: "names_item y \<longleftrightarrow> (\<exists>k. from_string y = Inr k \<and> is_valid k)"
  by (simp add: names_item_def is_valid_iff)

lemma id_raises_iff: "id_raises y \<longleftrightarrow> (\<exists>e. from_string y = Inl e)"
  using from_string_raises[of y] by (auto split: if_splits)

lemma gone_get:
  assumes "mem_pool m = None"
  shows "stops (getItemById lib ctime (borrowed_items pq) y) m (names_item y) (id_raises y)"
    and "stops (deleteItem lib (borrowed_items pq) y) m (names_item y) (id_raises y)"
  using assms unfolding stops_def names_item_iff id_raises_iff
  by (cases "from_string y"; simp add: getItemById_def deleteItem_def get_execute_def delete_execute_def)+

lemma gone_list:
  assumes "mem_pool m = None"
  shows "stops (getAllItems lib ctime ub (borrowed_items pq) req) m (params_readable (rq_params req)) (\<not> params_readable (rq_params req))"
  using assms filter_of_params_fails[of "rq_params req"]
  by (cases "filter_of_params (rq_params req)") (auto simp: stops_def getAllItems_def list_execute_def)

lemma gone_create:
  assumes "mem_pool m = None"
  shows "stops (createItem lib ctime (borrowed_items pq) r0 r1 now req) m
    (\<exists>j i. rq_json req = Some j \<and> asked_item lib j r0 r1 now i \<and> sellable i) False"
proof (cases "body_of (create_from_json lib) req")
  case None
  then have "\<not> (\<exists>j i. rq_json req = Some j \<and> asked_item lib j r0 r1 now i \<and> sellable i)"
    using asked_item_readable by (fastforce simp: body_of_def split: option.splits sum.splits)
  then show ?thesis using None
    by (auto simp: stops_def createItem_def body_of_def split: option.splits sum.splits)
next
  case (Some c)
  then obtain j where j: "rq_json req = Some j" "create_from_json lib j = Inr c"
    by (auto simp: body_of_def split: option.splits sum.splits)
  have reach: "(\<exists>j i. rq_json req = Some j \<and> asked_item lib j r0 r1 now i \<and> sellable i) \<longleftrightarrow> validate_create c = Inr ()"
    using j(1) by (simp add: asked_item_decoded[OF j(2)] sellable_valid)
  show ?thesis
  proof (cases "validate_create c")
    case (Inl e)
    then show ?thesis unfolding reach using j by (simp add: stops_def createItem_def)
  next
    case (Inr u)
    then have "create_valid (to_create_request c)" using validate_create_iff[of c] by simp
    then show ?thesis unfolding reach using j Inr assms by (simp add: stops_def createItem_def create_execute_valid)
  qed
qed

lemma gone_update:
  assumes "mem_pool m = None"
  shows "stops (updateItem lib ctime (borrowed_items pq) now req y) m
    (names_item y \<and> (\<exists>j. rq_json req = Some j \<and> change_readable lib j \<and> change_allowed lib j)) (id_raises y)"
proof -
  have body: "(\<exists>j. rq_json req = Some j \<and> change_readable lib j \<and> change_allowed lib j) \<longleftrightarrow>
      (\<exists>j u. rq_json req = Some j \<and> update_from_json lib j = Inr u \<and> validate_update u = Inr ())"
    unfolding change_readable_iff using change_decoded(1)[of lib] by blast
  show ?thesis
    unfolding body names_item_iff id_raises_iff stops_def using assms
    by (auto simp: updateItem_def update_execute_def to_update_request_def split: sum.split option.split)
qed

lemma gone_login:
  assumes "mem_pool m = None"
  shows "stops (login lib (borrowed_users pq) svc req) m
    (\<exists>j n pw. rq_json req = Some j \<and> text_at lib j ''username'' n \<and> text_at lib j ''password'' pw \<and> n \<noteq> [] \<and> pw \<noteq> []) False"
proof -
  have "(\<exists>n pw. text_at lib j ''username'' n \<and> text_at lib j ''password'' pw \<and> n \<noteq> [] \<and> pw \<noteq> []) \<longleftrightarrow>
      (\<exists>l. login_from_json lib j = Inr l \<and> lg_username l \<noteq> [] \<and> lg_password l \<noteq> [])" for j
    unfolding members login_from_json_def sum_bind_eq_Inr by force
  then have reach: "(\<exists>j n pw. rq_json req = Some j \<and> text_at lib j ''username'' n \<and> text_at lib j ''password'' pw \<and> n \<noteq> [] \<and> pw \<noteq> []) \<longleftrightarrow>
      (\<exists>j l. rq_json req = Some j \<and> login_from_json lib j = Inr l \<and> lg_username l \<noteq> [] \<and> lg_password l \<noteq> [])" by blast
  show ?thesis
    unfolding reach stops_def using assms by (auto simp: login_def auth_execute_def split: sum.split option.split)
qed

lemma gone_refresh:
  assumes "mem_pool m = None"
  shows "stops (refresh lib (AuthServiceImpl sha jwt cfg clk (borrowed_users pq)) req) m
    (\<exists>j t k. rq_json req = Some j \<and> text_at lib j ''refresh_token'' t \<and> t \<noteq> [] \<and> token_subject jwt t (Inr k))
    (\<exists>j t x. rq_json req = Some j \<and> text_at lib j ''refresh_token'' t \<and> t \<noteq> [] \<and> token_subject jwt t (Inl x))"
  unfolding stops_def members refresh_from_json_def[symmetric] token_subject_def using assms
  by (auto simp: refresh_def AuthServiceImpl_def svc_refresh_tokens_def decode_jwt_def split: sum.split option.split)

lemma gone_call:
  assumes "mem_pool m = None"
  shows "stops (service_handle lib ctime ub (borrowed_items pq) (borrowed_users pq) (AuthServiceImpl sha jwt cfg clk (borrowed_users pq)) c) m
    (reaches_database lib jwt c) (raises_before lib jwt c)"
proof (cases c)
  case (Item_call ic)
  have "patchItem lib ctime (borrowed_items pq) t req y = updateItem lib ctime (borrowed_items pq) t req y" for t req y
    by (simp only: patchItem_def updateItem_def)
  then show ?thesis using Item_call
    by (cases ic) (simp_all only: service_handle.simps handle.simps reaches_database.simps raises_before.simps
        gone_get[OF assms] gone_list[OF assms] gone_create[OF assms] gone_update[OF assms])
qed (simp_all only: service_handle.simps reaches_database.simps raises_before.simps gone_login[OF assms] gone_refresh[OF assms],
    simp add: stops_def)

lemma drogon_served:
  assumes "mem_pool m = None" and "g_running p" and "ap_items app = borrowed_items (h_pq h)" and "ap_users app = borrowed_users (h_pq h)"
    and "ap_auth app = AuthServiceImpl (h_sha h) (h_jwt h) jcfg (h_clk h) (borrowed_users (h_pq h))"
  shows "served (h_json h) (h_jwt h) (h_deadly h) (h_caught h) (mem_db m) es (drogon_run h app es p m)"
proof (induction es)
  case Nil
  then show ?case using assms(2) by simp
next
  case (Cons e es)
  show ?case
  proof (cases e)
    case (Signal n)
    then show ?thesis using Cons by (simp add: signals_def signal_handler_def)
  next
    case (Request c)
    note c = gone_call[OF assms(1), of "h_json h" "h_ctime h" "h_ub h" "h_pq h" "h_sha h" "h_jwt h" jcfg "h_clk h" c, folded assms(3-5)]
    show ?thesis
    proof (cases "reaches_database (h_json h) (h_jwt h) c")
      case True
      then show ?thesis using Request c assms(1) by (simp add: stops_def)
    next
      case False
      then obtain r where r: "service_handle (h_json h) (h_ctime h) (h_ub h) (ap_items app) (ap_users app) (ap_auth app) c m = Some (r, m)"
        "(\<exists>x. r = Inl x) \<longleftrightarrow> raises_before (h_json h) (h_jwt h) c" using c by (auto simp: stops_def)
      show ?thesis
      proof (cases r)
        case (Inl x)
        then have "raises_before (h_json h) (h_jwt h) c" using r(2) by simp
        then show ?thesis using Request False r(1) Inl Cons by (auto intro!: exI[of _ x])
      next
        case (Inr resp)
        then have "\<not> raises_before (h_json h) (h_jwt h) c" using r(2) by simp
        then show ?thesis using Request False r(1) Inr Cons by simp
      qed
    qed
  qed simp
qed

section \<open>The start\<close>

lemma some_application:
  "\<exists>app :: 's Application. ap_items app = items \<and> ap_users app = users \<and> ap_auth app = auth"
  by (rule exI[of _ "\<lparr>ap_items = items, ap_users = users, ap_auth = auth, ap_host = [], ap_port = 0, ap_threads = 0,
      ap_max_body = 0, ap_idle_timeout = 0\<rparr>"]) simp

text \<open>What the initialization comes to when it gets its connections: whatever \<^verbatim>\<open>apply\<close> gives, the pool is gone.\<close>

lemma initialize_runs:
  assumes "log_opens (h_open_sink h) cfg = Inr u"
    and "apply_all (h_pq h) (h_dir h) \<lparr>bk_pool = ConnectionPool_of_config (h_net h) (cf_database cfg), bk_db = d\<rparr> = Some (r, s)"
  shows "\<exists>app. initialize_application h cfg d =
      Some (map_sum id (map_sum id (\<lambda>_. app)) r, \<lparr>mem_pool = None, mem_db = bk_db s\<rparr>) \<and>
    ap_items app = borrowed_items (h_pq h) \<and> ap_users app = borrowed_users (h_pq h) \<and>
    ap_auth app = AuthServiceImpl (h_sha h) (h_jwt h) (cf_jwt cfg) (h_clk h) (borrowed_users (h_pq h))"
proof (cases r)
  case (Inr q)
  then show ?thesis using assms by (cases q) (auto simp: initialize_application_def Logger_init_def some_application)
qed (use assms in \<open>auto simp: initialize_application_def Logger_init_def some_application\<close>)

lemma main_runs:
  assumes "config_load (h_exists h) (h_load_file h) (h_getenv h) ''config/config.yaml'' Config_default = (Inr v, cfg)"
    and "log_opens (h_open_sink h) cfg = Inr u"
    and "apply_all (h_pq h) (h_dir h) \<lparr>bk_pool = ConnectionPool_of_config (h_net h) (cf_database cfg), bk_db = d\<rparr> = Some (r, s)"
  shows "case r of
      Inl w \<Rightarrow> main_program h events d = Terminated w (bk_db s)
    | Inr (Inl e) \<Rightarrow> main_program h events d = Exits 1 [''Initialization failed: '' @ err_message e] (bk_db s)
    | Inr (Inr _) \<Rightarrow> served (h_json h) (h_jwt h) (h_deadly h) (h_caught h) (bk_db s) events (main_program h events d)"
proof -
  obtain app where app: "initialize_application h cfg d = Some (map_sum id (map_sum id (\<lambda>_. app)) r, \<lparr>mem_pool = None, mem_db = bk_db s\<rparr>)"
    "ap_items app = borrowed_items (h_pq h)" "ap_users app = borrowed_users (h_pq h)"
    "ap_auth app = AuthServiceImpl (h_sha h) (h_jwt h) (cf_jwt cfg) (h_clk h) (borrowed_users (h_pq h))"
    using initialize_runs[OF assms(2,3)] by blast
  show ?thesis
    using assms(1) app(1) drogon_served[OF _ _ app(2-4), of "\<lparr>mem_pool = None, mem_db = bk_db s\<rparr>"
        "\<lparr>g_running = True, quit_asked = False, warnings = []\<rparr>" events]
    by (auto simp: main_program_def split: sum.split)
qed

section \<open>Properties\<close>

definition files_in :: "MigrationDir \<Rightarrow> string list" where
  "files_in dir = (case migration_files dir of Inr (Inr fs) \<Rightarrow> fs | _ \<Rightarrow> [])"

text \<open>C39: how the program ends, whatever statements fail. Without a configuration it ends with code 1; an exception of the
  log file terminates it; without a connection it waits for ever. Otherwise the database is left with the effects of some
  first migrations, and the program ends with code 1, or is terminated when reading the directory raises, or serves, then
  with all migrations applied. While it serves, SIGINT and SIGTERM end it with code 0, and the first request that gets as
  far as the database is undefined behaviour, since the pool has been freed.\<close>

theorem main_startup:
  assumes "migration_faults (h_pq h) view up recorded contents script run" and "up d"
    and "\<And>fs. migration_files (h_dir h) = Inr (Inr fs) \<Longrightarrow> scripts_ok script (h_dir h) fs"
  shows "case config_load (h_exists h) (h_load_file h) (h_getenv h) ''config/config.yaml'' Config_default of
      (Inl e, _) \<Rightarrow> main_program h events d = Exits 1 [''Failed to load config: '' @ err_message e] d
    | (Inr _, cfg) \<Rightarrow>
        (case log_opens (h_open_sink h) cfg of
           Inl w \<Rightarrow> main_program h events d = Terminated w d
         | Inr _ \<Rightarrow>
         if \<not> opens_some (h_net h) (cf_database cfg) then main_program h events d = Waits_forever
         else \<exists>n d'.
           run_files (file_text (h_dir h)) run (take n (files_in (h_dir h))) (names (recorded d)) (contents d) =
             (True, names (recorded d'), contents d') \<and>
           ((\<exists>e :: Error. main_program h events d = Exits 1 [''Initialization failed: '' @ err_message e] d') \<or>
            (\<exists>w. migration_files (h_dir h) = Inl w \<and> main_program h events d = Terminated w d') \<or>
            (\<exists>fs. migration_files (h_dir h) = Inr (Inr fs) \<and> take n fs = fs \<and>
               served (h_json h) (h_jwt h) (h_deadly h) (h_caught h) d' events (main_program h events d))))"
proof (cases "config_load (h_exists h) (h_load_file h) (h_getenv h) ''config/config.yaml'' Config_default")
  case (Pair r cfg)
  show ?thesis
  proof (cases r)
    case (Inl e)
    then show ?thesis using Pair by (simp add: main_program_def)
  next
    case loaded: (Inr v)
    show ?thesis
    proof (cases "log_opens (h_open_sink h) cfg")
      case (Inl w)
      then show ?thesis using Pair loaded by (simp add: main_program_def initialize_application_def Logger_init_def)
    next
      case log: (Inr u)
      show ?thesis
      proof (cases "opens_some (h_net h) (cf_database cfg)")
        case False
        then show ?thesis using Pair loaded log
          by (simp add: main_program_def initialize_application_def Logger_init_def apply_all_blocks)
      next
        case True
        let ?s = "\<lparr>bk_pool = ConnectionPool_of_config (h_net h) (cf_database cfg), bk_db = d\<rparr>"
        have ready: "migration_ready up ?s" using assms(2) True by (simp add: migration_ready_def pool_at_start)
        obtain x s' n where x: "apply_all (h_pq h) (h_dir h) ?s = Some (x, s')"
          "case migration_files (h_dir h) of
             Inl w \<Rightarrow> x = Inl w \<or> (\<exists>e. x = Inr (Inl e))
           | Inr (Inl e) \<Rightarrow> \<exists>e. x = Inr (Inl e)
           | Inr (Inr fs) \<Rightarrow> (\<exists>e. x = Inr (Inl e)) \<or> x = Inr (Inr ())"
          "run_files (file_text (h_dir h)) run (take n (files_in (h_dir h))) (names (recorded d)) (contents d) =
             (True, names (recorded (bk_db s')), contents (bk_db s'))"
          "x = Inr (Inr ()) \<longrightarrow> (\<exists>fs. migration_files (h_dir h) = Inr (Inr fs) \<and> take n fs = fs)"
          using migration_faults.apply_all_try[OF assms(1) ready assms(3)] unfolding files_in_def by auto
        note main = main_runs[where events = events, OF Pair[unfolded loaded] log x(1)]
        have "(\<exists>e :: Error. main_program h events d = Exits 1 [''Initialization failed: '' @ err_message e] (bk_db s')) \<or>
            (\<exists>w. migration_files (h_dir h) = Inl w \<and> main_program h events d = Terminated w (bk_db s')) \<or>
            (\<exists>fs. migration_files (h_dir h) = Inr (Inr fs) \<and> take n fs = fs \<and>
               served (h_json h) (h_jwt h) (h_deadly h) (h_caught h) (bk_db s') events (main_program h events d))"
          using main x(2,4) by (auto split: sum.splits)
        then show ?thesis using Pair loaded log True x(3) by (auto intro!: exI[of _ n] exI[of _ "bk_db s'"])
      qed
    qed
  qed
qed

definition good_yaml :: Yaml where
  "good_yaml = \<lparr>y_section = (\<lambda>_. Inr False), y_text = (\<lambda>_ _. Inr None), y_u16 = (\<lambda>_ _. Inr None), y_size = (\<lambda>_ _. Inr None)\<rparr>"

lemma good_yaml_loads: "config_load (\<lambda>_. Inr True) (\<lambda>_. Inr good_yaml) getenv path cfg = (Inr (), cfg)"
  by (simp add: config_load_def load_sections_def load_server_def load_database_def load_jwt_def load_log_def load_cache_def
      in_section_def on_member_def good_yaml_def)

definition sample_host :: "sink_opener \<Rightarrow> (nat \<Rightarrow> nat \<Rightarrow> attempt) \<Rightarrow> MigrationDir \<Rightarrow> (MigServer, MigServer, string, JsonValue) Host" where
  "sample_host sink net dir =
     \<lparr>h_exists = (\<lambda>_. Inr True), h_load_file = (\<lambda>_. Inr good_yaml), h_getenv = (\<lambda>_. None), h_open_sink = sink,
      h_pq = mig_pq, h_sha = plain_sha, h_jwt = plain_jwt, h_clk = int, h_net = net, h_dir = dir, h_json = std_json,
      h_ctime = shop_ctime, h_ub = 0, h_deadly = (\<lambda>n. n \<noteq> 17), h_caught = (\<lambda>_. True)\<rparr>"

definition any_sink :: sink_opener where
  "any_sink path bytes files = Inr ()"

definition no_sink :: sink_opener where
  "no_sink path bytes files = Inl ''Failed opening file''"

definition refusing :: "nat \<Rightarrow> nat \<Rightarrow> attempt" where
  "refusing i j = Broken_connection ''refused''"

definition accepting :: "nat \<Rightarrow> nat \<Rightarrow> attempt" where
  "accepting i j = Opened i"

lemma refusing_opens: "\<not> opens_some refusing c"
  by (simp add: opens_some_def refusing_def)

lemma accepting_opens: "opens_some accepting (cf_database Config_default)"
  by (auto simp: opens_some_def accepting_def Config_default_def DatabaseConfig_default_def intro!: exI[of _ "0::nat"])

text \<open>No log file, no connection, no directory.\<close>

theorem main_startup_witness:
  "main_program (sample_host no_sink accepting good_dir) [] (bk_db new_server) = Terminated ''Failed opening file'' (bk_db new_server) \<and>
   main_program (sample_host any_sink refusing good_dir) [] (bk_db new_server) = Waits_forever \<and>
   (\<exists>e d'. main_program (sample_host any_sink accepting (good_dir\<lparr>dir_exists := Inr False\<rparr>)) [] (bk_db new_server) =
      Exits 1 [''Initialization failed: '' @ err_message (e :: Error)] d' \<and> mg_ran d' = [])"
proof -
  let ?none = "good_dir\<lparr>dir_exists := Inr False\<rparr>"
  have fs: "migration_files good_dir = Inr (Inr fs) \<Longrightarrow> scripts_ok mig_script good_dir fs" for fs
    using good_files good_scripts by simp
  have nofs: "migration_files ?none = Inr (Inl (configuration (''Migration directory does not exist: '' @ dir_path ?none)))"
    by (simp add: migration_files_def)
  have faults: "migration_faults (h_pq (sample_host sink net dir)) (\<lambda>d. d) (\<lambda>_. True) (\<lambda>d. map_option set (mg_names d)) mg_ran mig_script run_script"
    for sink net dir unfolding sample_host_def by simp (rule mig.faults.migration_faults_axioms)
  show ?thesis
    using main_startup[where h = "sample_host any_sink refusing good_dir" and d = "bk_db new_server" and events = "[]", OF faults TrueI]
      main_startup[where h = "sample_host no_sink accepting good_dir" and d = "bk_db new_server" and events = "[]", OF faults TrueI]
      main_startup[where h = "sample_host any_sink accepting ?none" and d = "bk_db new_server" and events = "[]", OF faults TrueI]
      fs nofs refusing_opens accepting_opens
    by (auto simp: sample_host_def good_yaml_loads any_sink_def no_sink_def files_in_def new_server_state)
qed

text \<open>C40: when no statement fails by itself, the program serves exactly when every migration that was left could be read, was
  not empty and ran, and then all are recorded; otherwise it ends with code 1 and the migrations before the one that failed
  are recorded and have run.\<close>

theorem main_serves:
  assumes "migration_db (h_pq h) view up recorded contents script run order" and "up d"
    and "migration_files (h_dir h) = Inr (Inr fs)" and "scripts_ok script (h_dir h) fs"
    and "config_load (h_exists h) (h_load_file h) (h_getenv h) ''config/config.yaml'' Config_default = (Inr (), cfg)"
    and "log_opens (h_open_sink h) cfg = Inr ()" and "opens_some (h_net h) (cf_database cfg)"
  shows "case run_files (file_text (h_dir h)) run fs (names (recorded d)) (contents d) of (ok, D', r') \<Rightarrow>
    \<exists>d'. recorded d' = Some D' \<and> contents d' = r' \<and>
      (if ok then served (h_json h) (h_jwt h) (h_deadly h) (h_caught h) d' events (main_program h events d)
       else \<exists>e :: Error. main_program h events d = Exits 1 [''Initialization failed: '' @ err_message e] d')"
proof -
  let ?s = "\<lparr>bk_pool = ConnectionPool_of_config (h_net h) (cf_database cfg), bk_db = d\<rparr>"
  have ready: "migration_ready up ?s" using assms(2,7) by (simp add: migration_ready_def pool_at_start)
  obtain ok D' r' where run: "run_files (file_text (h_dir h)) run fs (names (recorded d)) (contents d) = (ok, D', r')"
    by (cases "run_files (file_text (h_dir h)) run fs (names (recorded d)) (contents d)")
  obtain res s' where s': "apply_all (h_pq h) (h_dir h) ?s = Some (Inr res, s')" "ok \<longleftrightarrow> res = Inr ()"
    "recorded (bk_db s') = Some D'" "contents (bk_db s') = r'"
    using migration_db.apply_all_step[OF assms(1) ready assms(3,4)] run by auto
  show ?thesis
    using main_runs[where events = events, OF assms(5,6) s'(1)] s'(2-4) run by (cases res) (auto intro!: exI[of _ "bk_db s'"])
qed

text \<open>A signal ends the program well; a look at an item before it does not.\<close>

theorem main_serves_witness:
  "(\<exists>d'. main_program (sample_host any_sink accepting good_dir) [Signal 17, Signal 15] (bk_db new_server) = Exits 0 [] d' \<and>
      mg_ran d' = [''CREATE'', ''INSERT'', ''ALTER'']) \<and>
   main_program (sample_host any_sink accepting good_dir)
     [Request (Item_call (GetOne (to_string (generate 1 2)))), Signal 15] (bk_db new_server) = Undefined"
proof -
  let ?h = "sample_host any_sink accepting good_dir"
  have h: "h_pq ?h = mig_pq" "h_dir ?h = good_dir"
    "config_load (h_exists ?h) (h_load_file ?h) (h_getenv ?h) ''config/config.yaml'' Config_default = (Inr (), Config_default)"
    "log_opens (h_open_sink ?h) Config_default = Inr ()" "opens_some (h_net ?h) (cf_database Config_default)"
    by (simp_all add: sample_host_def good_yaml_loads any_sink_def accepting_opens)
  have deadly: "\<not> h_deadly ?h 17" by (simp add: sample_host_def)
  have "names_item (to_string (generate 1 2))" using generate_valid by (simp add: names_item_def from_to_string is_valid_iff)
  then have reach: "reaches_database (h_json ?h) (h_jwt ?h) (Item_call (GetOne (to_string (generate 1 2))))" by simp
  have r: "run_files (file_text good_dir) run_script [''001_a.sql'', ''002_b.sql'', ''003_c.sql'']
      (names (map_option set (mg_names (bk_db new_server)))) (mg_ran (bk_db new_server)) =
      (True, {''001_a.sql'', ''002_b.sql'', ''003_c.sql''}, [''CREATE'', ''INSERT'', ''ALTER''])"
    unfolding new_server_state names_def option.map option.case by (rule good_dir_runs)
  note m = main_serves[where h = ?h and d = "bk_db new_server", unfolded h(1,2), OF mig_server TrueI good_files good_scripts
      h(3-5), unfolded r prod.case if_True]
  obtain d1 where "mg_ran d1 = [''CREATE'', ''INSERT'', ''ALTER'']"
    "served (h_json ?h) (h_jwt ?h) (h_deadly ?h) (h_caught ?h) d1 [Signal 17, Signal 15]
       (main_program ?h [Signal 17, Signal 15] (bk_db new_server))" using m[of "[Signal 17, Signal 15]"] by blast
  then have "\<exists>d'. main_program ?h [Signal 17, Signal 15] (bk_db new_server) = Exits 0 [] d' \<and>
      mg_ran d' = [''CREATE'', ''INSERT'', ''ALTER'']" using deadly by simp
  moreover obtain d2 where "served (h_json ?h) (h_jwt ?h) (h_deadly ?h) (h_caught ?h) d2
      [Request (Item_call (GetOne (to_string (generate 1 2)))), Signal 15]
      (main_program ?h [Request (Item_call (GetOne (to_string (generate 1 2)))), Signal 15] (bk_db new_server))"
    using m[of "[Request (Item_call (GetOne (to_string (generate 1 2)))), Signal 15]"] by blast
  then have "main_program ?h [Request (Item_call (GetOne (to_string (generate 1 2)))), Signal 15] (bk_db new_server) = Undefined"
    unfolding served.simps if_P[OF reach] .
  ultimately show ?thesis by blast
qed

end
