(* ===== verification/Workers.thy ===== *)
theory Workers
  imports Traffic
begin

text \<open>
  Requests served at the same time. The application serves with several worker threads
  (\<^verbatim>\<open>setThreadNum\<close> in \<^verbatim>\<open>main.cpp\<close>), and nothing but the database orders what the handlers do: between
  two repository operations of one request any operation of another may come. A repository operation is
  one transaction with one statement, which PostgreSQL carries out at once; the turns of the threads are
  these operations.
\<close>

section \<open>A handler as a thread\<close>

text \<open>
  The handlers are the ones of \<^verbatim>\<open>ItemApi\<close>, over a repository that answers from a script: as long as
  there are replies an operation takes the next one, and the first operation without one is noted as
  pending. So a handler together with the replies it has got tells what it asks for next.
\<close>

datatype repo_call =
    FindById Uuid
  | FindBySku string
  | FindAll ItemFilter
  | CountAll ItemFilter
  | SaveItem Item
  | UpdateItem Item
  | RemoveItem Uuid
  | LowStock

datatype repo_reply =
    Found "Item Result"
  | Looked_up "Item Result"
  | Listed "Item list Result"
  | Counted "int64 Result"
  | Written "Item Result"
  | Removed "unit Result"

record probe =
  script :: "repo_reply list"
  pending :: "repo_call option"

text \<open>What an operation gives when it is only being noted does not matter.\<close>

definition no_reply :: "'a Result" where
  "no_reply = Inl (internal ''pending'')"

fun found :: "repo_reply \<Rightarrow> Item Result" where
  "found (Found r) = r"
| "found _ = no_reply"

fun looked_up :: "repo_reply \<Rightarrow> Item Result" where
  "looked_up (Looked_up r) = r"
| "looked_up _ = no_reply"

fun listed :: "repo_reply \<Rightarrow> Item list Result" where
  "listed (Listed r) = r"
| "listed _ = no_reply"

fun counted :: "repo_reply \<Rightarrow> int64 Result" where
  "counted (Counted r) = r"
| "counted _ = no_reply"

fun written :: "repo_reply \<Rightarrow> Item Result" where
  "written (Written r) = r"
| "written _ = no_reply"

fun removed :: "repo_reply \<Rightarrow> unit Result" where
  "removed (Removed r) = r"
| "removed _ = no_reply"

definition ask :: "repo_call \<Rightarrow> (repo_reply \<Rightarrow> 'a Result) \<Rightarrow> (probe, 'a Result) op" where
  "ask q dec p =
     (case pending p of
        Some _ \<Rightarrow> Some (no_reply, p)
      | None \<Rightarrow>
          (case script p of
             [] \<Rightarrow> Some (no_reply, p\<lparr>pending := Some q\<rparr>)
           | r # rs \<Rightarrow> Some (dec r, p\<lparr>script := rs\<rparr>)))"

definition probe_repo :: "probe ItemRepository" where
  "probe_repo = \<lparr>find_by_id = (\<lambda>k. ask (FindById k) found), find_by_sku = (\<lambda>x. ask (FindBySku x) looked_up),
     find_all = (\<lambda>f. ask (FindAll f) listed), count_items = (\<lambda>f. ask (CountAll f) counted),
     save = (\<lambda>i. ask (SaveItem i) written), update = (\<lambda>i. ask (UpdateItem i) written),
     remove = (\<lambda>k. ask (RemoveItem k) removed), find_low_stock = ask LowStock listed\<rparr>"

lemma probe_repo_simps [simp]:
  "find_by_id probe_repo k = ask (FindById k) found" "find_by_sku probe_repo x = ask (FindBySku x) looked_up"
  "find_all probe_repo f = ask (FindAll f) listed" "count_items probe_repo f = ask (CountAll f) counted"
  "save probe_repo i = ask (SaveItem i) written" "update probe_repo i = ask (UpdateItem i) written"
  "remove probe_repo k = ask (RemoveItem k) removed"
  by (simp_all add: probe_repo_def)

text \<open>The calls on a real repository.\<close>

definition op_map :: "('a \<Rightarrow> 'b) \<Rightarrow> ('s, 'a) op \<Rightarrow> ('s, 'b) op" where
  "op_map g m = op_bind m (\<lambda>x. op_return (g x))"

fun perform :: "'s ItemRepository \<Rightarrow> repo_call \<Rightarrow> ('s, repo_reply) op" where
  "perform repo (FindById k) = op_map Found (find_by_id repo k)"
| "perform repo (FindBySku x) = op_map Looked_up (find_by_sku repo x)"
| "perform repo (FindAll f) = op_map Listed (find_all repo f)"
| "perform repo (CountAll f) = op_map Counted (count_items repo f)"
| "perform repo (SaveItem i) = op_map Written (save repo i)"
| "perform repo (UpdateItem i) = op_map Written (update repo i)"
| "perform repo (RemoveItem k) = op_map Removed (remove repo k)"
| "perform repo LowStock = op_map Listed (find_low_stock repo)"

lemma op_map_Some [simp]: "op_map g m s = Some (y, s') \<longleftrightarrow> (\<exists>x. m s = Some (x, s') \<and> y = g x)"
  by (auto simp: op_map_def op_bind_def split: option.split)

lemma op_map_run: "m s = Some (x, s') \<Longrightarrow> op_map g m s = Some (g x, s')"
  by (simp add: op_map_def op_bind_def op_return_def)

section \<open>Turns\<close>

type_synonym 'x thread = "(probe, 'x) op"

datatype 'x status = Finished 'x | Waits repo_call | Blocked

definition status :: "'x thread \<Rightarrow> repo_reply list \<Rightarrow> 'x status" where
  "status m rs =
     (case m \<lparr>script = rs, pending = None\<rparr> of
        None \<Rightarrow> Blocked
      | Some (x, p) \<Rightarrow> (case pending p of None \<Rightarrow> Finished x | Some q \<Rightarrow> Waits q))"

text \<open>The shared state of the application and the replies each thread has got.\<close>

record 's Workers =
  shared :: 's
  heard :: "repo_reply list list"

definition workers_start :: "'s \<Rightarrow> 'x thread list \<Rightarrow> 's Workers" where
  "workers_start s ms = \<lparr>shared = s, heard = replicate (length ms) []\<rparr>"

text \<open>Thread \<open>t\<close> takes a turn: it performs what it waits for. A finished thread does nothing.\<close>

definition turn :: "'s ItemRepository \<Rightarrow> 'x thread list \<Rightarrow> nat \<Rightarrow> 's Workers \<Rightarrow> 's Workers option" where
  "turn repo ms t w =
     (if t < length ms
      then (case status (ms ! t) (heard w ! t) of
              Waits q \<Rightarrow>
                (case perform repo q (shared w) of
                   None \<Rightarrow> None
                 | Some (r, s') \<Rightarrow> Some (w\<lparr>shared := s', heard := (heard w)[t := heard w ! t @ [r]]\<rparr>))
            | Finished x \<Rightarrow> Some w
            | Blocked \<Rightarrow> None)
      else Some w)"

fun turns :: "'s ItemRepository \<Rightarrow> 'x thread list \<Rightarrow> nat list \<Rightarrow> 's Workers \<Rightarrow> 's Workers option" where
  "turns repo ms [] w = Some w"
| "turns repo ms (t # ts) w = (case turn repo ms t w of None \<Rightarrow> None | Some w' \<Rightarrow> turns repo ms ts w')"

definition thread_status :: "'x thread list \<Rightarrow> 's Workers \<Rightarrow> nat \<Rightarrow> 'x status" where
  "thread_status ms w t = status (ms ! t) (heard w ! t)"

lemma turns_append:
  "turns repo ms (ts @ us) w = (case turns repo ms ts w of None \<Rightarrow> None | Some w' \<Rightarrow> turns repo ms us w')"
  by (induction ts arbitrary: w) (auto split: option.split)

section \<open>Rules for threads\<close>

text \<open>Once a call is pending, the rest of a handler changes nothing.\<close>

definition inert :: "'x thread \<Rightarrow> bool" where
  "inert m \<longleftrightarrow> (\<forall>p. pending p \<noteq> None \<longrightarrow> (\<exists>y. m p = Some (y, p)))"

text \<open>A handler that makes at most \<open>n\<close> calls, whatever it is answered.\<close>

definition bounded :: "nat \<Rightarrow> 'x thread \<Rightarrow> bool" where
  "bounded n m \<longleftrightarrow> (\<forall>rs. n \<le> length rs \<longrightarrow>
     (\<exists>x rs'. m \<lparr>script = rs, pending = None\<rparr> = Some (x, \<lparr>script = rs', pending = None\<rparr>) \<and> length rs \<le> length rs' + n))"

text \<open>A list of calls with their replies that leads from one state to another.\<close>

fun performs :: "'s ItemRepository \<Rightarrow> (repo_call \<times> repo_reply) list \<Rightarrow> 's \<Rightarrow> 's \<Rightarrow> bool" where
  "performs repo [] s s' \<longleftrightarrow> s' = s"
| "performs repo ((q, r) # tr) s s' \<longleftrightarrow> (\<exists>s1. perform repo q s = Some (r, s1) \<and> performs repo tr s1 s')"

definition asks :: "'x thread \<Rightarrow> (repo_call \<times> repo_reply) list \<Rightarrow> 'x \<Rightarrow> bool" where
  "asks m tr x \<longleftrightarrow>
     (\<forall>rest. m \<lparr>script = map snd tr @ rest, pending = None\<rparr> = Some (x, \<lparr>script = rest, pending = None\<rparr>)) \<and>
     (\<forall>n < length tr. \<exists>y. m \<lparr>script = map snd (take n tr), pending = None\<rparr> =
        Some (y, \<lparr>script = [], pending = Some (fst (tr ! n))\<rparr>))"

text \<open>The handler \<open>m\<close> over the script makes the calls that \<open>m'\<close>, the same handler over \<open>repo\<close>, makes.\<close>

definition follows :: "'s ItemRepository \<Rightarrow> 'x thread \<Rightarrow> ('s, 'x) op \<Rightarrow> bool" where
  "follows repo m m' \<longleftrightarrow> inert m \<and>
     (\<forall>s x s'. m' s = Some (x, s') \<longrightarrow> (\<exists>tr. performs repo tr s s' \<and> asks m tr x))"

named_theorems thread_rules \<open>handlers composed of operations\<close>

lemma inertD: "inert m \<Longrightarrow> \<exists>y. m \<lparr>script = rs, pending = Some q\<rparr> = Some (y, \<lparr>script = rs, pending = Some q\<rparr>)"
  by (simp add: inert_def)

lemma inert_return: "inert (op_return x)"
  by (simp add: inert_def)

lemma inert_ask: "inert (ask q dec)"
  by (auto simp: inert_def ask_def)

lemma inert_bind: "inert m \<Longrightarrow> (\<And>x. inert (f x)) \<Longrightarrow> inert (op_bind m f)"
  by (fastforce simp: inert_def)

lemma bounded_return [thread_rules]: "bounded n (op_return x)"
  by (auto simp: bounded_def)

lemma bounded_ask [thread_rules]: "bounded (Suc n) (ask q dec)"
  by (auto simp: bounded_def ask_def Suc_le_length_iff)

lemma bounded_bind:
  assumes "bounded a m" and "\<And>x. bounded b (f x)"
  shows "bounded (a + b) (op_bind m f)"
  unfolding bounded_def
proof (intro allI impI)
  fix rs :: "repo_reply list" assume n: "a + b \<le> length rs"
  then obtain x rs1 where 1: "m \<lparr>script = rs, pending = None\<rparr> = Some (x, \<lparr>script = rs1, pending = None\<rparr>)"
    "length rs \<le> length rs1 + a" using assms(1) unfolding bounded_def by (meson add_leE)
  then have "b \<le> length rs1" using n by simp
  then obtain y rs2 where "f x \<lparr>script = rs1, pending = None\<rparr> = Some (y, \<lparr>script = rs2, pending = None\<rparr>)"
    "length rs1 \<le> length rs2 + b" using assms(2) unfolding bounded_def by blast
  with 1 show "\<exists>x rs'. op_bind m f \<lparr>script = rs, pending = None\<rparr> = Some (x, \<lparr>script = rs', pending = None\<rparr>) \<and>
      length rs \<le> length rs' + (a + b)" by auto
qed

lemma bounded_last [thread_rules]: "bounded n m \<Longrightarrow> (\<And>x. bounded 0 (f x)) \<Longrightarrow> bounded n (op_bind m f)"
  using bounded_bind[of n m 0 f] by simp

lemma bounded_two: "bounded 1 m \<Longrightarrow> (\<And>x. bounded 1 (f x)) \<Longrightarrow> bounded 2 (op_bind m f)"
  using bounded_bind[of 1 m 1 f] by (simp add: numeral_2_eq_2)

lemma bounded_case_sum [thread_rules]:
  "(\<And>e. bounded n (f e)) \<Longrightarrow> (\<And>x. bounded n (g x)) \<Longrightarrow> bounded n (case_sum f g r)"
  by (cases r) auto

lemma bounded_case_option [thread_rules]:
  "bounded n f \<Longrightarrow> (\<And>x. bounded n (g x)) \<Longrightarrow> bounded n (case_option f g v)"
  by (cases v) auto

lemma bounded_if [thread_rules]: "bounded n m \<Longrightarrow> bounded n m' \<Longrightarrow> bounded n (if b then m else m')"
  by simp

lemma follows_return [thread_rules]: "follows repo (op_return x) (op_return x)"
  by (auto simp: follows_def inert_return asks_def intro!: exI[of _ "[]"])

lemma follows_ask:
  assumes "\<And>s x s'. m' s = Some (x, s') \<Longrightarrow> \<exists>r. perform repo q s = Some (r, s') \<and> dec r = x"
  shows "follows repo (ask q dec) m'"
  unfolding follows_def
proof (intro conjI allI impI inert_ask)
  fix s x s' assume "m' s = Some (x, s')"
  then obtain r where "perform repo q s = Some (r, s')" "dec r = x" using assms by blast
  then show "\<exists>tr. performs repo tr s s' \<and> asks (ask q dec) tr x"
    by (intro exI[of _ "[(q, r)]"]) (simp add: asks_def ask_def)
qed

lemma follows_calls [thread_rules]:
  "follows repo (ask (FindById k) found) (find_by_id repo k)"
  "follows repo (ask (FindBySku x) looked_up) (find_by_sku repo x)"
  "follows repo (ask (FindAll f) listed) (find_all repo f)"
  "follows repo (ask (CountAll f) counted) (count_items repo f)"
  "follows repo (ask (SaveItem i) written) (save repo i)"
  "follows repo (ask (UpdateItem i) written) (update repo i)"
  "follows repo (ask (RemoveItem k) removed) (remove repo k)"
  by (rule follows_ask; simp)+

lemma performs_append: "performs repo tr s s1 \<Longrightarrow> performs repo us s1 s' \<Longrightarrow> performs repo (tr @ us) s s'"
  by (induction tr arbitrary: s) auto

lemma asks_bind:
  assumes m: "asks m tr x" and f: "asks (f x) us y" and inert: "\<And>x. inert (f x)"
  shows "asks (op_bind m f) (tr @ us) y"
  unfolding asks_def
proof (intro conjI allI impI)
  have run: "m \<lparr>script = map snd tr @ rest, pending = None\<rparr> = Some (x, \<lparr>script = rest, pending = None\<rparr>)" for rest
    using m by (simp add: asks_def)
  show "op_bind m f \<lparr>script = map snd (tr @ us) @ rest, pending = None\<rparr> = Some (y, \<lparr>script = rest, pending = None\<rparr>)" for rest
    using run f by (simp add: asks_def)
  fix n assume n: "n < length (tr @ us)"
  show "\<exists>z. op_bind m f \<lparr>script = map snd (take n (tr @ us)), pending = None\<rparr> =
      Some (z, \<lparr>script = [], pending = Some (fst ((tr @ us) ! n))\<rparr>)"
  proof (cases "n < length tr")
    case True
    then obtain z where z: "m \<lparr>script = map snd (take n tr), pending = None\<rparr> = Some (z, \<lparr>script = [], pending = Some (fst (tr ! n))\<rparr>)"
      using m by (auto simp: asks_def)
    obtain z' where "f z \<lparr>script = [], pending = Some (fst (tr ! n))\<rparr> = Some (z', \<lparr>script = [], pending = Some (fst (tr ! n))\<rparr>)"
      using inertD[OF inert] by blast
    then show ?thesis using z True by (simp add: nth_append)
  next
    case False
    then have "n - length tr < length us" using n by auto
    then obtain z where "f x \<lparr>script = map snd (take (n - length tr) us), pending = None\<rparr> =
        Some (z, \<lparr>script = [], pending = Some (fst (us ! (n - length tr)))\<rparr>)"
      using f by (auto simp: asks_def)
    then show ?thesis using False run by (simp add: nth_append)
  qed
qed

lemma follows_bind [thread_rules]:
  assumes "follows repo m m'" and "\<And>x. follows repo (f x) (f' x)"
  shows "follows repo (op_bind m f) (op_bind m' f')"
  unfolding follows_def
proof (intro conjI allI impI)
  show "inert (op_bind m f)" using assms by (intro inert_bind) (auto simp: follows_def)
  fix s y s' assume "op_bind m' f' s = Some (y, s')"
  then obtain x s1 where 1: "m' s = Some (x, s1)" "f' x s1 = Some (y, s')" by (auto simp: op_bind_eq_Some)
  obtain tr where tr: "performs repo tr s s1" "asks m tr x" using assms(1) 1(1) unfolding follows_def by blast
  obtain us where us: "performs repo us s1 s'" "asks (f x) us y" using assms(2)[of x] 1(2) unfolding follows_def by blast
  have "asks (op_bind m f) (tr @ us) y"
    by (rule asks_bind[where f = f and x = x, OF tr(2) us(2)]) (use assms(2) in \<open>simp add: follows_def\<close>)
  then show "\<exists>tr. performs repo tr s s' \<and> asks (op_bind m f) tr y" using performs_append[OF tr(1) us(1)] by blast
qed

lemma follows_case_sum [thread_rules]:
  "(\<And>e. follows repo (f e) (f' e)) \<Longrightarrow> (\<And>x. follows repo (g x) (g' x)) \<Longrightarrow> follows repo (case_sum f g r) (case_sum f' g' r)"
  by (cases r) auto

lemma follows_case_option [thread_rules]:
  "follows repo f f' \<Longrightarrow> (\<And>x. follows repo (g x) (g' x)) \<Longrightarrow> follows repo (case_option f g v) (case_option f' g' v)"
  by (cases v) auto

lemma follows_if [thread_rules]:
  "follows repo m m' \<Longrightarrow> follows repo n n' \<Longrightarrow> follows repo (if b then m else n) (if b then m' else n')"
  by simp

section \<open>The handlers as threads\<close>

lemma bounded_one [thread_rules]: "bounded 1 (ask q dec)"
  using bounded_ask[of 0] by simp

lemma use_case_threads [thread_rules]:
  "bounded 2 (create_execute probe_repo r0 r1 now req)"
  "bounded 2 (get_execute probe_repo k)"
  "bounded 2 (list_execute probe_repo f)"
  "bounded 2 (update_execute probe_repo now ureq)"
  "bounded 2 (delete_execute probe_repo k)"
  unfolding create_execute_def get_execute_def list_execute_def update_execute_def delete_execute_def probe_repo_simps numeral_2_eq_2
  by (intro thread_rules bounded_two[unfolded numeral_2_eq_2])+

lemma use_cases_follow [thread_rules]:
  "follows repo (create_execute probe_repo r0 r1 now req) (create_execute repo r0 r1 now req)"
  "follows repo (get_execute probe_repo k) (get_execute repo k)"
  "follows repo (list_execute probe_repo f) (list_execute repo f)"
  "follows repo (update_execute probe_repo now ureq) (update_execute repo now ureq)"
  "follows repo (delete_execute probe_repo k) (delete_execute repo k)"
  unfolding create_execute_def get_execute_def list_execute_def update_execute_def delete_execute_def probe_repo_simps
  by (intro thread_rules)+

lemma handle_bounded: "bounded 2 (handle lib ctime ub probe_repo c)"
  by (cases c; simp add: getAllItems_def createItem_def getItemById_def updateItem_def deleteItem_def patchItem_def;
      intro thread_rules)

lemma handle_follows: "follows repo (handle lib ctime ub probe_repo c) (handle lib ctime ub repo c)"
  by (cases c; simp add: getAllItems_def createItem_def getItemById_def updateItem_def deleteItem_def patchItem_def;
      intro thread_rules)

section \<open>What a thread asks for\<close>

text \<open>Replies carry valid items where the handlers build on them, and calls write valid items only.\<close>

fun reply_ok :: "repo_reply \<Rightarrow> bool" where
  "reply_ok (Found r) = valid_item r"
| "reply_ok _ = True"

fun call_ok :: "repo_call \<Rightarrow> bool" where
  "call_ok (SaveItem i) = (item_ok i \<and> in_clock (created_at i) \<and> in_clock (updated_at i))"
| "call_ok (UpdateItem i) = (item_ok i \<and> in_clock (updated_at i))"
| "call_ok LowStock = False"
| "call_ok _ = True"

definition probe_ok :: "probe \<Rightarrow> bool" where
  "probe_ok p \<longleftrightarrow> list_all reply_ok (script p) \<and> (case pending p of None \<Rightarrow> True | Some q \<Rightarrow> call_ok q)"

lemma ask_keeps:
  assumes "call_ok q" and "Q no_reply" and "\<And>r. reply_ok r \<Longrightarrow> Q (dec r)"
  shows "keeps probe_ok Q (ask q dec)"
proof (rule keepsI)
  fix p assume "probe_ok p"
  then show "\<exists>x p'. ask q dec p = Some (x, p') \<and> probe_ok p' \<and> Q x"
    using assms by (cases "pending p"; cases "script p") (auto simp: ask_def probe_ok_def)
qed

text \<open>The script itself is a provider that never gets stuck, so the lemmas on handlers apply to it.\<close>

interpretation probing: robust_repository probe_repo probe_ok
proof unfold_locales
  have "reply_ok r \<Longrightarrow> valid_item (found r)" for r by (cases r) (simp_all add: no_reply_def)
  then show "keeps probe_ok valid_item (find_by_id probe_repo k)" for k
    by (simp add: ask_keeps no_reply_def)
qed (simp_all add: ask_keeps)

lemma status_ok:
  assumes "in_clock (call_time c)" and "list_all reply_ok rs"
  shows "status (handle lib ctime ub probe_repo c) rs \<noteq> Blocked \<and>
    (\<forall>q. status (handle lib ctime ub probe_repo c) rs = Waits q \<longrightarrow> call_ok q)"
proof -
  have "probe_ok \<lparr>script = rs, pending = None\<rparr>" using assms(2) by (simp add: probe_ok_def)
  then obtain x p where "handle lib ctime ub probe_repo c \<lparr>script = rs, pending = None\<rparr> = Some (x, p)" "probe_ok p"
    using keepsD[OF probing.handle_keeps[OF assms(1)]] by blast
  then show ?thesis by (auto simp: status_def probe_ok_def split: option.split)
qed

lemma bounded_status:
  assumes "bounded n m" and "n \<le> length rs"
  obtains x where "status m rs = Finished x"
  using assms by (fastforce simp: bounded_def status_def)

section \<open>Any schedule\<close>

context robust_repository begin

lemma perform_keeps: "call_ok q \<Longrightarrow> keeps ready reply_ok (perform repo q)"
  by (cases q) (auto intro!: keeps_bind[OF by_id_keeps] keeps_bind[OF by_sku_keeps] keeps_bind[OF all_keeps]
      keeps_bind[OF count_keeps] keeps_bind[OF save_keeps] keeps_bind[OF update_keeps] keeps_bind[OF remove_keeps]
      keeps_return simp: op_map_def)

text \<open>Good threads ask for good calls only.\<close>

definition good_threads :: "'x thread list \<Rightarrow> bool" where
  "good_threads ms \<longleftrightarrow> (\<forall>m \<in> set ms. \<forall>rs. list_all reply_ok rs \<longrightarrow>
     status m rs \<noteq> Blocked \<and> (\<forall>q. status m rs = Waits q \<longrightarrow> call_ok q))"

definition workers_ok :: "'x thread list \<Rightarrow> 's Workers \<Rightarrow> bool" where
  "workers_ok ms w \<longleftrightarrow> ready (shared w) \<and> length (heard w) = length ms \<and> (\<forall>rs \<in> set (heard w). list_all reply_ok rs)"

definition finished :: "'x thread list \<Rightarrow> 's Workers \<Rightarrow> nat \<Rightarrow> bool" where
  "finished ms w t \<longleftrightarrow> (\<exists>x. thread_status ms w t = Finished x)"

lemma turn_ok:
  assumes good: "good_threads ms" and ok: "workers_ok ms w"
  shows "\<exists>w'. turn repo ms t w = Some w' \<and> workers_ok ms w' \<and>
    (\<forall>u < length ms. if u = t \<and> \<not> finished ms w t then length (heard w' ! u) = Suc (length (heard w ! u))
       else heard w' ! u = heard w ! u)"
proof (cases "t < length ms")
  case True
  have len: "length (heard w) = length ms" and heard: "list_all reply_ok (heard w ! t)"
    using ok True by (simp_all add: workers_ok_def)
  show ?thesis
  proof (cases "status (ms ! t) (heard w ! t)")
    case (Finished x)
    then show ?thesis using True ok by (auto simp: turn_def finished_def thread_status_def)
  next
    case (Waits q)
    then have "call_ok q" using good True heard unfolding good_threads_def by (meson nth_mem)
    then obtain r s' where r: "perform repo q (shared w) = Some (r, s')" "ready s'" "reply_ok r"
      using keepsD[OF perform_keeps] ok unfolding workers_ok_def by blast
    have "\<forall>rs \<in> set ((heard w)[t := heard w ! t @ [r]]). list_all reply_ok rs"
      using ok r(3) heard by (auto simp: workers_ok_def dest!: subsetD[OF set_update_subset_insert])
    then show ?thesis using True Waits r len by (auto simp: turn_def workers_ok_def finished_def thread_status_def)
  next
    case Blocked
    then show ?thesis using good True heard unfolding good_threads_def by (meson nth_mem)
  qed
qed (use ok in \<open>auto simp: turn_def\<close>)

lemma finished_heard: "heard w' ! u = heard w ! u \<Longrightarrow> finished ms w' u = finished ms w u"
  by (simp add: finished_def thread_status_def)

lemma turns_ok:
  assumes good: "good_threads ms"
  shows "workers_ok ms w \<Longrightarrow> \<exists>w'. turns repo ms ts w = Some w' \<and> workers_ok ms w' \<and>
    (\<forall>u < length ms. (finished ms w u \<longrightarrow> finished ms w' u) \<and>
       (finished ms w' u \<or> length (heard w ! u) + count_list ts u \<le> length (heard w' ! u)))"
proof (induction ts arbitrary: w)
  case (Cons t ts)
  obtain w1 where 1: "turn repo ms t w = Some w1" "workers_ok ms w1"
    "\<forall>u < length ms. if u = t \<and> \<not> finished ms w t then length (heard w1 ! u) = Suc (length (heard w ! u))
       else heard w1 ! u = heard w ! u"
    using turn_ok[OF good Cons.prems] by blast
  obtain w' where 2: "turns repo ms ts w1 = Some w'" "workers_ok ms w'"
    "\<forall>u < length ms. (finished ms w1 u \<longrightarrow> finished ms w' u) \<and>
       (finished ms w' u \<or> length (heard w1 ! u) + count_list ts u \<le> length (heard w' ! u))"
    using Cons.IH[OF 1(2)] by blast
  have "(finished ms w u \<longrightarrow> finished ms w' u) \<and>
      (finished ms w' u \<or> length (heard w ! u) + count_list (t # ts) u \<le> length (heard w' ! u))" if u: "u < length ms" for u
  proof (cases "u = t \<and> \<not> finished ms w t")
    case True
    then have "length (heard w1 ! u) = Suc (length (heard w ! u))" using 1(3) u by auto
    then show ?thesis using 2(3) u True by auto
  next
    case False
    then have same: "heard w1 ! u = heard w ! u" using 1(3) u by auto
    then show ?thesis using 2(3) u False finished_heard[OF same] by auto
  qed
  then show ?case using 1(1) 2(1,2) by auto
qed auto

text \<open>A thread that makes at most \<open>n\<close> calls has finished after \<open>n\<close> turns of its own.\<close>

lemma turns_finish:
  assumes "good_threads ms" and "ready s" and "\<forall>m \<in> set ms. bounded n m"
  shows "\<exists>w. turns repo ms ts (workers_start s ms) = Some w \<and> ready (shared w) \<and>
    (\<forall>u < length ms. n \<le> count_list ts u \<longrightarrow> (\<exists>x. thread_status ms w u = Finished x))"
proof -
  have "workers_ok ms (workers_start s ms)" using assms(2) by (simp add: workers_ok_def workers_start_def)
  then obtain w where w: "turns repo ms ts (workers_start s ms) = Some w" "workers_ok ms w"
    "\<forall>u < length ms. finished ms w u \<or> length (heard (workers_start s ms) ! u) + count_list ts u \<le> length (heard w ! u)"
    using turns_ok[OF assms(1)] by blast
  have "\<exists>x. thread_status ms w u = Finished x" if u: "u < length ms" and n: "n \<le> count_list ts u" for u
  proof (cases "finished ms w u")
    case False
    then have "n \<le> length (heard w ! u)" using w(3) u n by (auto simp: workers_start_def)
    moreover have "bounded n (ms ! u)" using assms(3) u by simp
    ultimately show ?thesis unfolding thread_status_def by (metis bounded_status)
  qed (simp add: finished_def)
  then show ?thesis using w by (auto simp: workers_ok_def)
qed

end

definition request_threads ::
  "'j json_lib \<Rightarrow> (int \<Rightarrow> string) \<Rightarrow> int32 \<Rightarrow> 'j ItemCall list \<Rightarrow> (exn + 'j HttpResponse) thread list" where
  "request_threads lib ctime ub calls = map (handle lib ctime ub probe_repo) calls"

section \<open>Property\<close>

text \<open>C7: whatever requests are served at the same time, and however their operations come in turn, no
  thread blocks, the pool and the database can still serve and the table is well-formed at every moment;
  and a request is answered after two turns of its own at the latest.\<close>

theorem concurrent_traffic:
  assumes "sql_items_strict pq rows_of up view storable" and "pg_ready pq rows_of up s"
    and "\<forall>c \<in> set calls. in_clock (call_time c)"
  shows "\<exists>w. turns (pg_item_repo pq) (request_threads lib ctime ub calls) ts
      (workers_start s (request_threads lib ctime ub calls)) = Some w \<and>
    pg_ready pq rows_of up (shared w) \<and> table_ok (pg_table pq rows_of (shared w)) \<and>
    (\<forall>t < length calls. 2 \<le> count_list ts t \<longrightarrow>
       (\<exists>resp. thread_status (request_threads lib ctime ub calls) w t = Finished resp))"
proof -
  note robust = sql_items_strict.traffic[OF assms(1)]
  let ?ms = "request_threads lib ctime ub calls"
  have good: "robust_repository.good_threads ?ms"
    unfolding robust_repository.good_threads_def[OF robust] using assms(3) status_ok by (fastforce simp: request_threads_def)
  have "\<forall>m \<in> set ?ms. bounded 2 m" using handle_bounded by (auto simp: request_threads_def)
  then obtain w where w: "turns (pg_item_repo pq) ?ms ts (workers_start s ?ms) = Some w" "pg_ready pq rows_of up (shared w)"
    "\<forall>u < length ?ms. 2 \<le> count_list ts u \<longrightarrow> (\<exists>x. thread_status ?ms w u = Finished x)"
    using robust_repository.turns_finish[OF robust good assms(2)] by blast
  have "table_ok (pg_table pq rows_of (shared w))"
    by (rule item_repository.table_wf[OF sql_items.contract[OF sql_items_strict.axioms(1)[OF assms(1)]] w(2)])
  then show ?thesis using w by (auto simp: request_threads_def)
qed

text \<open>Two creations of the same item and a request for it, served at the same time.\<close>

abbreviation shop_calls :: "JsonValue ItemCall list" where
  "shop_calls \<equiv> [Post (request_of (create_to_json std_json shop_body)) 1 2 0,
     Post (request_of (create_to_json std_json shop_body)) 3 4 5, GetOne (to_string (generate 1 2))]"

theorem concurrent_traffic_witness:
  "\<exists>w. turns (pg_item_repo server_pq) (request_threads std_json shop_ctime 0 shop_calls) [0, 1, 0, 2, 1, 2]
      (workers_start empty_shop (request_threads std_json shop_ctime 0 shop_calls)) = Some w \<and>
    table_ok (pg_table server_pq server_rows (shared w)) \<and>
    (\<forall>t < 3. \<exists>resp. thread_status (request_threads std_json shop_ctime 0 shop_calls) w t = Finished resp)"
proof -
  have "\<forall>c \<in> set shop_calls. in_clock (call_time c)" by (simp add: in_clock_def)
  from concurrent_traffic[OF strict_shop_server empty_shop_ready this, of std_json shop_ctime 0 "[0, 1, 0, 2, 1, 2]"]
  show ?thesis by (fastforce simp: less_Suc_eq numeral_3_eq_3)
qed

end
