(* ===== verification/Races.thy ===== *)
theory Races
  imports Workers
begin

text \<open>
  Two races between requests. Creating an item looks its stock keeping unit up first and inserts then, so
  two requests can both find it free; the unique constraint of the table lets only one of them through.
  Updating an item reads it first and writes all of it back, and there nothing holds the other back.
\<close>

section \<open>Steps of a schedule\<close>

lemma turn_cases:
  assumes "turn repo ms t w = Some w'"
  obtains "w' = w"
  | q r s' where "t < length ms" and "status (ms ! t) (heard w ! t) = Waits q"
      and "perform repo q (shared w) = Some (r, s')"
      and "w' = w\<lparr>shared := s', heard := (heard w)[t := heard w ! t @ [r]]\<rparr>"
  using assms by (auto simp: turn_def split: if_splits status.splits option.splits)

lemma turns_invariant:
  assumes "I w" and "turns repo ms ts w = Some w'"
    and step: "\<And>w w' t. I w \<Longrightarrow> turn repo ms t w = Some w' \<Longrightarrow> I w'"
  shows "I w'"
  using assms(1,2)
proof (induction ts arbitrary: w)
  case (Cons t ts)
  then show ?case using step by (auto split: option.splits)
qed simp

section \<open>Creations that run at the same time\<close>

text \<open>A creation with the random draws and the time it meets.\<close>

record Creation =
  cn_r0 :: uint64
  cn_r1 :: uint64
  cn_now :: time_point
  cn_req :: CreateRequest

abbreviation new_id :: "Creation \<Rightarrow> Uuid" where
  "new_id c \<equiv> generate (cn_r0 c) (cn_r1 c)"

abbreviation wanted_sku :: "Creation \<Rightarrow> string" where
  "wanted_sku c \<equiv> cr_sku (cn_req c)"

definition wanted :: "Creation \<Rightarrow> Item" where
  "wanted c = requested_item (cn_r0 c) (cn_r1 c) (cn_now c) (cn_req c)"

definition creator :: "Creation \<Rightarrow> Item Result thread" where
  "creator c = create_execute probe_repo (cn_r0 c) (cn_r1 c) (cn_now c) (cn_req c)"

text \<open>A creation the storage can take, with an identifier that is not in use.\<close>

definition proper :: "(Item \<Rightarrow> bool) \<Rightarrow> (Uuid \<Rightarrow> Item option) \<Rightarrow> Creation \<Rightarrow> bool" where
  "proper storable m c \<longleftrightarrow> create_valid (cn_req c) \<and> storable (wanted c) \<and> in_clock (cn_now c) \<and> m (new_id c) = None"

definition taken :: "(Uuid \<Rightarrow> Item option) \<Rightarrow> string \<Rightarrow> bool" where
  "taken m x \<longleftrightarrow> (\<exists>k i. m k = Some i \<and> sku i = x)"

lemma wanted_fields [simp]: "item_id (wanted c) = new_id c" "sku (wanted c) = wanted_sku c"
  by (simp_all add: wanted_def)

lemma creator_status:
  assumes "create_valid (cn_req c)"
  shows "status (creator c) [] = Waits (FindBySku (wanted_sku c))"
    and "status (creator c) [Looked_up (Inr i)] = Finished (Inl (sku_conflict (wanted_sku c)))"
    and "status (creator c) [Looked_up (Inl e)] = Waits (SaveItem (wanted c))"
    and "status (creator c) [Looked_up (Inl e), Written r] = Finished r"
  by (simp_all add: creator_def create_execute_valid[OF assms] wanted_def status_def ask_def op_bind_def op_return_def no_reply_def)

text \<open>What a creation has heard, and what the table \<open>m\<close> says about it.\<close>

fun stage :: "(Uuid \<Rightarrow> Item option) \<Rightarrow> Creation \<Rightarrow> repo_reply list \<Rightarrow> bool" where
  "stage m c [] \<longleftrightarrow> m (new_id c) = None"
| "stage m c [Looked_up (Inr i)] \<longleftrightarrow> m (new_id c) = None \<and> taken m (wanted_sku c)"
| "stage m c [Looked_up (Inl e)] \<longleftrightarrow> m (new_id c) = None"
| "stage m c [Looked_up (Inl e), Written (Inr j)] \<longleftrightarrow> m (new_id c) = Some j \<and> sku j = wanted_sku c"
| "stage m c [Looked_up (Inl e), Written (Inl e')] \<longleftrightarrow>
     m (new_id c) = None \<and> taken m (wanted_sku c) \<and> err_code e' = kDatabaseError"
| "stage m c _ \<longleftrightarrow> False"

text \<open>A later insertion under another identifier changes nothing of it.\<close>

lemma taken_insert: "m k = None \<Longrightarrow> taken m x \<Longrightarrow> taken (m(k \<mapsto> j)) x"
  unfolding taken_def by (metis fun_upd_other option.distinct(1))

lemma stage_insert: "stage m c h \<Longrightarrow> m k = None \<Longrightarrow> k \<noteq> new_id c \<Longrightarrow> stage (m(k \<mapsto> j)) c h"
  by (induction m c h rule: stage.induct) (auto simp: taken_insert)

lemma stage_waits:
  assumes "create_valid (cn_req c)" and "stage m c h" and "status (creator c) h = Waits q"
  shows "h = [] \<and> q = FindBySku (wanted_sku c) \<or> (\<exists>e. h = [Looked_up (Inl e)] \<and> q = SaveItem (wanted c)) \<and> m (new_id c) = None"
  using assms by (induction m c h rule: stage.induct) (auto simp: creator_status)

text \<open>A table that has grown from \<open>m\<close> by creations that have been answered.\<close>

definition grown :: "(Uuid \<Rightarrow> Item option) \<Rightarrow> Creation list \<Rightarrow> repo_reply list list \<Rightarrow> (Uuid \<Rightarrow> Item option) \<Rightarrow> bool" where
  "grown m cs hs m' \<longleftrightarrow> m \<subseteq>\<^sub>m m' \<and> length hs = length cs \<and>
     (\<forall>t < length cs. stage m' (cs ! t) (hs ! t)) \<and>
     (\<forall>k j. m' k = Some j \<longrightarrow> m k = None \<longrightarrow>
        (\<exists>t < length cs. k = new_id (cs ! t) \<and> (\<exists>e. hs ! t = [Looked_up (Inl e), Written (Inr j)])))"

lemma grown_answer:
  assumes g: "grown m cs hs m'" and "t < length cs" and "stage m' (cs ! t) h"
    and "\<And>e j. hs ! t \<noteq> [Looked_up (Inl e), Written (Inr j)]"
  shows "grown m cs (hs[t := h]) m'"
  using assms unfolding grown_def by (auto simp: nth_list_update) metis

lemma grown_insert:
  assumes g: "grown m cs hs m'" and t: "t < length cs" and h: "hs ! t = [Looked_up (Inl e)]"
    and new: "m' (new_id (cs ! t)) = None" and j: "sku j = wanted_sku (cs ! t)" and dist: "distinct (map new_id cs)"
  shows "grown m cs (hs[t := [Looked_up (Inl e), Written (Inr j)]]) (m'(new_id (cs ! t) \<mapsto> j))"
proof -
  have other: "new_id (cs ! t) \<noteq> new_id (cs ! u)" if "u < length cs" "u \<noteq> t" for u
    using dist t that by (simp add: distinct_conv_nth)
  have "m \<subseteq>\<^sub>m m'(new_id (cs ! t) \<mapsto> j)" using g new by (force simp: grown_def map_le_def dom_def)
  moreover have "stage (m'(new_id (cs ! t) \<mapsto> j)) (cs ! u) (hs[t := [Looked_up (Inl e), Written (Inr j)]] ! u)"
    if "u < length cs" for u
    using g t j that other[OF that] new by (cases "u = t") (simp_all add: grown_def stage_insert)
  moreover have "\<exists>u < length cs. k = new_id (cs ! u) \<and>
      (\<exists>e'. hs[t := [Looked_up (Inl e), Written (Inr j)]] ! u = [Looked_up (Inl e'), Written (Inr j')])"
    if k: "(m'(new_id (cs ! t) \<mapsto> j)) k = Some j'" "m k = None" for k j'
  proof (cases "k = new_id (cs ! t)")
    case True
    then show ?thesis using k t g by (intro exI[of _ t]) (auto simp: grown_def)
  next
    case False
    then have "m' k = Some j'" using k(1) by simp
    then obtain u e' where u: "u < length cs" "k = new_id (cs ! u)" "hs ! u = [Looked_up (Inl e'), Written (Inr j')]"
      using g k(2) unfolding grown_def by blast
    moreover have "u \<noteq> t" using u(3) h by auto
    ultimately show ?thesis by (intro exI[of _ u]) simp
  qed
  ultimately show ?thesis using g by (simp add: grown_def)
qed

lemma grown_start: "\<forall>c \<in> set cs. m (new_id c) = None \<Longrightarrow> grown m cs (replicate (length cs) []) m"
  by (auto simp: grown_def)

section \<open>A repository whose inserts are checked\<close>

text \<open>Saving an item whose stock keeping unit is in use fails and changes nothing.\<close>

locale atomic_repository = item_repository repo table ready storable + robust_repository repo ready
  for repo :: "'s ItemRepository" and table :: "'s \<Rightarrow> Uuid \<Rightarrow> Item option" and ready :: "'s \<Rightarrow> bool"
    and storable :: "Item \<Rightarrow> bool" +
  assumes save_taken: "ready s \<Longrightarrow> storable i \<Longrightarrow> item_ok i \<Longrightarrow> table s (item_id i) = None \<Longrightarrow> taken (table s) (sku i) \<Longrightarrow>
      \<exists>m s'. save repo i s = Some (Inl (database m), s') \<and> ready s' \<and> table s' = table s"
begin

lemma race_turn:
  assumes ok: "\<forall>c \<in> set cs. create_valid (cn_req c) \<and> storable (wanted c)" and dist: "distinct (map new_id cs)"
    and w: "ready (shared w)" "grown m cs (heard w) (table (shared w))"
    and turn: "turn repo (map creator cs) t w = Some w'"
  shows "ready (shared w') \<and> grown m cs (heard w') (table (shared w'))"
proof (rule turn_cases[OF turn])
  assume "w' = w"
  then show ?thesis using w by simp
next
  fix q r s'
  assume t: "t < length (map creator cs)" and st: "status (map creator cs ! t) (heard w ! t) = Waits q"
    and r: "perform repo q (shared w) = Some (r, s')" and w': "w' = w\<lparr>shared := s', heard := (heard w)[t := heard w ! t @ [r]]\<rparr>"
  let ?c = "cs ! t"
  have c: "create_valid (cn_req ?c)" "storable (wanted ?c)" and stage: "stage (table (shared w)) ?c (heard w ! t)"
    and tl: "t < length cs" using ok t w(2) by (simp_all add: grown_def)
  have iok: "item_ok (wanted ?c)" using requested_item_ok[OF c(1)] by (simp add: wanted_def)
  consider "heard w ! t = []" "q = FindBySku (wanted_sku ?c)"
    | e where "heard w ! t = [Looked_up (Inl e)]" "q = SaveItem (wanted ?c)" "table (shared w) (new_id ?c) = None"
    using stage_waits[OF c(1) stage, of q] st t by auto
  then show ?thesis
  proof cases
    case 1
    obtain x s1 where x: "find_by_sku repo (wanted_sku ?c) (shared w) = Some (x, s1)" "ready s1" "table s1 = table (shared w)"
      "case x of Inr i \<Rightarrow> table (shared w) (item_id i) = Some i \<and> sku i = wanted_sku ?c
         | Inl e \<Rightarrow> err_code e = kNotFound \<and> (\<forall>k i. table (shared w) k = Some i \<longrightarrow> sku i \<noteq> wanted_sku ?c)"
      using by_sku[OF w(1)] by blast
    then have "stage (table (shared w)) ?c [Looked_up x]" using stage 1(1) by (auto simp: taken_def split: sum.splits)
    from grown_answer[OF w(2) tl this] show ?thesis using 1 r x w' by auto
  next
    case 2
    show ?thesis
    proof (cases "taken (table (shared w)) (wanted_sku ?c)")
      case True
      then obtain msg s1 where sv: "save repo (wanted ?c) (shared w) = Some (Inl (database msg), s1)" "ready s1" "table s1 = table (shared w)"
        using save_taken[OF w(1) c(2) iok] 2(3) by auto
      have "stage (table (shared w)) ?c [Looked_up (Inl e), Written (Inl (database msg))]" using True 2(3) by simp
      from grown_answer[OF w(2) tl this] show ?thesis using 2 r sv w' by auto
    next
      case False
      then have "sku_free (table (shared w)) (new_id ?c) (wanted_sku ?c)" by (auto simp: sku_free_def taken_def)
      then obtain j s1 where sv: "save repo (wanted ?c) (shared w) = Some (Inr j, s1)" "ready s1" "same_item (wanted ?c) j"
        "table s1 = (table (shared w))(new_id ?c \<mapsto> j)"
        using saves[OF w(1) c(2) iok] 2(3) by auto
      have "sku j = wanted_sku ?c" using same_item_fields[OF sv(3)] by simp
      from grown_insert[OF w(2) tl 2(1,3) this dist] show ?thesis using 2 r sv w' by auto
    qed
  qed
qed

lemma creators_good: "\<forall>c \<in> set cs. in_clock (cn_now c) \<Longrightarrow> good_threads (map creator cs)"
  unfolding good_threads_def
proof (intro ballI allI impI)
  fix m :: "Item Result thread" and rs assume clock: "\<forall>c \<in> set cs. in_clock (cn_now c)" and m: "m \<in> set (map creator cs)" and rs: "list_all reply_ok rs"
  obtain c where c: "m = creator c" "in_clock (cn_now c)" using clock m by auto
  have "probe_ok \<lparr>script = rs, pending = None\<rparr>" using rs by (simp add: probe_ok_def)
  then obtain x p where "m \<lparr>script = rs, pending = None\<rparr> = Some (x, p)" "probe_ok p"
    unfolding c(1) creator_def using keepsD[OF probing.create_keeps[OF c(2)]] by blast
  then show "status m rs \<noteq> Blocked \<and> (\<forall>q. status m rs = Waits q \<longrightarrow> call_ok q)"
    by (auto simp: status_def probe_ok_def split: option.split)
qed

lemma race_ends:
  assumes "ready s" and ok: "\<forall>c \<in> set cs. proper storable (table s) c" and dist: "distinct (map new_id cs)"
    and two: "\<forall>t < length cs. 2 \<le> count_list ts t"
  shows "\<exists>w. turns repo (map creator cs) ts (workers_start s (map creator cs)) = Some w \<and>
    ready (shared w) \<and> grown (table s) cs (heard w) (table (shared w)) \<and>
    (\<forall>t < length cs. \<exists>x. thread_status (map creator cs) w t = Finished x)"
proof -
  let ?ms = "map creator cs"
  have good: "good_threads ?ms" using ok by (intro creators_good) (simp add: proper_def)
  have b: "\<forall>m \<in> set ?ms. bounded 2 m" by (auto simp: creator_def intro: use_case_threads)
  obtain w where w: "turns repo ?ms ts (workers_start s ?ms) = Some w"
    "\<forall>u < length ?ms. 2 \<le> count_list ts u \<longrightarrow> (\<exists>x. thread_status ?ms w u = Finished x)"
    using turns_finish[OF good assms(1) b] by blast
  have "grown (table s) cs (replicate (length cs) []) (table s)" using ok by (intro grown_start) (simp add: proper_def)
  then have start: "ready (shared (workers_start s ?ms)) \<and>
      grown (table s) cs (heard (workers_start s ?ms)) (table (shared (workers_start s ?ms)))"
    using assms(1) by (simp add: workers_start_def)
  have "ready (shared w) \<and> grown (table s) cs (heard w) (table (shared w))"
    by (rule turns_invariant[where I = "\<lambda>w. ready (shared w) \<and> grown (table s) cs (heard w) (table (shared w))",
          OF start w(1)]) (use race_turn[OF _ dist] ok in \<open>auto simp: proper_def\<close>)
  then show ?thesis using w two by auto
qed

end

text \<open>A creation that has ended has been stored, or was refused because its stock keeping unit is in use.\<close>

lemma stage_ended:
  assumes "create_valid (cn_req c)" and "stage m c h" and "status (creator c) h = Finished x"
  shows "(case x of Inr j \<Rightarrow> m (new_id c) = Some j \<and> sku j = wanted_sku c
     | Inl e \<Rightarrow> m (new_id c) = None \<and> taken m (wanted_sku c) \<and> err_code e \<in> {kConflict, kDatabaseError})"
  using assms by (induction m c h rule: stage.induct) (auto simp: creator_status split: sum.splits)

lemma won_status:
  "create_valid (cn_req c) \<Longrightarrow> h = [Looked_up (Inl e), Written (Inr j)] \<Longrightarrow> status (creator c) h = Finished (Inr j)"
  by (simp add: creator_status)

text \<open>The threads that have been answered with a stored item.\<close>

definition winners :: "Creation list \<Rightarrow> 's Workers \<Rightarrow> string \<Rightarrow> nat set" where
  "winners cs w x = {t. t < length cs \<and> wanted_sku (cs ! t) = x \<and> (\<exists>j. thread_status (map creator cs) w t = Finished (Inr j))}"

lemma winner_stored:
  assumes g: "grown m cs (heard w) m'" and ok: "\<forall>c \<in> set cs. create_valid (cn_req c) \<and> m (new_id c) = None"
    and t: "t < length cs" "thread_status (map creator cs) w t = Finished (Inr j)"
  shows "m' (new_id (cs ! t)) = Some j \<and> sku j = wanted_sku (cs ! t)"
  using stage_ended[of "cs ! t" m' "heard w ! t" "Inr j"] ok g t by (simp add: thread_status_def grown_def)

text \<open>Two winners would be stored under the same stock keeping unit, hence are the same; and where it was
  taken before, the item it was taken by would be the winner's.\<close>

lemma winner_unique:
  assumes g: "grown m cs (heard w) m'" and ok: "\<forall>c \<in> set cs. create_valid (cn_req c) \<and> m (new_id c) = None" and dist: "distinct (map new_id cs)"
    and tab: "table_ok m'" and t: "t \<in> winners cs w x"
  shows "\<not> taken m x" and "u \<in> winners cs w x \<Longrightarrow> u = t"
proof -
  have same: "k = k'" if "m' k = Some i" "m' k' = Some i'" "sku i = sku i'" for k k' i i'
    using tab that unfolding table_ok_def sku_free_def by metis
  obtain j where j: "t < length cs" "wanted_sku (cs ! t) = x" "thread_status (map creator cs) w t = Finished (Inr j)"
    using t by (auto simp: winners_def)
  note tj = winner_stored[OF g ok j(1,3)]
  show "\<not> taken m x"
  proof
    assume "taken m x"
    then obtain k i where i: "m k = Some i" "sku i = x" by (auto simp: taken_def)
    then have "m' k = Some i" using g by (auto simp: grown_def map_le_def dom_def)
    then have "new_id (cs ! t) = k" using same[of "new_id (cs ! t)" j k i] tj i(2) j(2) by simp
    then show False using ok j(1) i(1) by auto
  qed
  show "u = t" if "u \<in> winners cs w x"
  proof -
    obtain j' where j': "u < length cs" "wanted_sku (cs ! u) = x" "thread_status (map creator cs) w u = Finished (Inr j')"
      using \<open>u \<in> winners cs w x\<close> by (auto simp: winners_def)
    then have "new_id (cs ! u) = new_id (cs ! t)"
      using winner_stored[OF g ok j'(1,3)] tj j(2) same[of "new_id (cs ! u)" j' "new_id (cs ! t)" j] by simp
    then show ?thesis using dist j(1) j'(1) by (simp add: distinct_conv_nth) metis
  qed
qed

lemma winner_exists:
  assumes g: "grown m cs (heard w) m'" and ok: "\<forall>c \<in> set cs. create_valid (cn_req c) \<and> m (new_id c) = None"
    and asked: "t0 < length cs" "wanted_sku (cs ! t0) = x" "thread_status (map creator cs) w t0 = Finished r" and free: "\<not> taken m x"
  shows "\<exists>t. t \<in> winners cs w x"
proof (cases r)
  case (Inr j)
  then show ?thesis using asked by (auto simp: winners_def)
next
  case (Inl e)
  then have "taken m' x"
    using stage_ended[of "cs ! t0" m' "heard w ! t0" r] ok g asked by (simp add: thread_status_def grown_def)
  then obtain k i where i: "m' k = Some i" "sku i = x" by (auto simp: taken_def)
  moreover have "m k = None"
  proof (rule ccontr)
    assume "m k \<noteq> None"
    then have "m k = Some i" using g i(1) by (force simp: grown_def map_le_def dom_def)
    then show False using free i(2) by (auto simp: taken_def)
  qed
  ultimately obtain t e' where t: "t < length cs" "k = new_id (cs ! t)" "heard w ! t = [Looked_up (Inl e'), Written (Inr i)]"
    using g unfolding grown_def by metis
  then have st: "thread_status (map creator cs) w t = Finished (Inr i)"
    using ok won_status[of "cs ! t" "heard w ! t" e' i] by (simp add: thread_status_def)
  then have "wanted_sku (cs ! t) = x" using winner_stored[OF g ok t(1)] i(2) by simp
  then show ?thesis using t(1) st by (auto simp: winners_def)
qed

lemma winners_card:
  assumes g: "grown m cs (heard w) m'" and ok: "\<forall>c \<in> set cs. create_valid (cn_req c) \<and> m (new_id c) = None" and dist: "distinct (map new_id cs)"
    and tab: "table_ok m'" and fin: "\<forall>t < length cs. \<exists>r. thread_status (map creator cs) w t = Finished r"
    and asked: "t0 < length cs" "wanted_sku (cs ! t0) = x"
  shows "card (winners cs w x) = (if taken m x then 0 else 1)"
proof (cases "taken m x")
  case True
  then have "winners cs w x = {}" using winner_unique(1)[OF g ok dist tab] by blast
  then show ?thesis using True by simp
next
  case False
  obtain r where "thread_status (map creator cs) w t0 = Finished r" using fin asked(1) by blast
  then obtain t where t: "t \<in> winners cs w x" using winner_exists[OF g ok asked _ False] by blast
  then have "winners cs w x = {t}" using winner_unique(2)[OF g ok dist tab t] by blast
  then show ?thesis using False by simp
qed

section \<open>Updates that run at the same time\<close>

text \<open>Both updates read the item before either writes it.\<close>

definition both_read_first :: "nat list" where
  "both_read_first = [0, 1, 0, 1]"

definition updater :: "time_point \<Rightarrow> UpdateRequest \<Rightarrow> Item Result thread" where
  "updater now req = update_execute probe_repo now req"

lemma updater_status:
  assumes "item_ok i" and "update_valid req"
  shows "status (updater now req) [] = Waits (FindById (ur_id req))"
    and "status (updater now req) [Found (Inr i)] = Waits (UpdateItem (updated_item req now i))"
    and "status (updater now req) [Found (Inr i), Written r] = Finished r"
  using apply_update_valid[OF assms, of now]
  by (simp_all add: updater_def update_execute_def status_def ask_def op_bind_def op_return_def no_reply_def)

context item_repository begin

lemma updates_overlap:
  assumes "ready s" and i: "table s k = Some i" and k: "ur_id u1 = k" "ur_id u2 = k"
    and v: "update_valid u1" "update_valid u2"
    and st: "storable (updated_item u1 n1 i)" "storable (updated_item u2 n2 i)"
  shows "\<exists>w j1 j2. turns repo [updater n1 u1, updater n2 u2] both_read_first (workers_start s [updater n1 u1, updater n2 u2]) = Some w \<and>
    thread_status [updater n1 u1, updater n2 u2] w 0 = Finished (Inr j1) \<and> same_item (updated_item u1 n1 i) j1 \<and>
    thread_status [updater n1 u1, updater n2 u2] w 1 = Finished (Inr j2) \<and> same_item (updated_item u2 n2 i) j2 \<and>
    table (shared w) = (table s)(k \<mapsto> j2)"
proof -
  have i_ok: "item_id i = k" "item_ok i" "sku_free (table s) k (sku i)"
    using table_wf[OF assms(1)] i by (auto simp: table_ok_def)
  have f: "item_id (updated_item u n i) = k" "sku (updated_item u n i) = sku i" for u n
    using i_ok(1) by (simp_all add: updated_item_def)
  have ok: "item_ok (updated_item u1 n1 i)" "item_ok (updated_item u2 n2 i)" using updated_item_ok[OF i_ok(2)] v by simp_all
  obtain s1 where 1: "find_by_id repo k s = Some (Inr i, s1)" "ready s1" "table s1 = table s"
    using by_id[OF assms(1), of k] i by auto
  obtain s2 where 2: "find_by_id repo k s1 = Some (Inr i, s2)" "ready s2" "table s2 = table s"
    using by_id[OF 1(2), of k] i 1(3) by auto
  obtain j1 s3 where 3: "update repo (updated_item u1 n1 i) s2 = Some (Inr j1, s3)" "ready s3" "same_item (updated_item u1 n1 i) j1"
    "table s3 = (table s)(k \<mapsto> j1)"
    using updates[OF 2(2) st(1) ok(1), of i] f i i_ok(3) 2(3) by auto
  have "sku j1 = sku i" using same_item_fields[OF 3(3)] f by simp
  then have "sku_free (table s3) k (sku i)" using i_ok(3) 3(4) by (auto simp: sku_free_def)
  then obtain j2 s4 where 4: "update repo (updated_item u2 n2 i) s3 = Some (Inr j2, s4)" "same_item (updated_item u2 n2 i) j2"
    "table s4 = (table s)(k \<mapsto> j2)"
    using updates[OF 3(2) st(2) ok(2), of j1] f 3(4) by auto
  note st1 = updater_status[OF i_ok(2) v(1), of n1] and st2 = updater_status[OF i_ok(2) v(2), of n2]
  show ?thesis
    using 1 2 3 4 st1 st2 k
    by (simp add: both_read_first_def turn_def workers_start_def thread_status_def op_map_run)
qed

end

section \<open>The table behind the application\<close>

text \<open>The unique constraint on the stock keeping unit: an insert that would break it fails.\<close>

locale sql_unique = sql_items_strict pq rows_of up view storable
  for pq :: "('d, 't) pqxx" and rows_of :: "'d \<Rightarrow> string \<Rightarrow> row option" and up :: "'d \<Rightarrow> bool"
    and view :: "'t \<Rightarrow> 'd" and storable :: "Item \<Rightarrow> bool" +
  assumes ins_taken: "up (view t) \<Longrightarrow> storable i \<Longrightarrow> rows_of (view t) (to_string (item_id i)) = None \<Longrightarrow>
      \<not> sku_unused (rows_of (view t)) (to_string (item_id i)) (sku i) \<Longrightarrow>
      \<exists>w. exec_sql pq sql_item_insert
        (item_params i @ [PText (format_iso8601 (created_at i)), PText (format_iso8601 (updated_at i))]) t = Inl (Sql_error w)"
begin

lemma run_save_taken:
  assumes "pg_ready pq rows_of up s" and "storable i" and "pg_table pq rows_of s (item_id i) = None"
    and "taken (pg_table pq rows_of s) (sku i)"
  shows "\<exists>m s'. save (pg_item_repo pq) i s = Some (Inl (database m), s') \<and> pg_ready pq rows_of up s' \<and>
    pg_table pq rows_of s' = pg_table pq rows_of s"
proof -
  let ?d = "bk_db s" and ?ps = "item_params i @ [PText (format_iso8601 (created_at i)), PText (format_iso8601 (updated_at i))]"
  let ?body = "txn_commit_first pq sql_item_insert ?ps (if_empty (database ''Failed to insert item'')) (first_item pq)"
  have up: "up ?d" and ok: "rows_ok pq (rows_of ?d)" and pool: "pool_ready (bk_pool s)"
    using assms(1) by (simp_all add: pg_ready_def)
  have new: "rows_of ?d (to_string (item_id i)) = None" using assms(3) items_of_None[OF ok] by (simp add: pg_table_def)
  have "\<not> sku_free (pg_table pq rows_of s) (item_id i) (sku i)"
    using assms(3,4) unfolding sku_free_def taken_def by (metis option.distinct(1))
  then have sk: "\<not> sku_unused (rows_of ?d) (to_string (item_id i)) (sku i)"
    using sku_unused_iff[OF ok] by (simp add: pg_table_def)
  obtain c cs where c: "m_pool (bk_pool s) = c # cs" using pool by (cases "m_pool (bk_pool s)") (auto simp: pool_ready_def)
  obtain t where t: "work pq c ?d = Inr t" "view t = ?d" using begin_work[OF up] by blast
  obtain w where "exec_sql pq sql_item_insert ?ps t = Inl (Sql_error w)" using ins_taken[of t i] t(2) up assms(2) new sk by auto
  then have "?body c ?d = (Inl (Sql_error w), ?d)" using t by (simp add: txn_commit_first_def)
  then have "save (pg_item_repo pq) i s = Some (Inl (sql_failure ''save'' w), s\<lparr>bk_pool := (bk_pool s)\<lparr>m_pool := cs @ [c]\<rparr>\<rparr>)"
    using with_session_open[OF pool c open_conn[OF up], of ?body] open_conn[OF up]
    by (simp add: pg_item_repo_def pg_save_def session_def)
  moreover obtain m where "sql_failure ''save'' w = database m" unfolding sql_failure_def by blast
  ultimately show ?thesis
    using pool_ready_rotate[OF pool c] assms(1) by (intro exI[of _ m]) (simp add: pg_ready_def pg_table_def)
qed

end

sublocale sql_unique \<subseteq> checked: atomic_repository "pg_item_repo pq" "pg_table pq rows_of" "pg_ready pq rows_of up" storable
  by unfold_locales (simp_all add: run_save_taken)

context sql_unique begin

lemma races: "atomic_repository (pg_item_repo pq) (pg_table pq rows_of) (pg_ready pq rows_of up) storable"
  by (rule checked.atomic_repository_axioms)

end

interpretation unique_srv: sql_unique server_pq server_rows "server_up cats sups" "\<lambda>d. d" "server_storable cats sups"
  for cats sups
proof unfold_locales
  fix t :: Server and i :: Item
  assume new: "server_rows t (to_string (item_id i)) = None"
    and used: "\<not> sku_unused (server_rows t) (to_string (item_id i)) (sku i)"
  let ?k = "to_string (item_id i)"
  let ?r = "(item_cells (item_params i))(''created_at'' \<mapsto> timestamp_text (format_iso8601 (created_at i)),
    ''updated_at'' \<mapsto> timestamp_text (format_iso8601 (updated_at i)))"
  have "\<not> cells_ok t ?k ?r" using used cells_ok_unused by blast
  moreover have "param_text (item_params i ! 0) = ?k" by (simp add: item_params_def)
  ultimately show "\<exists>w. exec_sql server_pq sql_item_insert (item_params i @ [PText (format_iso8601 (created_at i)),
      PText (format_iso8601 (updated_at i))]) t = Inl (Sql_error w)"
    by (simp add: server_pq_def server_exec_def nth_append Let_def del: fun_upd_apply)
qed

lemma unique_shop_server: "sql_unique server_pq server_rows (server_up [shop_cat] [shop_sup]) (\<lambda>d. d) shop_storable"
  by (rule unique_srv.sql_unique_axioms)

section \<open>Properties\<close>

text \<open>C9: however the operations of concurrent creations come in turn, exactly one of the requests for a
  stock keeping unit that was free is answered with the stored item, and none for one that was in use; the
  others fail with a conflict or a database error, and the table stays well-formed.\<close>

theorem one_creation_wins:
  assumes "sql_unique pq rows_of up view storable" and "pg_ready pq rows_of up s"
    and "\<forall>c \<in> set cs. proper storable (pg_table pq rows_of s) c" and "distinct (map new_id cs)"
    and "\<forall>t < length cs. 2 \<le> count_list ts t"
  shows "\<exists>w. turns (pg_item_repo pq) (map creator cs) ts (workers_start s (map creator cs)) = Some w \<and>
    table_ok (pg_table pq rows_of (shared w)) \<and>
    (\<forall>x \<in> wanted_sku ` set cs. card (winners cs w x) = (if taken (pg_table pq rows_of s) x then 0 else 1)) \<and>
    (\<forall>t < length cs. \<exists>r. thread_status (map creator cs) w t = Finished r \<and>
       (case r of Inr j \<Rightarrow> pg_table pq rows_of (shared w) (new_id (cs ! t)) = Some j
        | Inl e \<Rightarrow> err_code e \<in> {kConflict, kDatabaseError}))"
proof -
  note at = sql_unique.races[OF assms(1)]
  have valid: "\<forall>c \<in> set cs. create_valid (cn_req c) \<and> pg_table pq rows_of s (new_id c) = None"
    using assms(3) by (simp add: proper_def)
  obtain w where w: "turns (pg_item_repo pq) (map creator cs) ts (workers_start s (map creator cs)) = Some w"
    "pg_ready pq rows_of up (shared w)" "grown (pg_table pq rows_of s) cs (heard w) (pg_table pq rows_of (shared w))"
    "\<forall>t < length cs. \<exists>r. thread_status (map creator cs) w t = Finished r"
    using atomic_repository.race_ends[OF at assms(2-5)] by blast
  have tab: "table_ok (pg_table pq rows_of (shared w))"
    by (rule item_repository.table_wf[OF atomic_repository.axioms(1)[OF at] w(2)])
  have "card (winners cs w x) = (if taken (pg_table pq rows_of s) x then 0 else 1)" if x: "x \<in> wanted_sku ` set cs" for x
  proof -
    obtain t where "t < length cs" "wanted_sku (cs ! t) = x" using x by (auto simp: in_set_conv_nth)
    then show ?thesis by (rule winners_card[OF w(3) valid assms(4) tab w(4)])
  qed
  moreover have "\<exists>r. thread_status (map creator cs) w t = Finished r \<and>
       (case r of Inr j \<Rightarrow> pg_table pq rows_of (shared w) (new_id (cs ! t)) = Some j
        | Inl e \<Rightarrow> err_code e \<in> {kConflict, kDatabaseError})" if t: "t < length cs" for t
  proof -
    obtain r where r: "thread_status (map creator cs) w t = Finished r" using w(4) t by blast
    have "case r of Inr j \<Rightarrow> pg_table pq rows_of (shared w) (new_id (cs ! t)) = Some j \<and> sku j = wanted_sku (cs ! t)
     | Inl e \<Rightarrow> pg_table pq rows_of (shared w) (new_id (cs ! t)) = None \<and>
         taken (pg_table pq rows_of (shared w)) (wanted_sku (cs ! t)) \<and> err_code e \<in> {kConflict, kDatabaseError}"
      by (rule stage_ended[of _ _ "heard w ! t"]) (use valid t w(3) r in \<open>simp_all add: grown_def thread_status_def\<close>)
    then show ?thesis using r by (auto split: sum.splits)
  qed
  ultimately show ?thesis using w(1) tab by blast
qed

definition shop_creations :: "Creation list" where
  "shop_creations = [\<lparr>cn_r0 = 1, cn_r1 = 2, cn_now = 0, cn_req = shop_request\<rparr>,
     \<lparr>cn_r0 = 3, cn_r1 = 4, cn_now = 5, cn_req = shop_request\<rparr>]"

theorem one_creation_wins_witness:
  "\<exists>w. turns (pg_item_repo server_pq) (map creator shop_creations) [0, 1, 1, 0] (workers_start empty_shop (map creator shop_creations)) = Some w \<and>
    card (winners shop_creations w ''SKU-100'') = 1"
proof -
  have ids: "distinct (map new_id shop_creations)" by (simp add: shop_creations_def) code_simp
  have proper: "\<forall>c \<in> set shop_creations. proper shop_storable (pg_table server_pq server_rows empty_shop) c"
    using shop_request_valid shop_request_storable by (simp add: shop_creations_def proper_def wanted_def in_clock_def)
  have two: "\<forall>t < length shop_creations. 2 \<le> count_list [0, 1, 1, 0] t"
    by (simp add: shop_creations_def less_Suc_eq)
  have "''SKU-100'' \<in> wanted_sku ` set shop_creations" by (simp add: shop_creations_def shop_request_def)
  moreover have "\<not> taken (pg_table server_pq server_rows empty_shop) ''SKU-100''" by (simp add: taken_def)
  ultimately show ?thesis
    using one_creation_wins[OF unique_shop_server empty_shop_ready proper ids two] by fastforce
qed

text \<open>C10: two updates of one item that both read it before either writes are both answered with
  success, and what the first one changed is lost: the item is what the second one makes of the item as
  it was before.\<close>

theorem update_lost:
  assumes "sql_items pq rows_of up view storable" and "pg_ready pq rows_of up s"
    and "pg_table pq rows_of s k = Some i" and "ur_id u1 = k" and "ur_id u2 = k" and "update_valid u1" and "update_valid u2"
    and "storable (updated_item u1 n1 i)" and "storable (updated_item u2 n2 i)"
  shows "\<exists>w j1 j2. turns (pg_item_repo pq) [updater n1 u1, updater n2 u2] both_read_first
      (workers_start s [updater n1 u1, updater n2 u2]) = Some w \<and>
    thread_status [updater n1 u1, updater n2 u2] w 0 = Finished (Inr j1) \<and> same_item (updated_item u1 n1 i) j1 \<and>
    thread_status [updater n1 u1, updater n2 u2] w 1 = Finished (Inr j2) \<and> same_item (updated_item u2 n2 i) j2 \<and>
    pg_table pq rows_of (shared w) = (pg_table pq rows_of s)(k \<mapsto> j2)"
  using item_repository.updates_overlap[OF sql_items.contract[OF assms(1)] assms(2-9)] .


definition shop_rename :: UpdateRequest where
  "shop_rename = no_update\<lparr>ur_id := generate 1 2, ur_name := Some ''Renamed''\<rparr>"

theorem update_lost_witness:
  "\<exists>w j1 j2. turns (pg_item_repo server_pq) [updater 9 shop_update, updater 10 shop_rename]
      both_read_first (workers_start stocked_shop [updater 9 shop_update, updater 10 shop_rename]) = Some w \<and>
    thread_status [updater 9 shop_update, updater 10 shop_rename] w 0 = Finished (Inr j1) \<and>
    qty (stock j1) = 75 \<and> pg_table server_pq server_rows (shared w) (generate 1 2) = Some j2 \<and>
    item_name j2 = ''Renamed'' \<and> qty (stock j2) = 100"
proof -
  have v: "update_valid shop_update" "update_valid shop_rename" "ur_id shop_update = generate 1 2" "ur_id shop_rename = generate 1 2"
    by (simp_all add: shop_update_def shop_rename_def no_update_def update_valid_def)
  have st: "shop_storable (updated_item shop_update 9 shop_item)"
    using shop_item_facts(3) by (intro updated_shop_item_storable) (simp_all add: shop_item_def)
  have "shop_storable shop_item" unfolding shop_item_def by (rule shop_request_storable) simp_all
  then have st': "shop_storable (updated_item shop_rename 10 shop_item)"
    using updated_item_ok[OF shop_item_facts(1) v(2), of 10]
    by (simp add: server_storable_def) (simp add: updated_item_def shop_rename_def no_update_def)
  obtain w j1 j2 where w: "turns (pg_item_repo server_pq) [updater 9 shop_update, updater 10 shop_rename] both_read_first
      (workers_start stocked_shop [updater 9 shop_update, updater 10 shop_rename]) = Some w"
    "same_item (updated_item shop_update 9 shop_item) j1" "same_item (updated_item shop_rename 10 shop_item) j2"
    "pg_table server_pq server_rows (shared w) = (pg_table server_pq server_rows stocked_shop)(generate 1 2 \<mapsto> j2)"
    "thread_status [updater 9 shop_update, updater 10 shop_rename] w 0 = Finished (Inr j1)"
    using update_lost[OF shop_server stocked_shop_ready stocked_shop_item v(3,4,1,2) st st'] by blast
  have "stock (updated_item shop_update 9 shop_item) = stock j1" "stock (updated_item shop_rename 10 shop_item) = stock j2"
    "item_name (updated_item shop_rename 10 shop_item) = item_name j2"
    using same_item_fields[OF w(2)] same_item_fields[OF w(3)] by simp_all
  then have "qty (stock j1) = 75" "qty (stock j2) = 100" "item_name j2 = ''Renamed''"
    by (simp_all add: updated_item_def shop_update_def shop_rename_def no_update_def shop_item_def requested_item_def Item_new_def
        shop_request_def flip: \<open>stock _ = stock j1\<close> \<open>stock _ = stock j2\<close> \<open>item_name _ = item_name j2\<close>)
  moreover have "pg_table server_pq server_rows (shared w) (generate 1 2) = Some j2" using w(4) by simp
  ultimately show ?thesis using w(1,5) by blast
qed

end
