(* ===== verification/Pooled.thy ===== *)
theory Pooled
  imports Workers
begin

text \<open>
  The threads of \<^verbatim>\<open>Workers\<close> over the connection pool, with the two critical sections of an operation apart:
  taking a connection from the queue (\<^verbatim>\<open>acquire\<close> of \<^verbatim>\<open>connection_pool.cpp\<close>, which waits while there is none), and the
  transaction with the return of the connection. There can be more threads than connections.
\<close>

section \<open>Turns\<close>

record 'd PoolWorkers =
  pw_state :: "'d Backend"
  pw_heard :: "repo_reply list list"
  pw_held :: "conn option list"

definition pool_workers_start :: "'d Backend \<Rightarrow> 'x thread list \<Rightarrow> 'd PoolWorkers" where
  "pool_workers_start s ms = \<lparr>pw_state = s, pw_heard = replicate (length ms) [], pw_held = replicate (length ms) None\<rparr>"

text \<open>An operation that holds the connection \<open>c\<close> goes on as over a pool with \<open>c\<close> alone; what that pool is
  left with is given back.\<close>

definition borrowed :: "conn \<Rightarrow> ConnectionPool \<Rightarrow> ConnectionPool" where
  "borrowed c p = p\<lparr>m_pool := [c], m_available := 1\<rparr>"

definition give_back :: "ConnectionPool \<Rightarrow> ConnectionPool \<Rightarrow> ConnectionPool" where
  "give_back p q = p\<lparr>m_pool := m_pool p @ m_pool q, m_available := m_available p + m_available q\<rparr>"

text \<open>The answer of an operation that gets no connection.\<close>

definition refused :: "Error \<Rightarrow> repo_call \<Rightarrow> repo_reply" where
  "refused e q =
     (let r = database (''Failed to acquire connection: '' @ err_message e)
      in case q of
           FindById k \<Rightarrow> Found (Inl r) | FindBySku x \<Rightarrow> Looked_up (Inl r)
         | FindAll f \<Rightarrow> Listed (Inl r) | CountAll f \<Rightarrow> Counted (Inl r) | SaveItem i \<Rightarrow> Written (Inl r)
         | UpdateItem i \<Rightarrow> Written (Inl r) | RemoveItem k \<Rightarrow> Removed (Inl r) | LowStock \<Rightarrow> Listed (Inl r))"

text \<open>Thread \<open>t\<close> takes a turn: it finishes the operation it has a connection for, or tries to take one; with
  none queued it waits.\<close>

definition pool_turn :: "('d, 't) pqxx \<Rightarrow> 'x thread list \<Rightarrow> nat \<Rightarrow> 'd PoolWorkers \<Rightarrow> 'd PoolWorkers option" where
  "pool_turn pq ms t w =
     (if t < length ms
      then (case status (ms ! t) (pw_heard w ! t) of
              Finished x \<Rightarrow> Some w
            | Blocked \<Rightarrow> None
            | Waits q \<Rightarrow>
                (let s = pw_state w
                 in case pw_held w ! t of
                      None \<Rightarrow>
                        (case acquire_locked (bk_pool s) of
                           None \<Rightarrow> Some w
                         | Some (Inl e, p) \<Rightarrow> Some (w\<lparr>pw_heard := (pw_heard w)[t := pw_heard w ! t @ [refused e q]]\<rparr>)
                         | Some (Inr c, p) \<Rightarrow> Some (w\<lparr>pw_state := s\<lparr>bk_pool := p\<rparr>, pw_held := (pw_held w)[t := Some c]\<rparr>))
                    | Some c \<Rightarrow>
                        (case perform (pg_item_repo pq) q (s\<lparr>bk_pool := borrowed c (bk_pool s)\<rparr>) of
                           None \<Rightarrow> None
                         | Some (r, s') \<Rightarrow> Some
                             \<lparr>pw_state = s'\<lparr>bk_pool := give_back (bk_pool s) (bk_pool s')\<rparr>,
                              pw_heard = (pw_heard w)[t := pw_heard w ! t @ [r]],
                              pw_held = (pw_held w)[t := None]\<rparr>)))
      else Some w)"

fun pool_turns :: "('d, 't) pqxx \<Rightarrow> 'x thread list \<Rightarrow> nat list \<Rightarrow> 'd PoolWorkers \<Rightarrow> 'd PoolWorkers option" where
  "pool_turns pq ms [] w = Some w"
| "pool_turns pq ms (t # ts) w = (case pool_turn pq ms t w of None \<Rightarrow> None | Some w' \<Rightarrow> pool_turns pq ms ts w')"

lemma pool_turns_append:
  "pool_turns pq ms (ts @ us) w = (case pool_turns pq ms ts w of None \<Rightarrow> None | Some w' \<Rightarrow> pool_turns pq ms us w')"
  by (induction ts arbitrary: w) (auto split: option.split)

section \<open>One operation on the borrowed connection\<close>

lemma session_pool:
  assumes "with_session pq f g body s = Some (r, s')"
  shows "length (m_pool (bk_pool s')) \<le> length (m_pool (bk_pool s))"
  using assms
  by (auto simp: with_session_def acquire_def acquire_locked_def pc_release_def pc_new_def pool_release_def
      split: option.splits sum.splits if_splits list.splits prod.splits)

lemma perform_pool: "perform (pg_item_repo pq) q s = Some (r, s') \<Longrightarrow> length (m_pool (bk_pool s')) \<le> length (m_pool (bk_pool s))"
  by (cases q)
    (auto simp: pg_item_repo_def pg_find_by_id_def pg_find_by_sku_def pg_find_all_def pg_count_def pg_save_def pg_update_def
      pg_remove_def pg_find_low_stock_def session_def dest: session_pool)

section \<open>The invariant\<close>

definition holders :: "'d PoolWorkers \<Rightarrow> nat" where
  "holders w = length (filter (\<lambda>h. h \<noteq> None) (pw_held w))"

definition waits :: "'x thread list \<Rightarrow> 'd PoolWorkers \<Rightarrow> nat \<Rightarrow> bool" where
  "waits ms w t \<longleftrightarrow> (\<exists>q. status (ms ! t) (pw_heard w ! t) = Waits q)"

text \<open>A turn that changes nothing, because the thread waits for a connection and none is queued, or has
  finished; and a turn that takes a connection or finishes an operation.\<close>

definition stuck :: "'x thread list \<Rightarrow> 'd PoolWorkers \<Rightarrow> nat \<Rightarrow> bool" where
  "stuck ms w t \<longleftrightarrow> (t < length ms \<longrightarrow> waits ms w t \<longrightarrow> pw_held w ! t = None \<and> m_pool (bk_pool (pw_state w)) = [])"

definition moves :: "nat \<Rightarrow> 'd PoolWorkers \<Rightarrow> 'd PoolWorkers \<Rightarrow> bool" where
  "moves t w w' \<longleftrightarrow>
     (pw_held w ! t = None \<and> pw_heard w' = pw_heard w \<and> (\<exists>c. pw_held w' = (pw_held w)[t := Some c]) \<or>
      pw_held w ! t \<noteq> None \<and> pw_held w' = (pw_held w)[t := None] \<and> (\<exists>r. pw_heard w' = (pw_heard w)[t := pw_heard w ! t @ [r]]))"

lemma holders_take: "t < length hs \<Longrightarrow> hs ! t = None \<Longrightarrow> length (filter (\<lambda>h. h \<noteq> None) (hs[t := Some c])) = Suc (length (filter (\<lambda>h. h \<noteq> None) hs))"
proof (induction hs arbitrary: t)
  case (Cons h hs)
  then show ?case by (cases t) auto
qed simp

lemma holders_drop: "t < length hs \<Longrightarrow> hs ! t = Some c \<Longrightarrow> Suc (length (filter (\<lambda>h. h \<noteq> None) (hs[t := None]))) = length (filter (\<lambda>h. h \<noteq> None) hs)"
  using holders_take[of t "hs[t := None]" c] by (simp add: list_update_same_conv[THEN iffD2])

context sql_items_strict begin

definition crew_ok :: "nat \<Rightarrow> 'x thread list \<Rightarrow> 'd PoolWorkers \<Rightarrow> bool" where
  "crew_ok n ms w \<longleftrightarrow> (let p = bk_pool (pw_state w); d = bk_db (pw_state w) in
     up d \<and> rows_ok pq (rows_of d) \<and> \<not> m_shutdown p \<and> m_available p = length (m_pool p) \<and>
     length (m_pool p) + holders w = n \<and> 0 < n \<and> n \<le> m_pool_size p \<and>
     length (pw_heard w) = length ms \<and> length (pw_held w) = length ms \<and>
     (\<forall>rs \<in> set (pw_heard w). list_all reply_ok rs) \<and>
     (\<forall>t < length ms. pw_held w ! t \<noteq> None \<longrightarrow> waits ms w t))"

lemma crew_lengths: "crew_ok n ms w \<Longrightarrow> length (pw_heard w) = length ms \<and> length (pw_held w) = length ms"
  by (simp add: crew_ok_def Let_def)

lemma crew_waits: "crew_ok n ms w \<Longrightarrow> t < length ms \<Longrightarrow> pw_held w ! t \<noteq> None \<Longrightarrow> waits ms w t"
  by (simp add: crew_ok_def Let_def)

lemma borrow:
  assumes ok: "crew_ok n ms w" and t: "t < length ms" and held: "pw_held w ! t = Some c" and q: "call_ok q"
  shows "\<exists>r s'. perform (pg_item_repo pq) q ((pw_state w)\<lparr>bk_pool := borrowed c (bk_pool (pw_state w))\<rparr>) = Some (r, s') \<and>
    up (bk_db s') \<and> rows_ok pq (rows_of (bk_db s')) \<and> reply_ok r \<and> length (m_pool (bk_pool s')) = 1 \<and> m_available (bk_pool s') = 1"
proof -
  let ?s = "(pw_state w)\<lparr>bk_pool := borrowed c (bk_pool (pw_state w))\<rparr>"
  have "pg_ready pq rows_of up ?s"
    using ok by (simp add: crew_ok_def Let_def pg_ready_def pool_ready_def pool_inv_def borrowed_def)
  then obtain r s' where r: "perform (pg_item_repo pq) q ?s = Some (r, s')" "pg_ready pq rows_of up s'" "reply_ok r"
    using keepsD[OF robust.perform_keeps[OF q]] by blast
  have "length (m_pool (bk_pool s')) \<le> 1" using perform_pool[OF r(1)] by (simp add: borrowed_def)
  moreover have "m_pool (bk_pool s') \<noteq> []" "m_available (bk_pool s') = length (m_pool (bk_pool s'))"
    using r(2) by (simp_all add: pg_ready_def pool_ready_def pool_inv_def)
  ultimately have "length (m_pool (bk_pool s')) = 1" by (cases "m_pool (bk_pool s')") auto
  with r show ?thesis using \<open>m_available (bk_pool s') = _\<close> by (simp add: pg_ready_def)
qed

text \<open>A thread with a connection finishes its operation and gives the connection back.\<close>

lemma crew_finish:
  assumes ok: "crew_ok n ms w" and t: "t < length ms" and q: "status (ms ! t) (pw_heard w ! t) = Waits q" "call_ok q"
    and held: "pw_held w ! t = Some c"
  shows "\<exists>w'. pool_turn pq ms t w = Some w' \<and> crew_ok n ms w' \<and> moves t w w'"
proof -
  let ?p = "bk_pool (pw_state w)"
  have len: "length (pw_heard w) = length ms" "length (pw_held w) = length ms" and heard: "list_all reply_ok (pw_heard w ! t)"
    using ok t by (simp_all add: crew_ok_def Let_def)
  obtain r s' where r: "perform (pg_item_repo pq) q ((pw_state w)\<lparr>bk_pool := borrowed c ?p\<rparr>) = Some (r, s')"
    "up (bk_db s')" "rows_ok pq (rows_of (bk_db s'))" "reply_ok r" "length (m_pool (bk_pool s')) = 1" "m_available (bk_pool s') = 1"
    using borrow[OF ok t held q(2)] by blast
  let ?w = "\<lparr>pw_state = s'\<lparr>bk_pool := give_back ?p (bk_pool s')\<rparr>, pw_heard = (pw_heard w)[t := pw_heard w ! t @ [r]],
    pw_held = (pw_held w)[t := None]\<rparr>"
  have run: "pool_turn pq ms t w = Some ?w" using t q(1) held r(1) by (simp add: pool_turn_def Let_def)
  have "Suc (holders ?w) = holders w" using holders_drop[of t "pw_held w" c] t len held by (simp add: holders_def)
  moreover have "\<forall>rs \<in> set (pw_heard ?w). list_all reply_ok rs"
    using ok r(4) heard by (auto simp: crew_ok_def Let_def dest!: subsetD[OF set_update_subset_insert])
  moreover have "pw_held ?w ! u \<noteq> None \<longrightarrow> waits ms ?w u" if "u < length ms" for u
    using ok that len by (cases "u = t") (simp_all add: crew_ok_def Let_def waits_def)
  ultimately have "crew_ok n ms ?w" using ok r(2,3,5,6) len by (simp add: crew_ok_def Let_def give_back_def)
  then show ?thesis using run held by (intro exI[of _ ?w]) (auto simp: moves_def)
qed

text \<open>A thread without one takes the first connection of the queue, or waits.\<close>

lemma crew_take:
  assumes ok: "crew_ok n ms w" and t: "t < length ms" and q: "status (ms ! t) (pw_heard w ! t) = Waits q"
    and none: "pw_held w ! t = None"
  shows "\<exists>w'. pool_turn pq ms t w = Some w' \<and> crew_ok n ms w' \<and> (w' = w \<and> stuck ms w t \<or> moves t w w')"
proof -
  let ?p = "bk_pool (pw_state w)"
  have len: "length (pw_heard w) = length ms" "length (pw_held w) = length ms"
    and p: "\<not> m_shutdown ?p" "m_available ?p = length (m_pool ?p)"
    using ok by (simp_all add: crew_ok_def Let_def)
  show ?thesis
  proof (cases "m_pool ?p")
    case Nil
    then have "acquire_locked ?p = None" using p by (simp add: acquire_locked_def)
    then show ?thesis using t q none Nil ok by (simp add: pool_turn_def Let_def stuck_def)
  next
    case (Cons c cs)
    let ?w = "w\<lparr>pw_state := (pw_state w)\<lparr>bk_pool := ?p\<lparr>m_pool := cs, m_available := m_available ?p - 1\<rparr>\<rparr>,
      pw_held := (pw_held w)[t := Some c]\<rparr>"
    have "acquire_locked ?p = Some (Inr c, ?p\<lparr>m_pool := cs, m_available := m_available ?p - 1\<rparr>)"
      using p Cons by (simp add: acquire_locked_def)
    then have run: "pool_turn pq ms t w = Some ?w" using t q none by (simp add: pool_turn_def Let_def)
    have "holders ?w = Suc (holders w)" using holders_take[of t "pw_held w" c] t len none by (simp add: holders_def)
    moreover have "pw_held ?w ! u \<noteq> None \<longrightarrow> waits ms ?w u" if "u < length ms" for u
      using ok that len q by (cases "u = t") (simp_all add: crew_ok_def Let_def waits_def)
    ultimately have "crew_ok n ms ?w" using ok Cons len by (simp add: crew_ok_def Let_def)
    then show ?thesis using run none by (intro exI[of _ ?w]) (auto simp: moves_def)
  qed
qed

lemma crew_turn:
  assumes good: "robust.good_threads ms" and ok: "crew_ok n ms w"
  shows "\<exists>w'. pool_turn pq ms t w = Some w' \<and> crew_ok n ms w' \<and>
    (w' = w \<and> stuck ms w t \<or> t < length ms \<and> waits ms w t \<and> moves t w w')"
proof (cases "t < length ms")
  case t: True
  then have heard: "list_all reply_ok (pw_heard w ! t)" using ok by (simp add: crew_ok_def Let_def)
  show ?thesis
  proof (cases "status (ms ! t) (pw_heard w ! t)")
    case (Finished x)
    then show ?thesis using t ok by (auto simp: pool_turn_def waits_def stuck_def)
  next
    case Blocked
    then show ?thesis using good t heard unfolding robust.good_threads_def by (meson nth_mem)
  next
    case (Waits q)
    then have q: "call_ok q" using good t heard unfolding robust.good_threads_def by (meson nth_mem)
    have "waits ms w t" using Waits by (simp add: waits_def)
    then show ?thesis using crew_take[OF ok t Waits] crew_finish[OF ok t Waits q] t by (cases "pw_held w ! t") blast+
  qed
qed (use ok in \<open>auto simp: pool_turn_def stuck_def\<close>)

end

section \<open>Progress\<close>

text \<open>The turns thread \<open>t\<close> still needs when nobody is in its way: two for each operation to come.\<close>

definition weight :: "'x thread list \<Rightarrow> 'd PoolWorkers \<Rightarrow> nat \<Rightarrow> nat" where
  "weight ms w t =
     (if waits ms w t then 2 * (2 - length (pw_heard w ! t)) - (if pw_held w ! t = None then 0 else 1) else 0)"

definition total_weight :: "'x thread list \<Rightarrow> 'd PoolWorkers \<Rightarrow> nat" where
  "total_weight ms w = (\<Sum>t < length ms. weight ms w t)"

lemma waits_short: "bounded 2 (ms ! t) \<Longrightarrow> waits ms w t \<Longrightarrow> length (pw_heard w ! t) < 2"
  unfolding waits_def by (metis bounded_status not_le status.distinct(1))

lemma weight_eq_0: "bounded 2 (ms ! t) \<Longrightarrow> weight ms w t = 0 \<longleftrightarrow> \<not> waits ms w t"
  using waits_short[of ms t w] by (auto simp: weight_def)

lemma total_weight_less:
  assumes "t < length ms" and "weight ms w' t < weight ms w t"
    and "\<And>u. u < length ms \<Longrightarrow> u \<noteq> t \<Longrightarrow> weight ms w' u = weight ms w u"
  shows "total_weight ms w' < total_weight ms w"
  unfolding total_weight_def
proof (rule sum_strict_mono_ex1)
  show "\<forall>u\<in>{..<length ms}. weight ms w' u \<le> weight ms w u" using assms(2,3) by (metis lessThan_iff less_imp_le order_refl)
qed (use assms(1,2) in auto)

lemma moves_weight:
  assumes t: "t < length ms" and l: "length (pw_heard w) = length ms" "length (pw_held w) = length ms"
    and short: "bounded 2 (ms ! t)" and waits: "waits ms w t" and move: "moves t w w'"
  shows "total_weight ms w' < total_weight ms w"
proof (rule total_weight_less[OF t])
  have less: "length (pw_heard w ! t) < 2" by (rule waits_short[of ms, OF short waits])
  from move[unfolded moves_def] show "weight ms w' t < weight ms w t"
  proof (elim disjE conjE exE)
    fix c assume "pw_held w ! t = None" "pw_heard w' = pw_heard w" "pw_held w' = (pw_held w)[t := Some c]"
    then show ?thesis using t l less waits by (simp add: weight_def waits_def)
  next
    fix r assume "pw_held w ! t \<noteq> None" "pw_held w' = (pw_held w)[t := None]" "pw_heard w' = (pw_heard w)[t := pw_heard w ! t @ [r]]"
    then show ?thesis using t l less waits by (simp add: weight_def) linarith
  qed
  fix u assume "u < length ms" "u \<noteq> t"
  then have "pw_heard w' ! u = pw_heard w ! u" "pw_held w' ! u = pw_held w ! u" using move by (auto simp: moves_def)
  then show "weight ms w' u = weight ms w u" by (simp add: weight_def waits_def)
qed

lemma held_somewhere:
  assumes "0 < holders w"
  shows "\<exists>u < length (pw_held w). pw_held w ! u \<noteq> None"
proof -
  have "\<exists>h \<in> set (pw_held w). h \<noteq> None" using assms unfolding holders_def length_greater_0_conv filter_empty_conv by blast
  then show ?thesis by (metis in_set_conv_nth)
qed

context sql_items_strict begin

lemma turn_weight:
  assumes good: "robust.good_threads ms" and short: "\<forall>m \<in> set ms. bounded 2 m" and ok: "crew_ok n ms w"
  shows "\<exists>w'. pool_turn pq ms t w = Some w' \<and> crew_ok n ms w' \<and>
    (w' = w \<and> stuck ms w t \<or> total_weight ms w' < total_weight ms w)"
proof -
  have l: "length (pw_heard w) = length ms" "length (pw_held w) = length ms" using ok by (simp_all add: crew_ok_def Let_def)
  show ?thesis using crew_turn[OF good ok] moves_weight[OF _ l] short by (meson nth_mem)
qed

lemma turns_weight:
  assumes good: "robust.good_threads ms" and short: "\<forall>m \<in> set ms. bounded 2 m"
  shows "crew_ok n ms w \<Longrightarrow> \<exists>w'. pool_turns pq ms ts w = Some w' \<and> crew_ok n ms w' \<and>
    (w' = w \<and> (\<forall>t \<in> set ts. stuck ms w t) \<or> total_weight ms w' < total_weight ms w)"
proof (induction ts arbitrary: w)
  case (Cons t ts)
  obtain w1 where 1: "pool_turn pq ms t w = Some w1" "crew_ok n ms w1"
    "w1 = w \<and> stuck ms w t \<or> total_weight ms w1 < total_weight ms w"
    using turn_weight[OF good short Cons.prems] by blast
  obtain w' where 2: "pool_turns pq ms ts w1 = Some w'" "crew_ok n ms w'"
    "w' = w1 \<and> (\<forall>t \<in> set ts. stuck ms w1 t) \<or> total_weight ms w' < total_weight ms w1"
    using Cons.IH[OF 1(2)] by blast
  then show ?case using 1 by auto
qed simp

text \<open>Not every thread can be held up: as long as one waits, a connection is queued or somebody holds one.\<close>

lemma not_all_stuck:
  assumes ok: "crew_ok n ms w" and stuck: "\<forall>t < length ms. stuck ms w t" and t: "t < length ms"
  shows "\<not> waits ms w t"
proof
  assume "waits ms w t"
  then have "m_pool (bk_pool (pw_state w)) = []" using stuck t unfolding stuck_def by blast
  then have "0 < holders w" using ok by (auto simp: crew_ok_def Let_def)
  then obtain u where u: "u < length ms" "pw_held w ! u \<noteq> None"
    using held_somewhere[of w] crew_lengths[OF ok] by auto
  moreover have "stuck ms w u" using stuck u(1) by simp
  ultimately show False using crew_waits[OF ok u] unfolding stuck_def by simp
qed

lemma rounds_weight:
  assumes good: "robust.good_threads ms" and short: "\<forall>m \<in> set ms. bounded 2 m"
  shows "crew_ok n ms w \<Longrightarrow> \<forall>r \<in> set rounds. {..<length ms} \<subseteq> set r \<Longrightarrow>
    \<exists>w'. pool_turns pq ms (concat rounds) w = Some w' \<and> crew_ok n ms w' \<and> total_weight ms w' \<le> total_weight ms w - length rounds"
proof (induction rounds arbitrary: w)
  case (Cons r rounds)
  obtain w1 where 1: "pool_turns pq ms r w = Some w1" "crew_ok n ms w1"
    "w1 = w \<and> (\<forall>t \<in> set r. stuck ms w t) \<or> total_weight ms w1 < total_weight ms w"
    using turns_weight[OF good short Cons.prems(1)] by blast
  obtain w' where 2: "pool_turns pq ms (concat rounds) w1 = Some w'" "crew_ok n ms w'"
    "total_weight ms w' \<le> total_weight ms w1 - length rounds"
    using Cons.IH[OF 1(2)] Cons.prems(2) by auto
  have "total_weight ms w1 \<le> total_weight ms w - 1"
  proof (cases "total_weight ms w1 < total_weight ms w")
    case False
    then have "w1 = w" "\<forall>t < length ms. stuck ms w t" using 1(3) Cons.prems(2) by auto
    then have "total_weight ms w1 = 0"
      using not_all_stuck[OF Cons.prems(1)] by (simp add: total_weight_def weight_def)
    then show ?thesis by simp
  qed simp
  then have "total_weight ms w' \<le> total_weight ms w - length (r # rounds)" using 2(3) by simp
  then show ?case using 1(1) 2(1,2) by (simp add: pool_turns_append)
qed simp

lemma crew_start:
  assumes "pg_ready pq rows_of up s"
  shows "crew_ok (length (m_pool (bk_pool s))) ms (pool_workers_start s ms)"
  using assms
  by (auto simp: crew_ok_def Let_def pg_ready_def pool_ready_def pool_inv_def pool_workers_start_def holders_def)

lemma crew_done:
  assumes ok: "crew_ok n ms w" and idle: "\<forall>t < length ms. \<not> waits ms w t"
  shows "pg_ready pq rows_of up (pw_state w)" and "length (m_pool (bk_pool (pw_state w))) = n"
proof -
  have "\<not> 0 < holders w"
  proof
    assume "0 < holders w"
    then obtain u where "u < length ms" "pw_held w ! u \<noteq> None" using held_somewhere[of w] crew_lengths[OF ok] by auto
    then show False using crew_waits[OF ok] idle by simp
  qed
  then show "length (m_pool (bk_pool (pw_state w))) = n" using ok by (auto simp: crew_ok_def Let_def)
  then show "pg_ready pq rows_of up (pw_state w)"
    using ok by (auto simp: crew_ok_def Let_def pg_ready_def pool_ready_def pool_inv_def)
qed

lemma crew_finishes:
  assumes good: "robust.good_threads ms" and short: "\<forall>m \<in> set ms. bounded 2 m" and ready: "pg_ready pq rows_of up s"
    and rounds: "\<forall>r \<in> set rounds. {..<length ms} \<subseteq> set r" "4 * length ms \<le> length rounds"
  shows "\<exists>w. pool_turns pq ms (concat rounds) (pool_workers_start s ms) = Some w \<and>
    pg_ready pq rows_of up (pw_state w) \<and> length (m_pool (bk_pool (pw_state w))) = length (m_pool (bk_pool s)) \<and>
    (\<forall>t < length ms. \<exists>x. status (ms ! t) (pw_heard w ! t) = Finished x)"
proof -
  let ?w = "pool_workers_start s ms"
  obtain w where w: "pool_turns pq ms (concat rounds) ?w = Some w" "crew_ok (length (m_pool (bk_pool s))) ms w"
    "total_weight ms w \<le> total_weight ms ?w - length rounds"
    using rounds_weight[OF good short crew_start[OF ready] rounds(1)] by blast
  have "total_weight ms ?w \<le> (\<Sum>t < length ms. 4)"
    unfolding total_weight_def by (rule sum_mono) (simp add: weight_def pool_workers_start_def)
  then have "total_weight ms w = 0" using w(3) rounds(2) by simp
  then have idle: "\<forall>t < length ms. \<not> waits ms w t"
    using short weight_eq_0[of ms _ w] by (simp add: total_weight_def)
  have "\<exists>x. status (ms ! t) (pw_heard w ! t) = Finished x" if t: "t < length ms" for t
  proof (cases "status (ms ! t) (pw_heard w ! t)")
    case Blocked
    have "list_all reply_ok (pw_heard w ! t)" using w(2) t by (simp add: crew_ok_def Let_def)
    then show ?thesis using good t Blocked unfolding robust.good_threads_def by (meson nth_mem)
  qed (use idle t in \<open>auto simp: waits_def\<close>)
  then show ?thesis using w(1) crew_done[OF w(2) idle] by blast
qed

end

section \<open>The requests\<close>

text \<open>C8: with more requests than connections the threads share the pool: in whatever order they take turns,
  when all of them get one again and again every request is answered, no later than four rounds for each
  request; and afterwards every connection is back in the pool.\<close>

theorem workers_never_starve:
  assumes "sql_items_strict pq rows_of up view storable" and "pg_ready pq rows_of up s"
    and "\<forall>c \<in> set calls. in_clock (call_time c)"
    and "\<forall>r \<in> set rounds. {..<length calls} \<subseteq> set r" and "4 * length calls \<le> length rounds"
  shows "\<exists>w. pool_turns pq (request_threads lib ctime ub calls) (concat rounds)
      (pool_workers_start s (request_threads lib ctime ub calls)) = Some w \<and>
    (\<forall>t < length calls. \<exists>resp. status (request_threads lib ctime ub calls ! t) (pw_heard w ! t) = Finished resp) \<and>
    pg_ready pq rows_of up (pw_state w) \<and> table_ok (pg_table pq rows_of (pw_state w)) \<and>
    length (m_pool (bk_pool (pw_state w))) = length (m_pool (bk_pool s))"
proof -
  let ?ms = "request_threads lib ctime ub calls"
  have good: "robust_repository.good_threads ?ms"
    unfolding robust_repository.good_threads_def[OF sql_items_strict.traffic[OF assms(1)]]
    using assms(3) status_ok by (fastforce simp: request_threads_def)
  have short: "\<forall>m \<in> set ?ms. bounded 2 m" using handle_bounded by (auto simp: request_threads_def)
  have len: "length ?ms = length calls" by (simp add: request_threads_def)
  obtain w where w: "pool_turns pq ?ms (concat rounds) (pool_workers_start s ?ms) = Some w" "pg_ready pq rows_of up (pw_state w)"
    "length (m_pool (bk_pool (pw_state w))) = length (m_pool (bk_pool s))"
    "\<forall>t < length ?ms. \<exists>x. status (?ms ! t) (pw_heard w ! t) = Finished x"
    using sql_items_strict.crew_finishes[OF assms(1) good short assms(2)] assms(4,5) len by metis
  have "table_ok (pg_table pq rows_of (pw_state w))"
    by (rule item_repository.table_wf[OF sql_items.contract[OF sql_items_strict.axioms(1)[OF assms(1)]] w(2)])
  then show ?thesis using w len by auto
qed

text \<open>Three requests over the two connections of the shop.\<close>

theorem workers_never_starve_witness:
  "\<exists>w. pool_turns server_pq (request_threads std_json shop_ctime 0 shop_calls) (concat (replicate 12 [0, 1, 2]))
      (pool_workers_start empty_shop (request_threads std_json shop_ctime 0 shop_calls)) = Some w \<and>
    table_ok (pg_table server_pq server_rows (pw_state w)) \<and>
    length (m_pool (bk_pool (pw_state w))) = length (m_pool (bk_pool empty_shop))"
proof -
  have "\<forall>c \<in> set shop_calls. in_clock (call_time c)" by (simp add: in_clock_def)
  moreover have "\<forall>r \<in> set (replicate 12 [0, 1, 2 :: nat]). {..<length shop_calls} \<subseteq> set r" by auto
  ultimately show ?thesis
    using workers_never_starve[OF strict_shop_server empty_shop_ready, of shop_calls "replicate 12 [0, 1, 2]" std_json shop_ctime 0]
    by auto
qed

end
