(* ===== verification/LowStock.thy ===== *)
theory LowStock
  imports Inventory
begin

text \<open>
  \<^verbatim>\<open>find_low_stock\<close> of \<^verbatim>\<open>postgres_item_repository.cpp\<close>: the condition is written in SQL, and it selects what
  \<^verbatim>\<open>is_low_stock\<close> of \<^verbatim>\<open>core/entities/item.hpp\<close> says of an active item.
\<close>

section \<open>The contract\<close>

definition low_stock_list :: "(Uuid \<Rightarrow> Item option) \<Rightarrow> Uuid list \<Rightarrow> bool" where
  "low_stock_list m ks \<longleftrightarrow> distinct ks \<and> set ks = {k. \<exists>i. m k = Some i \<and> is_low_stock i \<and> item_status i = kActive} \<and>
     sorted_wrt (\<lambda>k k'. sint (qty (stock (the (m k)))) \<le> sint (qty (stock (the (m k'))))) ks"

locale stock_repository = item_repository repo table ready storable
  for repo :: "'s ItemRepository" and table :: "'s \<Rightarrow> Uuid \<Rightarrow> Item option" and ready :: "'s \<Rightarrow> bool"
    and storable :: "Item \<Rightarrow> bool" +
  assumes gives_low: "ready s \<Longrightarrow> \<exists>ks s'. find_low_stock repo s = Some (Inr (map (the \<circ> table s) ks), s') \<and>
      ready s' \<and> table s' = table s \<and> low_stock_list (table s) ks"

section \<open>PostgreSQL on the statement\<close>

definition number_in :: "('d, 't) pqxx \<Rightarrow> string option \<Rightarrow> int" where
  "number_in pq v = (case v of None \<Rightarrow> 0 | Some x \<Rightarrow> (case parse_int64 pq x of Inl _ \<Rightarrow> 0 | Inr n \<Rightarrow> sint n))"

definition low_row :: "('d, 't) pqxx \<Rightarrow> row \<Rightarrow> bool" where
  "low_row pq r \<longleftrightarrow> number_in pq (r ''stock_quantity'') \<le> number_in pq (r ''min_stock_quantity'') \<and> r ''status'' = Some ''active''"

definition selects_low :: "('d, 't) pqxx \<Rightarrow> (string \<Rightarrow> row option) \<Rightarrow> string list \<Rightarrow> bool" where
  "selects_low pq m xs \<longleftrightarrow> distinct xs \<and> set xs = {x. \<exists>r. m x = Some r \<and> low_row pq r} \<and>
     sorted_wrt (\<lambda>x y. number_in pq (the (m x) ''stock_quantity'') \<le> number_in pq (the (m y) ''stock_quantity'')) xs"

lemma number_in_holds: "holds_int pq v n \<Longrightarrow> number_in pq v = sint n"
  by (auto simp: holds_int_def number_in_def)

lemma active_text: "status_to_string st = ''active'' \<longleftrightarrow> st = kActive"
  by (cases st) simp_all

lemma low_row_item: "row_holds pq i r \<Longrightarrow> low_row pq r \<longleftrightarrow> is_low_stock i \<and> item_status i = kActive"
  by (auto simp: row_holds_def low_row_def number_in_holds is_low_stock_def word_sle_eq active_text)

locale sql_low = sql_items pq rows_of up view storable
  for pq :: "('d, 't) pqxx" and rows_of :: "'d \<Rightarrow> string \<Rightarrow> row option" and up :: "'d \<Rightarrow> bool"
    and view :: "'t \<Rightarrow> 'd" and storable :: "Item \<Rightarrow> bool" +
  assumes sel_low: "up (view t) \<Longrightarrow> \<exists>t' res xs. exec_sql pq sql_item_low_stock [] t = Inr (res, t') \<and> view t' = view t \<and>
      selects_low pq (rows_of (view t)) xs \<and> rows res = map (\<lambda>x. the (rows_of (view t) x)) xs"
begin

lemma low_keys:
  assumes ok: "rows_ok pq m" and sel: "selects_low pq m xs"
  obtains ks where "xs = map to_string ks" and "low_stock_list (items_of pq m) ks"
    and "\<forall>k \<in> set ks. row_to_item pq (the (m (to_string k))) = Inr (the (items_of pq m k))"
proof -
  have "distinct xs" "set xs = {x. \<exists>r. m x = Some r \<and> low_row pq r}" using sel by (simp_all add: selects_low_def)
  from keyed_selection[where pick = "\<lambda>i. is_low_stock i \<and> item_status i = kActive", OF ok this low_row_item]
  obtain ks where ks: "xs = map to_string ks" "distinct ks"
    "set ks = {k. \<exists>i. items_of pq m k = Some i \<and> is_low_stock i \<and> item_status i = kActive}"
    "\<forall>k \<in> set ks. row_to_item pq (the (m (to_string k))) = Inr (the (items_of pq m k))" by blast
  have num: "number_in pq (the (m (to_string k)) ''stock_quantity'') = sint (qty (stock (the (items_of pq m k))))" if "k \<in> set ks" for k
  proof -
    note k = that
    obtain i where i: "items_of pq m k = Some i" using k ks(3) by auto
    obtain r where "m (to_string k) = Some r" "row_holds pq i r" using items_of_SomeE[OF ok i] by metis
    then show ?thesis using i by (auto simp: row_holds_def number_in_holds)
  qed
  have "sorted_wrt (\<lambda>x y. number_in pq (the (m x) ''stock_quantity'') \<le> number_in pq (the (m y) ''stock_quantity'')) (map to_string ks)"
    using sel ks(1) by (simp add: selects_low_def)
  then have "sorted_wrt (\<lambda>k k'. number_in pq (the (m (to_string k)) ''stock_quantity'') \<le> number_in pq (the (m (to_string k')) ''stock_quantity'')) ks"
    by (simp only: sorted_wrt_map)
  then have "sorted_wrt (\<lambda>k k'. sint (qty (stock (the (items_of pq m k)))) \<le> sint (qty (stock (the (items_of pq m k'))))) ks"
    by (rule sorted_wrt_mono_rel[rotated]) (simp add: num)
  then show ?thesis using that[OF ks(1) _ ks(4)] ks(2,3) unfolding low_stock_list_def by blast
qed

lemma run_low_stock:
  assumes ready: "pg_ready pq rows_of up s"
  shows "\<exists>ks s'. find_low_stock (pg_item_repo pq) s = Some (Inr (map (the \<circ> pg_table pq rows_of s) ks), s') \<and>
    pg_ready pq rows_of up s' \<and> pg_table pq rows_of s' = pg_table pq rows_of s \<and> low_stock_list (pg_table pq rows_of s) ks"
proof -
  let ?d = "bk_db s" and ?conv = "\<lambda>res. sum_list_map (row_to_item pq) (rows res)"
  have up: "up ?d" and ok: "rows_ok pq (rows_of ?d)" and pool: "pool_ready (bk_pool s)"
    using ready by (simp_all add: pg_ready_def)
  define P where "P r d \<longleftrightarrow> d = ?d \<and> (\<exists>ks. low_stock_list (pg_table pq rows_of s) ks \<and>
      r = Inr (Inr (map (the \<circ> pg_table pq rows_of s) ks)))" for r :: "db_exn + Item list Result" and d
  have body: "\<exists>r d. txn_convert_first pq sql_item_low_stock [] ?conv c ?d = (r, d) \<and> P r d \<and> (\<forall>c. conn_open pq d c)" for c
  proof -
    obtain t where t: "work pq c ?d = Inr t" "view t = ?d" using begin_work[OF up] by blast
    obtain t' res xs where t': "exec_sql pq sql_item_low_stock [] t = Inr (res, t')" "view t' = ?d"
      "selects_low pq (rows_of ?d) xs" "rows res = map (\<lambda>x. the (rows_of ?d x)) xs"
      using sel_low[of t] t(2) up by auto
    obtain ks where ks: "xs = map to_string ks" "low_stock_list (pg_table pq rows_of s) ks"
      "\<forall>k \<in> set ks. row_to_item pq (the (rows_of ?d (to_string k))) = Inr (the (pg_table pq rows_of s k))"
      using low_keys[OF ok t'(3)] unfolding pg_table_def by metis
    have "?conv res = Inr (map (the \<circ> pg_table pq rows_of s) ks)"
      unfolding t'(4) ks(1) map_map by (rule sum_list_map_rows) (use ks(3) in auto)
    then show ?thesis using t t' ks(2) commits[of t'] up open_conn by (auto simp: txn_convert_first_def P_def)
  qed
  obtain r s' where "with_session pq (sql_failure ''find_low_stock'') (other_failure ''find_low_stock'')
      (txn_convert_first pq sql_item_low_stock [] ?conv) s = Some (catch_exn (sql_failure ''find_low_stock'') (other_failure ''find_low_stock'') r, s')"
    "pool_ready (bk_pool s')" "P r (bk_db s')"
    using with_session_some[where body = "txn_convert_first pq sql_item_low_stock [] ?conv" and Q = P, OF pool open_conn[OF up] body]
    by blast
  then show ?thesis
    using ok up by (auto simp: P_def pg_item_repo_def pg_find_low_stock_def session_def pg_ready_def pg_table_def)
qed

end

sublocale sql_low \<subseteq> low: stock_repository "pg_item_repo pq" "pg_table pq rows_of" "pg_ready pq rows_of up" storable
  by unfold_locales (fact run_low_stock)

context sql_low begin

lemma stock_contract: "stock_repository (pg_item_repo pq) (pg_table pq rows_of) (pg_ready pq rows_of up) storable"
  by (rule low.stock_repository_axioms)

end

section \<open>The executable server\<close>

lemma server_number: "number_in server_pq v = cell_number v"
  by (cases v) (auto simp: number_in_def cell_number_def server_pq_def split: sum.split)

lemma low_stock_statement:
  "server_exec sql_item_low_stock [] d = Inr (no_rows\<lparr>rows := map snd (server_low d)\<rparr>, d)"
  by (simp add: server_exec_def)

lemma server_selects_low:
  assumes "server_up cats sups d"
  shows "selects_low server_pq (server_rows d) (map fst (server_low d))"
    and "map snd (server_low d) = map (\<lambda>x. the (server_rows d x)) (map fst (server_low d))"
proof -
  let ?P = "\<lambda>(x, r). cell_number (r ''stock_quantity'') \<le> cell_number (r ''min_stock_quantity'') \<and> r ''status'' = Some ''active''"
  let ?sel = "server_low d"
  have dist: "distinct (map fst (srv_items d))" using assms by (simp add: server_up_def)
  have row: "server_rows d x = Some r \<longleftrightarrow> (x, r) \<in> set (srv_items d)" for x r
    using map_of_eq_Some_iff[OF dist] by (simp add: server_rows_def)
  have set: "set ?sel = {p \<in> set (srv_items d). ?P p}" by (simp add: server_low_def)
  have "distinct (map fst (filter ?P (srv_items d)))" by (rule distinct_map_filter[OF dist])
  then have "distinct (map fst ?sel)" by (simp add: server_low_def distinct_map)
  moreover have "low_row server_pq r \<longleftrightarrow> ?P (x, r)" for x r by (simp add: low_row_def server_number)
  then have "set (map fst ?sel) = {x. \<exists>r. server_rows d x = Some r \<and> low_row server_pq r}"
    unfolding set_map set row by force
  moreover have "sorted (map (\<lambda>(x, r). cell_number (r ''stock_quantity'')) ?sel)" by (simp add: server_low_def)
  then have "sorted_wrt (\<lambda>p q. cell_number (snd p ''stock_quantity'') \<le> cell_number (snd q ''stock_quantity'')) ?sel"
    by (simp add: sorted_map case_prod_unfold)
  then have "sorted_wrt (\<lambda>p q. cell_number (the (server_rows d (fst p)) ''stock_quantity'') \<le> cell_number (the (server_rows d (fst q)) ''stock_quantity'')) ?sel"
    by (rule sorted_wrt_mono_rel[rotated]) (auto simp: set row[THEN iffD2])
  ultimately show "selects_low server_pq (server_rows d) (map fst ?sel)"
    by (simp add: selects_low_def sorted_wrt_map server_number)
  show "map snd ?sel = map (\<lambda>x. the (server_rows d x)) (map fst ?sel)"
    by (auto simp: set row[THEN iffD2])
qed

interpretation low_srv: sql_low server_pq server_rows "server_up cats sups" "\<lambda>d. d" "server_storable cats sups"
  for cats sups
proof unfold_locales
  fix t :: Server assume up: "server_up cats sups t"
  show "\<exists>t' res xs. exec_sql server_pq sql_item_low_stock [] t = Inr (res, t') \<and> t' = t \<and>
      selects_low server_pq (server_rows t) xs \<and> rows res = map (\<lambda>x. the (server_rows t x)) xs"
    using server_selects_low[OF up] low_stock_statement[of t] by (auto simp: server_pq_def)
qed

section \<open>Property\<close>

text \<open>C11: the low-stock report over PostgreSQL holds exactly the stored active items that \<^verbatim>\<open>is_low_stock\<close> is
  true of, each once, those with the least stock first; the table is not changed.\<close>

theorem low_stock_report:
  assumes "sql_low pq rows_of up view storable" and "pg_ready pq rows_of up s"
  shows "\<exists>items s'. find_low_stock (pg_item_repo pq) s = Some (Inr items, s') \<and> pg_ready pq rows_of up s' \<and>
    pg_table pq rows_of s' = pg_table pq rows_of s \<and> distinct (map item_id items) \<and>
    set items = {i. pg_table pq rows_of s (item_id i) = Some i \<and> is_low_stock i \<and> item_status i = kActive} \<and>
    sorted_wrt (\<lambda>i j. qty (stock i) \<le>s qty (stock j)) items"
proof -
  note c = sql_low.stock_contract[OF assms(1)]
  let ?m = "pg_table pq rows_of s"
  obtain ks s' where r: "find_low_stock (pg_item_repo pq) s = Some (Inr (map (the \<circ> ?m) ks), s')" "pg_ready pq rows_of up s'"
    "pg_table pq rows_of s' = ?m" "low_stock_list ?m ks"
    using stock_repository.gives_low[OF c assms(2)] by blast
  have own: "item_id i = k" if "?m k = Some i" for k i
    using item_repository.table_wf[OF stock_repository.axioms(1)[OF c] assms(2)] that by (simp add: table_ok_def)
  have ks: "set ks = {k. \<exists>i. ?m k = Some i \<and> is_low_stock i \<and> item_status i = kActive}" and dist: "distinct ks"
    using r(4) by (simp_all add: low_stock_list_def)
  have key: "item_id (the (?m k)) = k" if "k \<in> set ks" for k using that ks own by force
  then have "map item_id (map (the \<circ> ?m) ks) = ks" by (simp add: map_idI)
  then have "distinct (map item_id (map (the \<circ> ?m) ks))" using dist by simp
  moreover have "set (map (the \<circ> ?m) ks) = {i. ?m (item_id i) = Some i \<and> is_low_stock i \<and> item_status i = kActive}"
  proof (intro set_eqI iffI)
    fix i assume "i \<in> set (map (the \<circ> ?m) ks)"
    then obtain k where k: "k \<in> set ks" "i = the (?m k)" by auto
    then obtain j where "?m k = Some j" "is_low_stock j" "item_status j = kActive" using ks by auto
    then show "i \<in> {i. ?m (item_id i) = Some i \<and> is_low_stock i \<and> item_status i = kActive}" using k(2) own by simp
  next
    fix i assume i: "i \<in> {i. ?m (item_id i) = Some i \<and> is_low_stock i \<and> item_status i = kActive}"
    then have "item_id i \<in> set ks" using ks by auto
    then show "i \<in> set (map (the \<circ> ?m) ks)" using i by (auto intro!: image_eqI[of _ _ "item_id i"])
  qed
  moreover have "sorted_wrt (\<lambda>i j. qty (stock i) \<le>s qty (stock j)) (map (the \<circ> ?m) ks)"
    using r(4) by (simp add: low_stock_list_def sorted_wrt_map word_sle_eq)
  ultimately show ?thesis using r(1-3) by blast
qed

text \<open>A shop with one item whose stock is below its minimum.\<close>

definition low_item :: Item where
  "low_item = shop_item\<lparr>min_stock := \<lparr>qty = 200, unit_of = ''pcs''\<rparr>\<rparr>"

definition low_cells :: row where
  "low_cells = (item_cells (item_params low_item))(''created_at'' \<mapsto> ''1970-01-01 00:00:00+00'',
     ''updated_at'' \<mapsto> ''1970-01-01 00:00:00+00'')"

definition low_shop :: "Server Backend" where
  "low_shop = empty_shop\<lparr>bk_db := (bk_db empty_shop)\<lparr>srv_items := [(to_string (item_id low_item), low_cells)]\<rparr>\<rparr>"

lemma low_item_facts: "item_ok low_item" "is_low_stock low_item" "item_status low_item = kActive"
    "low_item\<lparr>created_at := 0, updated_at := 0\<rparr> = low_item"
  using shop_item_facts(1,4)
  by (simp_all add: low_item_def item_ok_def quantity_ok_iff is_low_stock_def word_sle_eq)
    (simp_all add: shop_item_def requested_item_def Item_new_def shop_request_def)

lemma low_cells_hold: "row_holds server_pq low_item low_cells"
  unfolding low_cells_def using low_item_facts(1)
  by (intro server_row_holds) (simp_all add: holds_time_def epoch_text)

lemma row_to_item_low: "row_to_item server_pq low_cells = Inr low_item"
proof -
  have "low_cells ''created_at'' = Some ''1970-01-01 00:00:00+00''" "low_cells ''updated_at'' = Some ''1970-01-01 00:00:00+00''"
    by (simp_all add: low_cells_def)
  then show ?thesis
    using row_to_item_holds[OF low_cells_hold low_item_facts(1)] low_item_facts(4) by (simp add: read_time_def epoch_text)
qed

lemma low_shop_state: "shop_ready low_shop" "pg_table server_pq server_rows low_shop = [item_id low_item \<mapsto> low_item]"
proof -
  have "rows_ok server_pq (\<lambda>_. None)" "sku_unused (\<lambda>_. None) (to_string (item_id low_item)) (sku low_item)"
    by (simp_all add: rows_ok_def sku_unused_def)
  from items_of_insert[OF this(1) low_cells_hold low_item_facts(1) row_to_item_low this(2)]
  have "rows_ok server_pq (server_rows (bk_db low_shop))"
    "items_of server_pq (server_rows (bk_db low_shop)) = [item_id low_item \<mapsto> low_item]"
    by (simp_all add: server_rows_def low_shop_def no_items)
  then show "shop_ready low_shop" "pg_table server_pq server_rows low_shop = [item_id low_item \<mapsto> low_item]"
    using empty_shop_ready by (simp_all add: pg_ready_def pg_table_def low_shop_def server_up_def)
qed

theorem low_stock_report_witness:
  "\<exists>s'. find_low_stock (pg_item_repo server_pq) low_shop = Some (Inr [low_item], s')"
proof -
  obtain items s' where r: "find_low_stock (pg_item_repo server_pq) low_shop = Some (Inr items, s')" "distinct (map item_id items)"
    "set items = {i. pg_table server_pq server_rows low_shop (item_id i) = Some i \<and> is_low_stock i \<and> item_status i = kActive}"
    using low_stock_report[OF low_srv.sql_low_axioms low_shop_state(1)] by blast
  have "set items = {low_item}" using r(3) low_item_facts(2,3) by (auto simp: low_shop_state(2) split: if_splits)
  moreover have "distinct items" using r(2) by (simp add: distinct_map)
  ultimately have "items = [low_item]"
    using distinct_card[of items] by (cases items; cases "tl items") auto
  then show ?thesis using r(1) by blast
qed

end
