(* ===== verification/Accounts.thy ===== *)
theory Accounts
  imports Login Server
begin

text \<open>
  The writing operations of \<^verbatim>\<open>src/infrastructure/repositories/postgres_user_repository.cpp\<close> and what they mean
  for logging in. The locale \<open>sql_accounts\<close> states what PostgreSQL does on the statements sent, on the
  \<^verbatim>\<open>users\<close> table with its unique columns; \<open>user_store\<close> is the contract the repository then keeps.
\<close>

section \<open>Rows that hold a user\<close>

definition user_row :: "('d, 't) pqxx \<Rightarrow> User \<Rightarrow> row \<Rightarrow> bool" where
  "user_row pq u r \<longleftrightarrow>
     r ''id'' = Some (to_string (user_id u)) \<and> r ''username'' = Some (username u) \<and>
     r ''email'' = Some (email_value (user_email u)) \<and> r ''password_hash'' = Some (password_hash u) \<and>
     r ''role'' = Some (role_to_string (user_role u)) \<and>
     (\<exists>x. r ''is_active'' = Some x \<and> parse_bool pq x = Inr (user_active u)) \<and>
     holds_time (r ''created_at'') \<and> holds_time (r ''updated_at'')"

definition user_ok :: "User \<Rightarrow> bool" where
  "user_ok u \<longleftrightarrow> email_is_valid (email_value (user_email u))"

definition same_user :: "User \<Rightarrow> User \<Rightarrow> bool" where
  "same_user u v \<longleftrightarrow> u\<lparr>user_created_at := 0, user_updated_at := 0\<rparr> = v\<lparr>user_created_at := 0, user_updated_at := 0\<rparr>"

lemma same_user_fields:
  "same_user u v \<Longrightarrow> user_id v = user_id u \<and> username v = username u \<and> user_email v = user_email u \<and>
     password_hash v = password_hash u \<and> user_role v = user_role u \<and> user_active v = user_active u"
  by (cases u; cases v) (simp add: same_user_def)

lemma email_or_unknown_valid: "email_is_valid x \<Longrightarrow> email_or_unknown x = \<lparr>email_value = x\<rparr>"
  by (simp add: email_or_unknown_def Email_create_def value_or_def)

lemma row_to_user_holds:
  assumes "user_row pq u r" and "user_ok u"
  shows "\<exists>v. row_to_user pq r = Inr v \<and> same_user u v"
proof -
  obtain ct c ut t where times: "r ''created_at'' = Some ct" "parse_iso8601 ct = Inr c"
    "r ''updated_at'' = Some ut" "parse_iso8601 ut = Inr t"
    using assms(1) by (auto simp: user_row_def holds_time_def)
  have "email_or_unknown (email_value (user_email u)) = user_email u"
    using assms(2) by (simp add: user_ok_def email_or_unknown_valid)
  then have "row_to_user pq r = Inr (u\<lparr>user_created_at := c, user_updated_at := t\<rparr>)"
    using assms(1) times
    by (cases u) (auto simp: user_row_def row_to_user_def as_text_def as_text_or_def as_bool_or_def from_to_string)
  then show ?thesis by (simp add: same_user_def)
qed

lemma row_to_user_email: "row_to_user pq r = Inr w \<Longrightarrow> r ''email'' = Some y \<Longrightarrow> user_email w = email_or_unknown y"
  unfolding row_to_user_def sum_bind_eq_Inr by (elim exE conjE) (auto simp: as_text_def)

section \<open>The contract\<close>

text \<open>No other user has the name or the address.\<close>

definition unclaimed :: "User set \<Rightarrow> User \<Rightarrow> bool" where
  "unclaimed us u \<longleftrightarrow> (\<forall>v \<in> us. user_id v \<noteq> user_id u \<longrightarrow> username v \<noteq> username u \<and> user_email v \<noteq> user_email u)"

locale user_store = user_directory users members ready
  for users :: "'s UserRepository" and members :: "'s \<Rightarrow> User set" and ready :: "'s \<Rightarrow> bool" +
  fixes storable :: "User \<Rightarrow> bool"
  assumes saves: "ready s \<Longrightarrow> storable u \<Longrightarrow> user_ok u \<Longrightarrow> unclaimed (members s) u \<Longrightarrow> \<forall>v \<in> members s. user_id v \<noteq> user_id u \<Longrightarrow>
      \<exists>v s'. u_save users u s = Some (Inr v, s') \<and> ready s' \<and> same_user u v \<and> members s' = insert v (members s)"
    and updates: "ready s \<Longrightarrow> storable u \<Longrightarrow> user_ok u \<Longrightarrow> unclaimed (members s) u \<Longrightarrow> u0 \<in> members s \<Longrightarrow> user_id u0 = user_id u \<Longrightarrow>
      \<exists>v s'. u_update users u s = Some (Inr v, s') \<and> ready s' \<and> same_user u v \<and> members s' = insert v (members s - {u0})"
    and removes: "ready s \<Longrightarrow> \<exists>r s'. u_remove users k s = Some (r, s') \<and> ready s' \<and>
      members s' = {u \<in> members s. user_id u \<noteq> k} \<and>
      (if \<exists>u \<in> members s. user_id u = k then r = Inr () else \<exists>m. r = Inl (not_found m))"
begin

lemma login_with_credentials:
  assumes "ready s" and "credentials_ok sha (members s) n pw u"
  shows "\<exists>s'. auth_execute users (AuthServiceImpl sha jwt cfg clk users) n pw s = Some (Inr (tokens_for jwt cfg clk u), s') \<and>
    ready s' \<and> members s' = members s"
proof -
  have "w = u" if "credentials_ok sha (members s) n pw w" for w
    using that assms(2) same_name[OF assms(1), of w u] by (simp add: credentials_ok_def)
  note only = this
  obtain r s' where r: "auth_execute users (AuthServiceImpl sha jwt cfg clk users) n pw s = Some (r, s')" "ready s'" "members s' = members s"
    "case r of Inr t \<Rightarrow> credentials_ok sha (members s) n pw (token_user t) \<and> t = tokens_for jwt cfg clk (token_user t)
     | Inl e \<Rightarrow> (\<forall>u. \<not> credentials_ok sha (members s) n pw u) \<and> err_code e = refusal (members s) n pw"
    using login_cases[OF assms(1)] by blast
  show ?thesis
  proof (cases r)
    case (Inl e)
    then show ?thesis using r(4) assms(2) by simp
  next
    case (Inr t)
    then show ?thesis using r only[of "token_user t"] by simp
  qed
qed

lemma login_refused:
  assumes "ready s" and "\<forall>u. \<not> credentials_ok sha (members s) n pw u"
  shows "\<exists>e s'. auth_execute users (AuthServiceImpl sha jwt cfg clk users) n pw s = Some (Inl e, s') \<and>
    err_code e = refusal (members s) n pw \<and> ready s' \<and> members s' = members s"
proof -
  obtain r s' where r: "auth_execute users (AuthServiceImpl sha jwt cfg clk users) n pw s = Some (r, s')" "ready s'" "members s' = members s"
    "case r of Inr t \<Rightarrow> credentials_ok sha (members s) n pw (token_user t) \<and> t = tokens_for jwt cfg clk (token_user t)
     | Inl e \<Rightarrow> (\<forall>u. \<not> credentials_ok sha (members s) n pw u) \<and> err_code e = refusal (members s) n pw"
    using login_cases[OF assms(1)] by blast
  then show ?thesis using assms(2) by (cases r) auto
qed

text \<open>The life of an account: after it is saved its password opens it, after it is deactivated the login is
  forbidden, and after it is removed it is unknown.\<close>

lemma account_life:
  assumes "ready s" and st: "storable u" "storable (set_active False u)" and "user_ok u" and "unclaimed (members s) u"
    and fresh: "\<forall>v \<in> members s. user_id v \<noteq> user_id u"
    and cred: "user_active u" "username u \<noteq> []" "pw \<noteq> []" "password_hash u = hash_password sha pw"
  shows "\<exists>v s1 s2 v' s3 e s4 s5 e' s6. u_save users u s = Some (Inr v, s1) \<and> same_user u v \<and>
    auth_execute users (AuthServiceImpl sha jwt cfg clk users) (username u) pw s1 = Some (Inr (tokens_for jwt cfg clk v), s2) \<and>
    u_update users (set_active False u) s2 = Some (Inr v', s3) \<and>
    auth_execute users (AuthServiceImpl sha jwt cfg clk users) (username u) pw s3 = Some (Inl e, s4) \<and> err_code e = kForbidden \<and>
    u_remove users (user_id u) s4 = Some (Inr (), s5) \<and>
    auth_execute users (AuthServiceImpl sha jwt cfg clk users) (username u) pw s5 = Some (Inl e', s6) \<and> err_code e' = kUnauthorized \<and>
    ready s6 \<and> members s6 = members s"
proof -
  let ?login = "auth_execute users (AuthServiceImpl sha jwt cfg clk users) (username u) pw" and ?u = "set_active False u"
  have others: "username w \<noteq> username u" "user_email w \<noteq> user_email u" if "w \<in> members s" for w
    using that assms(5) fresh by (simp_all add: unclaimed_def)
  obtain v s1 where v: "u_save users u s = Some (Inr v, s1)" "ready s1" "same_user u v" "members s1 = insert v (members s)"
    using saves[OF assms(1) st(1) assms(4,5) fresh] by blast
  note vf = same_user_fields[OF v(3)]
  have "credentials_ok sha (members s1) (username u) pw v" using vf v(4) cred by (simp add: credentials_ok_def)
  then obtain s2 where s2: "?login s1 = Some (Inr (tokens_for jwt cfg clk v), s2)" "ready s2" "members s2 = insert v (members s)"
    using login_with_credentials[OF v(2)] v(4) by metis
  have uf: "user_id ?u = user_id u" "username ?u = username u" "user_email ?u = user_email u" "\<not> user_active ?u"
    by (simp_all add: set_active_def)
  have "unclaimed (members s2) ?u" using s2(3) others vf by (auto simp: unclaimed_def uf)
  moreover have "user_ok ?u" using assms(4) by (simp add: user_ok_def uf)
  ultimately obtain v' s3 where v': "u_update users ?u s2 = Some (Inr v', s3)" "ready s3" "same_user ?u v'"
    "members s3 = insert v' (members s2 - {v})"
    using updates[OF s2(2) st(2), of v] s2(3) vf uf(1) by auto
  note vf' = same_user_fields[OF v'(3)]
  have m3: "members s3 = insert v' (members s)" using v'(4) s2(3) fresh vf by auto
  have named: "w = v'" if "w \<in> members s3" "username w = username u" for w using that m3 others by auto
  have "\<not> credentials_ok sha (members s3) (username u) pw w" for w
    using named[of w] vf' uf by (auto simp: credentials_ok_def)
  then obtain e s4 where s4: "?login s3 = Some (Inl e, s4)" "err_code e = refusal (members s3) (username u) pw" "ready s4" "members s4 = members s3"
    using login_refused[OF v'(2)] by blast
  have "\<exists>w \<in> members s3. username w = username u \<and> \<not> user_active w" using vf' uf m3 by auto
  then have e: "err_code e = kForbidden" using s4(2) cred by (simp add: refusal_def)
  have "\<exists>w \<in> members s4. user_id w = user_id u" using s4(4) m3 vf' uf by auto
  then obtain s5 where s5: "u_remove users (user_id u) s4 = Some (Inr (), s5)" "ready s5"
    "members s5 = {w \<in> members s4. user_id w \<noteq> user_id u}"
    using removes[OF s4(3), of "user_id u"] by auto
  have m5: "members s5 = members s" using s5(3) s4(4) m3 fresh vf' uf by auto
  then have none: "\<forall>w \<in> members s5. username w \<noteq> username u" using others by blast
  then have "\<forall>w. \<not> credentials_ok sha (members s5) (username u) pw w" by (auto simp: credentials_ok_def)
  then obtain e' s6 where s6: "?login s5 = Some (Inl e', s6)" "err_code e' = refusal (members s5) (username u) pw" "ready s6" "members s6 = members s5"
    using login_refused[OF s5(2)] by blast
  have "err_code e' = kUnauthorized" using s6(2) none cred by (auto simp: refusal_def)
  then show ?thesis using v(1,3) s2(1) v'(1) s4(1) e s5(1) s6(1,3,4) m5 by metis
qed

end

section \<open>PostgreSQL on the writing statements\<close>

text \<open>Rows other than the one with key \<open>k\<close> do not use the name \<open>n\<close> or the address \<open>e\<close>.\<close>

definition columns_free :: "row set \<Rightarrow> string \<Rightarrow> string \<Rightarrow> string \<Rightarrow> bool" where
  "columns_free rs k n e \<longleftrightarrow> (\<forall>r \<in> rs. r ''id'' \<noteq> Some k \<longrightarrow> r ''username'' \<noteq> Some n \<and> r ''email'' \<noteq> Some e)"

locale sql_accounts = sql_users pq rows_in up view
  for pq :: "('d, 't) pqxx" and rows_in :: "'d \<Rightarrow> row set" and up :: "'d \<Rightarrow> bool" and view :: "'t \<Rightarrow> 'd" +
  fixes storable :: "User \<Rightarrow> bool"
  assumes ins: "up (view t) \<Longrightarrow> storable u \<Longrightarrow> \<forall>r \<in> rows_in (view t). r ''id'' \<noteq> Some (to_string (user_id u)) \<Longrightarrow>
      columns_free (rows_in (view t)) (to_string (user_id u)) (username u) (email_value (user_email u)) \<Longrightarrow>
      \<exists>t' res r. exec_sql pq sql_user_insert
          (user_params u @ [PText (format_iso8601 (user_created_at u)), PText (format_iso8601 (user_updated_at u))]) t = Inr (res, t') \<and>
        rows res = [r] \<and> user_row pq u r \<and> up (view t') \<and> rows_in (view t') = insert r (rows_in (view t))"
    and upd: "up (view t) \<Longrightarrow> storable u \<Longrightarrow> r0 \<in> rows_in (view t) \<Longrightarrow> r0 ''id'' = Some (to_string (user_id u)) \<Longrightarrow>
      columns_free (rows_in (view t)) (to_string (user_id u)) (username u) (email_value (user_email u)) \<Longrightarrow>
      \<forall>r \<in> rows_in (view t). r ''id'' = Some (to_string (user_id u)) \<longrightarrow> r = r0 \<Longrightarrow> holds_time (r0 ''created_at'') \<Longrightarrow>
      \<exists>t' res r. exec_sql pq sql_user_update (user_params u @ [PText (format_iso8601 (user_updated_at u))]) t = Inr (res, t') \<and>
        rows res = [r] \<and> user_row pq u r \<and> up (view t') \<and> rows_in (view t') = insert r (rows_in (view t) - {r0})"
    and del: "up (view t) \<Longrightarrow> \<exists>t' res. exec_sql pq sql_user_delete [PText (to_string k)] t = Inr (res, t') \<and> up (view t') \<and>
      rows_in (view t') = {r \<in> rows_in (view t). r ''id'' \<noteq> Some (to_string k)} \<and>
      (affected_rows res = 0 \<longleftrightarrow> (\<forall>r \<in> rows_in (view t). r ''id'' \<noteq> Some (to_string k)))"

lemma lift_exn_Inr [simp]: "lift_exn r = Inr x \<longleftrightarrow> r = Inr x"
  by (cases r) simp_all

lemma row_time: "row_to_user pq r = Inr u \<Longrightarrow> holds_time (r ''created_at'')"
  unfolding row_to_user_def sum_bind_eq_Inr holds_time_def
  by (elim exE conjE) (auto simp: as_text_def split: option.splits)

text \<open>The rows and the users they hold.\<close>

definition users_of :: "('d, 't) pqxx \<Rightarrow> row set \<Rightarrow> User set" where
  "users_of pq rs = {u. \<exists>r \<in> rs. row_to_user pq r = Inr u}"

lemma unclaimed_columns:
  assumes ok: "user_rows_ok pq rs" and "unclaimed (users_of pq rs) u" and "user_ok u"
  shows "columns_free rs (to_string (user_id u)) (username u) (email_value (user_email u))"
  unfolding columns_free_def
proof (intro ballI impI)
  fix r assume r: "r \<in> rs" "r ''id'' \<noteq> Some (to_string (user_id u))"
  obtain w where w: "row_to_user pq r = Inr w" "r ''id'' = Some (to_string (user_id w))" "r ''username'' = Some (username w)"
    using user_rowE[OF ok r(1)] by metis
  then have "w \<in> users_of pq rs" "user_id w \<noteq> user_id u" using r by (auto simp: users_of_def)
  then have "username w \<noteq> username u" "user_email w \<noteq> user_email u" using assms(2) by (auto simp: unclaimed_def)
  moreover have "user_email w = user_email u" if "r ''email'' = Some (email_value (user_email u))"
    using row_to_user_email[OF w(1) that] assms(3) by (simp add: user_ok_def email_or_unknown_valid)
  ultimately show "r ''username'' \<noteq> Some (username u) \<and> r ''email'' \<noteq> Some (email_value (user_email u))"
    using w(3) by auto
qed

lemma rows_insert:
  assumes ok: "user_rows_ok pq rs" and sub: "qs \<subseteq> rs" and r: "user_row pq u r" and v: "row_to_user pq r = Inr v" "same_user u v"
    and new: "\<forall>q \<in> qs. q ''id'' \<noteq> Some (to_string (user_id u))"
    and free: "columns_free rs (to_string (user_id u)) (username u) (email_value (user_email u))"
  shows "user_rows_ok pq (insert r qs)"
proof -
  have cells: "r ''id'' = Some (to_string (user_id u))" "r ''username'' = Some (username u)"
    "r ''id'' = Some (to_string (user_id v))" "r ''username'' = Some (username v)"
    using r same_user_fields[OF v(2)] by (simp_all add: user_row_def)
  have other: "q ''id'' \<noteq> r ''id''" "q ''username'' \<noteq> r ''username''" if "q \<in> qs" for q
    using that new free sub cells by (auto simp: columns_free_def)
  have held: "\<exists>w. row_to_user pq q = Inr w \<and> q ''id'' = Some (to_string (user_id w)) \<and> q ''username'' = Some (username w)"
    if "q \<in> insert r qs" for q
    using that v(1) cells(3,4) ok sub unfolding user_rows_ok_def by blast
  have "q = q'" if "q \<in> insert r qs" "q' \<in> insert r qs" and e: "q ''id'' = q' ''id'' \<or> q ''username'' = q' ''username''" for q q'
  proof (cases "q = r \<or> q' = r")
    case True
    then show ?thesis using that other[of q] other[of q'] by auto
  next
    case False
    then have "q \<in> rs" "q' \<in> rs" using that(1,2) sub by auto
    then show ?thesis using ok e unfolding user_rows_ok_def by blast
  qed
  then show ?thesis unfolding user_rows_ok_def using held by blast
qed

lemma users_of_insert: "row_to_user pq r = Inr v \<Longrightarrow> users_of pq (insert r rs) = insert v (users_of pq rs)"
  by (auto simp: users_of_def)

lemma users_of_remove:
  assumes "user_rows_ok pq rs"
  shows "users_of pq {r \<in> rs. r ''id'' \<noteq> Some (to_string k)} = {u \<in> users_of pq rs. user_id u \<noteq> k}"
  using row_user_cells[OF assms] unfolding users_of_def by (fastforce dest: to_string_inj)

lemma users_of_id:
  assumes "user_rows_ok pq rs"
  shows "(\<forall>r \<in> rs. r ''id'' \<noteq> Some (to_string k)) \<longleftrightarrow> (\<forall>u \<in> users_of pq rs. user_id u \<noteq> k)"
proof
  assume l: "\<forall>r \<in> rs. r ''id'' \<noteq> Some (to_string k)"
  then show "\<forall>u \<in> users_of pq rs. user_id u \<noteq> k" using row_user_cells[OF assms] by (auto simp: users_of_def)
next
  assume l: "\<forall>u \<in> users_of pq rs. user_id u \<noteq> k"
  show "\<forall>r \<in> rs. r ''id'' \<noteq> Some (to_string k)"
  proof (intro ballI notI)
    fix r assume r: "r \<in> rs" "r ''id'' = Some (to_string k)"
    obtain u where "row_to_user pq r = Inr u" "r ''id'' = Some (to_string (user_id u))" using user_rowE[OF assms r(1)] by metis
    then show False using l r by (auto simp: users_of_def)
  qed
qed

lemma pg_members_users_of: "pg_members pq rows_in s = users_of pq (rows_in (bk_db s))"
  by (simp add: pg_members_def users_of_def)

context sql_accounts begin

text \<open>A writing session: the statement gives \<open>Q\<close>, and the result is rejected or converted.\<close>

lemma write_session:
  assumes ready: "pg_users_ready pq rows_in up s"
    and ex: "\<And>t. view t = bk_db s \<Longrightarrow> \<exists>t' res. exec_sql pq sql ps t = Inr (res, t') \<and> up (view t') \<and> Q res (view t')"
    and res: "\<And>res d. Q res d \<Longrightarrow> (case reject res of Some e \<Rightarrow> P (Inl e) (bk_db s) | None \<Rightarrow> \<exists>y. conv res = Inr y \<and> P (Inr y) d)"
  shows "\<exists>r s'. user_session pq fn (txn_commit_first pq sql ps reject conv) s = Some (r, s') \<and>
    pool_ready (bk_pool s') \<and> up (bk_db s') \<and> P r (bk_db s')"
proof -
  let ?body = "txn_commit_first pq sql ps reject conv"
  have up: "up (bk_db s)" and pool: "pool_ready (bk_pool s)" using ready by (simp_all add: pg_users_ready_def)
  have body: "\<exists>r d. ?body c (bk_db s) = (r, d) \<and> (\<exists>x. r = Inr x \<and> up d \<and> P x d) \<and> (\<forall>c. conn_open pq d c)" for c
  proof -
    obtain t where t: "work pq c (bk_db s) = Inr t" "view t = bk_db s" using begin_work[OF up] by blast
    obtain t' rs where t': "exec_sql pq sql ps t = Inr (rs, t')" "up (view t')" "Q rs (view t')" using ex[OF t(2)] by blast
    show ?thesis
    proof (cases "reject rs")
      case None
      then obtain y where "conv rs = Inr y" "P (Inr y) (view t')" using res[OF t'(3)] by auto
      then show ?thesis using t t' None commits[OF t'(2)] open_conn by (auto simp: txn_commit_first_def)
    next
      case (Some e)
      then show ?thesis using t t' res[OF t'(3)] up open_conn by (auto simp: txn_commit_first_def)
    qed
  qed
  obtain r s' where "user_session pq fn ?body s = Some (catch_exn (\<lambda>w. database (''SQL error in '' @ fn @ '': '' @ w))
      (\<lambda>w. internal (''Error in '' @ fn @ '': '' @ w)) r, s')" "pool_ready (bk_pool s')"
    "\<exists>x. r = Inr x \<and> up (bk_db s') \<and> P x (bk_db s')"
    using with_session_some[where body = ?body and Q = "\<lambda>r d. \<exists>x. r = Inr x \<and> up d \<and> P x d", OF pool open_conn[OF up] body]
    unfolding user_session_def by blast
  then show ?thesis by auto
qed

lemma run_user_save:
  assumes ready: "pg_users_ready pq rows_in up s" and st: "storable u" and ok: "user_ok u"
    and claim: "unclaimed (pg_members pq rows_in s) u" and new: "\<forall>v \<in> pg_members pq rows_in s. user_id v \<noteq> user_id u"
  shows "\<exists>v s'. u_save (pg_user_repo pq) u s = Some (Inr v, s') \<and> pg_users_ready pq rows_in up s' \<and> same_user u v \<and>
    pg_members pq rows_in s' = insert v (pg_members pq rows_in s)"
proof -
  let ?rs = "rows_in (bk_db s)"
    and ?ps = "user_params u @ [PText (format_iso8601 (user_created_at u)), PText (format_iso8601 (user_updated_at u))]"
  have rok: "user_rows_ok pq ?rs" and up: "up (bk_db s)" using ready by (simp_all add: pg_users_ready_def)
  have free: "columns_free ?rs (to_string (user_id u)) (username u) (email_value (user_email u))"
    using unclaimed_columns[OF rok _ ok] claim by (simp add: pg_members_users_of)
  have fresh: "\<forall>r \<in> ?rs. r ''id'' \<noteq> Some (to_string (user_id u))" using users_of_id[OF rok] new by (simp add: pg_members_users_of)
  define Q where "Q res d \<longleftrightarrow> (\<exists>r. rows res = [r] \<and> user_row pq u r \<and> rows_in d = insert r ?rs)" for res :: pg_result and d
  define P where "P x d \<longleftrightarrow> (\<exists>v. x = Inr v \<and> same_user u v \<and> user_rows_ok pq (rows_in d) \<and> users_of pq (rows_in d) = insert v (users_of pq ?rs))"
    for x :: "User Result" and d
  have ex: "\<exists>t' res. exec_sql pq sql_user_insert ?ps t = Inr (res, t') \<and> up (view t') \<and> Q res (view t')" if "view t = bk_db s" for t
    using ins[of t u] that up st fresh free by (auto simp: Q_def)
  have res: "case reject_empty (database ''Failed to insert user'') res of Some e \<Rightarrow> P (Inl e) (bk_db s)
      | None \<Rightarrow> \<exists>y. first_user pq res = Inr y \<and> P (Inr y) d" if q: "Q res d" for res d
  proof -
    obtain r where r: "rows res = [r]" "user_row pq u r" "rows_in d = insert r ?rs" using q unfolding Q_def by blast
    obtain v where v: "row_to_user pq r = Inr v" "same_user u v" using row_to_user_holds[OF r(2) ok] by blast
    have "user_rows_ok pq (insert r ?rs)" by (rule rows_insert[OF rok subset_refl r(2) v fresh free])
    then show ?thesis using r v by (simp add: reject_empty_def first_user_def P_def users_of_insert)
  qed
  show ?thesis
    using write_session[where Q = Q and P = P and fn = "''save''" and conv = "first_user pq"
        and reject = "reject_empty (database ''Failed to insert user'')", OF ready ex res]
    by (auto simp: P_def pg_users_ready_def pg_members_users_of pg_user_repo_def pgu_save_def)
qed

lemma run_user_update:
  assumes ready: "pg_users_ready pq rows_in up s" and st: "storable u" and ok: "user_ok u"
    and claim: "unclaimed (pg_members pq rows_in s) u" and u0: "u0 \<in> pg_members pq rows_in s" "user_id u0 = user_id u"
  shows "\<exists>v s'. u_update (pg_user_repo pq) u s = Some (Inr v, s') \<and> pg_users_ready pq rows_in up s' \<and> same_user u v \<and>
    pg_members pq rows_in s' = insert v (pg_members pq rows_in s - {u0})"
proof -
  let ?rs = "rows_in (bk_db s)" and ?k = "to_string (user_id u)"
    and ?ps = "user_params u @ [PText (format_iso8601 (user_updated_at u))]"
  have rok: "user_rows_ok pq ?rs" and up: "up (bk_db s)" using ready by (simp_all add: pg_users_ready_def)
  have free: "columns_free ?rs ?k (username u) (email_value (user_email u))"
    using unclaimed_columns[OF rok _ ok] claim by (simp add: pg_members_users_of)
  obtain r0 where r0: "r0 \<in> ?rs" "row_to_user pq r0 = Inr u0" using u0(1) by (auto simp: pg_members_def)
  have k: "r0 ''id'' = Some ?k" using row_user_cells[OF rok r0] u0(2) by simp
  have only: "\<forall>r \<in> ?rs. r ''id'' = Some ?k \<longrightarrow> r = r0" using rok r0(1) k unfolding user_rows_ok_def by metis
  then have rest: "?rs - {r0} = {r \<in> ?rs. r ''id'' \<noteq> Some ?k}" using k by auto
  have gone: "users_of pq (?rs - {r0}) = users_of pq ?rs - {u0}"
    unfolding rest users_of_remove[OF rok] using members_distinct_rows[of pq rows_in s, OF rok] u0
    by (auto simp: distinct_users_def pg_members_users_of)
  define Q where "Q res d \<longleftrightarrow> (\<exists>r. rows res = [r] \<and> user_row pq u r \<and> rows_in d = insert r (?rs - {r0}))" for res :: pg_result and d
  define P where "P x d \<longleftrightarrow> (\<exists>v. x = Inr v \<and> same_user u v \<and> user_rows_ok pq (rows_in d) \<and> users_of pq (rows_in d) = insert v (users_of pq ?rs - {u0}))"
    for x :: "User Result" and d
  have ex: "\<exists>t' res. exec_sql pq sql_user_update ?ps t = Inr (res, t') \<and> up (view t') \<and> Q res (view t')" if "view t = bk_db s" for t
  proof -
    note t = that
    have "up (view t)" using up t by simp
    from upd[OF this st, of r0] r0(1) k free only row_time[OF r0(2)] show ?thesis unfolding t Q_def by blast
  qed
  have res: "case reject_empty (not_found (''User not found for update: '' @ to_string (user_id u))) res of Some e \<Rightarrow> P (Inl e) (bk_db s)
      | None \<Rightarrow> \<exists>y. first_user pq res = Inr y \<and> P (Inr y) d" if q: "Q res d" for res d
  proof -
    obtain r where r: "rows res = [r]" "user_row pq u r" "rows_in d = insert r (?rs - {r0})" using q unfolding Q_def by blast
    obtain v where v: "row_to_user pq r = Inr v" "same_user u v" using row_to_user_holds[OF r(2) ok] by blast
    have "user_rows_ok pq (insert r (?rs - {r0}))" by (rule rows_insert[OF rok _ r(2) v _ free]) (use rest in auto)
    then show ?thesis using r v by (simp add: reject_empty_def first_user_def P_def users_of_insert gone)
  qed
  show ?thesis
    using write_session[where Q = Q and P = P and fn = "''update''" and conv = "first_user pq"
        and reject = "reject_empty (not_found (''User not found for update: '' @ to_string (user_id u)))", OF ready ex res]
    by (auto simp: P_def pg_users_ready_def pg_members_users_of pg_user_repo_def pgu_update_def)
qed

lemma run_user_remove:
  assumes ready: "pg_users_ready pq rows_in up s"
  shows "\<exists>r s'. u_remove (pg_user_repo pq) k s = Some (r, s') \<and> pg_users_ready pq rows_in up s' \<and>
    pg_members pq rows_in s' = {u \<in> pg_members pq rows_in s. user_id u \<noteq> k} \<and>
    (if \<exists>u \<in> pg_members pq rows_in s. user_id u = k then r = Inr () else \<exists>m. r = Inl (not_found m))"
proof -
  let ?rs = "rows_in (bk_db s)" and ?e = "not_found (''User not found for deletion: '' @ to_string k)"
  have rok: "user_rows_ok pq ?rs" and up: "up (bk_db s)" using ready by (simp_all add: pg_users_ready_def)
  let ?none = "\<forall>r \<in> ?rs. r ''id'' \<noteq> Some (to_string k)"
  have none: "?none \<longleftrightarrow> \<not> (\<exists>u \<in> pg_members pq rows_in s. user_id u = k)"
    using users_of_id[OF rok] by (auto simp: pg_members_users_of)
  have rest: "user_rows_ok pq {r \<in> ?rs. r ''id'' \<noteq> Some (to_string k)}" using rok unfolding user_rows_ok_def by blast
  define Q where "Q res d \<longleftrightarrow> rows_in d = {r \<in> ?rs. r ''id'' \<noteq> Some (to_string k)} \<and> (affected_rows res = 0 \<longleftrightarrow> ?none)" for res :: pg_result and d
  define P where "P x d \<longleftrightarrow> user_rows_ok pq (rows_in d) \<and> users_of pq (rows_in d) = {u \<in> users_of pq ?rs. user_id u \<noteq> k} \<and>
      x = (if ?none then Inl ?e else Inr ())" for x :: "unit Result" and d
  have same: "{u \<in> users_of pq ?rs. user_id u \<noteq> k} = users_of pq ?rs" if ?none
    using that users_of_id[OF rok] by auto
  have ex: "\<exists>t' res. exec_sql pq sql_user_delete [PText (to_string k)] t = Inr (res, t') \<and> up (view t') \<and> Q res (view t')"
    if "view t = bk_db s" for t
    using del[of t k] that up by (auto simp: Q_def)
  have res: "case (if affected_rows res = 0 then Some ?e else None) of Some e \<Rightarrow> P (Inl e) (bk_db s)
      | None \<Rightarrow> \<exists>y. Inr () = Inr y \<and> P (Inr y) d" if "Q res d" for res d
    using that same rok rest users_of_remove[OF rok] by (auto simp: Q_def P_def)
  obtain r s' where r: "u_remove (pg_user_repo pq) k s = Some (r, s')" "pool_ready (bk_pool s')" "up (bk_db s')" "P r (bk_db s')"
    using write_session[where Q = Q and P = P and fn = "''remove''" and conv = "\<lambda>_. Inr ()"
        and reject = "\<lambda>res. if affected_rows res = 0 then Some ?e else None", OF ready ex res]
    by (auto simp: pg_user_repo_def pgu_remove_def)
  then show ?thesis using none by (auto simp: P_def pg_users_ready_def pg_members_users_of)
qed

end

sublocale sql_accounts \<subseteq> store: user_store "pg_user_repo pq" "pg_members pq rows_in" "pg_users_ready pq rows_in up" storable
  by unfold_locales (fact run_user_save run_user_update run_user_remove)+

context sql_accounts begin

lemma account_contract: "user_store (pg_user_repo pq) (pg_members pq rows_in) (pg_users_ready pq rows_in up) storable"
  by (rule store.user_store_axioms)

end

section \<open>An executable server\<close>

text \<open>The \<^verbatim>\<open>users\<close> table with its unique columns and length limits.\<close>

definition user_cols :: "string list" where
  "user_cols = [''id'', ''username'', ''email'', ''password_hash'', ''role'', ''is_active'']"

definition user_cells :: "param list \<Rightarrow> row" where
  "user_cells ps = map_of (zip user_cols (map param_text ps))"

definition account_ok :: "row list \<Rightarrow> string \<Rightarrow> row \<Rightarrow> bool" where
  "account_ok d k r \<longleftrightarrow>
     (\<forall>q \<in> set d. q ''id'' \<noteq> Some k \<longrightarrow> q ''username'' \<noteq> r ''username'' \<and> q ''email'' \<noteq> r ''email'') \<and>
     length (the (r ''username'')) \<le> 100 \<and> length (the (r ''email'')) \<le> 254 \<and> length (the (r ''password_hash'')) \<le> 256"

definition account_exec :: "string \<Rightarrow> param list \<Rightarrow> row list \<Rightarrow> db_exn + (pg_result \<times> row list)" where
  "account_exec sql ps d =
     (if sql = sql_user_insert \<and> length ps = 8 then
        (let k = param_text (ps ! 0);
             r = (user_cells (take 6 ps))(''created_at'' \<mapsto> timestamp_text (param_text (ps ! 6)),
               ''updated_at'' \<mapsto> timestamp_text (param_text (ps ! 7)))
         in if (\<exists>q \<in> set d. q ''id'' = Some k) \<or> \<not> account_ok d k r then Inl (Sql_error ''constraint violation'')
            else Inr (\<lparr>rows = [r], affected_rows = 1\<rparr>, d @ [r]))
      else if sql = sql_user_update \<and> length ps = 7 then
        (let k = param_text (ps ! 0)
         in case List.find (\<lambda>q. q ''id'' = Some k) d of
              None \<Rightarrow> Inr (no_rows, d)
            | Some r0 \<Rightarrow>
                (let r = (user_cells (take 6 ps))(''created_at'' := r0 ''created_at'',
                   ''updated_at'' \<mapsto> timestamp_text (param_text (ps ! 6)))
                 in if \<not> account_ok d k r then Inl (Sql_error ''constraint violation'')
                    else Inr (\<lparr>rows = [r], affected_rows = 1\<rparr>, map (\<lambda>q. if q ''id'' = Some k then r else q) d)))
      else if sql = sql_user_delete \<and> length ps = 1 then
        (let k = param_text (ps ! 0)
         in Inr (no_rows\<lparr>affected_rows := length (filter (\<lambda>q. q ''id'' = Some k) d)\<rparr>, filter (\<lambda>q. q ''id'' \<noteq> Some k) d))
      else user_server_exec sql ps d)"

definition account_pq :: "(row list, row list) pqxx" where
  "account_pq = user_pq\<lparr>exec_sql := account_exec\<rparr>"

definition account_storable :: "User \<Rightarrow> bool" where
  "account_storable u \<longleftrightarrow> length (username u) \<le> 100 \<and> length (email_value (user_email u)) \<le> 254 \<and> length (password_hash u) \<le> 256 \<and>
     0 \<le> user_created_at u \<and> user_created_at u < 2 ^ 63 \<and> 0 \<le> user_updated_at u \<and> user_updated_at u < 2 ^ 63"

lemma user_params_simps [simp]: "length (user_params u) = 6" "param_text (user_params u ! 0) = to_string (user_id u)"
  by (simp_all add: user_params_def)

lemma user_cells_simps:
  "user_cells (user_params u) ''id'' = Some (to_string (user_id u))" "user_cells (user_params u) ''username'' = Some (username u)"
  "user_cells (user_params u) ''email'' = Some (email_value (user_email u))"
  "user_cells (user_params u) ''password_hash'' = Some (password_hash u)"
  "user_cells (user_params u) ''role'' = Some (role_to_string (user_role u))"
  "user_cells (user_params u) ''is_active'' = Some (if user_active u then ''t'' else ''f'')"
  by (simp_all add: user_cells_def user_cols_def user_params_def)

lemma account_row:
  assumes "holds_time c" and "holds_time t"
  shows "user_row account_pq u ((user_cells (user_params u))(''created_at'' := c, ''updated_at'' := t))"
  using assms by (simp add: user_row_def user_cells_simps account_pq_def user_pq_def)

lemma account_row_ok:
  assumes "account_storable u" and "columns_free (set d) (to_string (user_id u)) (username u) (email_value (user_email u))"
  shows "account_ok d (to_string (user_id u)) ((user_cells (user_params u))(''created_at'' := c, ''updated_at'' := t))"
  using assms by (simp add: account_ok_def account_storable_def columns_free_def user_cells_simps)

lemma account_statements_differ:
  "sql_user_delete \<noteq> sql_user_by_id" "sql_user_delete \<noteq> sql_user_by_username" "sql_user_update \<noteq> sql_user_insert"
  by (simp_all add: sql_user_delete_def sql_user_by_id_def sql_user_by_username_def sql_user_update_def sql_user_insert_def)

lemma find_only:
  assumes "r0 \<in> set d" and "r0 ''id'' = Some k" and "\<forall>r \<in> set d. r ''id'' = Some k \<longrightarrow> r = r0"
  shows "List.find (\<lambda>q. q ''id'' = Some k) d = Some r0"
  using assms
proof (induction d)
  case (Cons a d)
  show ?case
  proof (cases "a ''id'' = Some k")
    case True
    moreover have "a = r0" using Cons.prems(3) True by (meson list.set_intros(1))
    ultimately show ?thesis by (simp only: find.simps refl if_True)
  next
    case False
    then have "r0 \<in> set d" using Cons.prems(1,2) by auto
    then have "List.find (\<lambda>q. q ''id'' = Some k) d = Some r0"
      by (rule Cons.IH[OF _ Cons.prems(2)]) (meson Cons.prems(3) list.set_intros(2))
    then show ?thesis using False by (simp only: find.simps if_False)
  qed
qed simp

lemma map_only:
  assumes "r0 \<in> set d" and "P r0" and "\<forall>r \<in> set d. P r \<longrightarrow> r = r0"
  shows "set (map (\<lambda>q. if P q then x else q) d) = insert x (set d - {r0})"
  unfolding set_map
proof (intro set_eqI iffI)
  fix y assume "y \<in> (\<lambda>q. if P q then x else q) ` set d"
  then obtain q where q: "q \<in> set d" "y = (if P q then x else q)" by blast
  show "y \<in> insert x (set d - {r0})"
  proof (cases "P q")
    case False
    then have "q \<noteq> r0" using assms(2) by metis
    then show ?thesis using q False by simp
  qed (use q in simp)
next
  fix y assume y: "y \<in> insert x (set d - {r0})"
  show "y \<in> (\<lambda>q. if P q then x else q) ` set d"
  proof (cases "y = x")
    case True
    then show ?thesis using assms(1,2) by (intro image_eqI[of _ _ r0]) simp_all
  next
    case False
    then have "y \<in> set d" "\<not> P y" using y assms(3) by auto
    then show ?thesis by (intro image_eqI[of _ _ y]) simp_all
  qed
qed

interpretation accounts: sql_accounts account_pq set "\<lambda>_. True" "\<lambda>d. d" account_storable
proof unfold_locales
  fix t :: "row list" and u :: User
  assume st: "account_storable u" and new: "\<forall>r \<in> set t. r ''id'' \<noteq> Some (to_string (user_id u))"
    and free: "columns_free (set t) (to_string (user_id u)) (username u) (email_value (user_email u))"
  let ?c = "timestamp_text (format_iso8601 (user_created_at u))" and ?t = "timestamp_text (format_iso8601 (user_updated_at u))"
  let ?r = "(user_cells (user_params u))(''created_at'' \<mapsto> ?c, ''updated_at'' \<mapsto> ?t)"
  have "exec_sql account_pq sql_user_insert (user_params u @ [PText (format_iso8601 (user_created_at u)),
      PText (format_iso8601 (user_updated_at u))]) t = Inr (\<lparr>rows = [?r], affected_rows = 1\<rparr>, t @ [?r])"
    using new account_row_ok[OF st free, of "Some ?c" "Some ?t"]
    by (simp add: account_pq_def account_exec_def nth_append Let_def del: fun_upd_apply)
  moreover have "user_row account_pq u ?r"
    using st by (intro account_row parse_timestamp_text) (simp_all add: account_storable_def)
  ultimately show "\<exists>t' res r. exec_sql account_pq sql_user_insert (user_params u @ [PText (format_iso8601 (user_created_at u)),
        PText (format_iso8601 (user_updated_at u))]) t = Inr (res, t') \<and>
      rows res = [r] \<and> user_row account_pq u r \<and> True \<and> set t' = insert r (set t)"
    by (simp del: fun_upd_apply)
next
  fix t :: "row list" and u :: User and r0
  assume st: "account_storable u" and r0: "r0 \<in> set t" "r0 ''id'' = Some (to_string (user_id u))"
    and free: "columns_free (set t) (to_string (user_id u)) (username u) (email_value (user_email u))"
    and only: "\<forall>r \<in> set t. r ''id'' = Some (to_string (user_id u)) \<longrightarrow> r = r0" and time: "holds_time (r0 ''created_at'')"
  let ?k = "to_string (user_id u)" and ?t = "timestamp_text (format_iso8601 (user_updated_at u))"
  let ?r = "(user_cells (user_params u))(''created_at'' := r0 ''created_at'', ''updated_at'' \<mapsto> ?t)"
  let ?d = "map (\<lambda>q. if q ''id'' = Some ?k then ?r else q) t"
  have "exec_sql account_pq sql_user_update (user_params u @ [PText (format_iso8601 (user_updated_at u))]) t =
      Inr (\<lparr>rows = [?r], affected_rows = 1\<rparr>, ?d)"
    using find_only[OF r0 only] account_row_ok[OF st free, of "r0 ''created_at''" "Some ?t"]
    by (simp add: account_pq_def account_exec_def account_statements_differ nth_append Let_def del: fun_upd_apply)
  moreover have "user_row account_pq u ?r"
    using st time by (intro account_row parse_timestamp_text) (simp_all add: account_storable_def)
  moreover have "set ?d = insert ?r (set t - {r0})" by (rule map_only[OF r0 only])
  ultimately show "\<exists>t' res r. exec_sql account_pq sql_user_update (user_params u @ [PText (format_iso8601 (user_updated_at u))]) t =
        Inr (res, t') \<and> rows res = [r] \<and> user_row account_pq u r \<and> True \<and> set t' = insert r (set t - {r0})"
    by (intro exI[of _ ?d] exI[of _ "\<lparr>rows = [?r], affected_rows = 1\<rparr>"] exI[of _ ?r]) (simp del: fun_upd_apply)
next
  fix t :: "row list" and x
  show "\<exists>t' res. exec_sql account_pq sql_user_delete [PText x] t = Inr (res, t') \<and> True \<and>
      set t' = {r \<in> set t. r ''id'' \<noteq> Some x} \<and> (affected_rows res = 0 \<longleftrightarrow> (\<forall>r \<in> set t. r ''id'' \<noteq> Some x))"
    by (auto simp: account_pq_def account_exec_def Let_def filter_empty_conv)
qed (auto simp: account_pq_def user_pq_def account_exec_def user_server_exec_def user_statements_differ account_statements_differ
    Let_def eq_commute[of sql_user_by_id sql_user_delete] eq_commute[of sql_user_by_username sql_user_delete])

section \<open>Property\<close>

text \<open>C30: the life of an account over PostgreSQL. A user with a free name, address and identifier is saved,
  and its name and password then give tokens for the stored user; once it has been updated as not active the
  same login is forbidden; once it has been removed the login is unauthorized, and the table holds the users
  it held before.\<close>

theorem account_lifecycle:
  assumes "sql_accounts pq rows_in up view storable" and "pg_users_ready pq rows_in up s"
    and "storable u" and "storable (set_active False u)" and "user_ok u" and "unclaimed (pg_members pq rows_in s) u"
    and "\<forall>v \<in> pg_members pq rows_in s. user_id v \<noteq> user_id u"
    and "user_active u" and "username u \<noteq> []" and "pw \<noteq> []" and "password_hash u = hash_password sha pw"
  shows "\<exists>v s1 s2 v' s3 e s4 s5 e' s6. u_save (pg_user_repo pq) u s = Some (Inr v, s1) \<and> same_user u v \<and>
    auth_execute (pg_user_repo pq) (AuthServiceImpl sha jwt cfg clk (pg_user_repo pq)) (username u) pw s1 =
      Some (Inr (tokens_for jwt cfg clk v), s2) \<and>
    u_update (pg_user_repo pq) (set_active False u) s2 = Some (Inr v', s3) \<and>
    auth_execute (pg_user_repo pq) (AuthServiceImpl sha jwt cfg clk (pg_user_repo pq)) (username u) pw s3 = Some (Inl e, s4) \<and>
    err_code e = kForbidden \<and>
    u_remove (pg_user_repo pq) (user_id u) s4 = Some (Inr (), s5) \<and>
    auth_execute (pg_user_repo pq) (AuthServiceImpl sha jwt cfg clk (pg_user_repo pq)) (username u) pw s5 = Some (Inl e', s6) \<and>
    err_code e' = kUnauthorized \<and>
    pg_users_ready pq rows_in up s6 \<and> pg_members pq rows_in s6 = pg_members pq rows_in s"
  by (rule user_store.account_life[OF sql_accounts.account_contract[OF assms(1)] assms(2-11)])

definition empty_office :: "row list Backend" where
  "empty_office = office\<lparr>bk_db := []\<rparr>"

theorem account_lifecycle_witness:
  "\<exists>v s1 s2. u_save (pg_user_repo account_pq) staff_user empty_office = Some (Inr v, s1) \<and> username v = ''budi'' \<and>
    auth_execute (pg_user_repo account_pq) (AuthServiceImpl plain_sha plain_jwt office_jwt int (pg_user_repo account_pq)) ''budi'' ''rahasia'' s1 =
      Some (Inr (tokens_for plain_jwt office_jwt int v), s2)"
proof -
  have ready: "pg_users_ready account_pq set (\<lambda>_. True) empty_office"
    by (simp add: pg_users_ready_def empty_office_def office_def pool_ready_def pool_inv_def sample_pool_def user_rows_ok_def)
  have none: "pg_members account_pq set empty_office = {}" by (simp add: pg_members_def empty_office_def)
  have email: "email_is_valid ''budi@majubersama.id''" by code_simp
  have hash: "length (hash_password plain_sha ''rahasia'') \<le> 256" by code_simp
  have ok: "user_ok staff_user" "account_storable staff_user" "account_storable (set_active False staff_user)"
    using email hash by (simp_all add: user_ok_def account_storable_def staff_user_def set_active_def)
  have "same_user staff_user v \<Longrightarrow> username v = ''budi''" for v using same_user_fields[of staff_user v] staff_user_login by simp
  then show ?thesis
    using account_lifecycle[OF accounts.sql_accounts_axioms ready ok(2,3,1), of "''rahasia''" plain_sha plain_jwt office_jwt int] none staff_user_login
    by (fastforce simp: unclaimed_def)
qed

end
