(* ===== verification/Broker.thy ===== *)
theory Broker
  imports Uuid Result "HOL-Library.Sublist"
begin

text \<open>
  \<^verbatim>\<open>src/infrastructure/messaging/message_broker.{hpp,cpp}\<close>: the in-memory publish/subscribe broker.
  The \<^verbatim>\<open>unordered_map\<close> of queues is an association list from topics to nodes; a node carries an
  identity, because \<^verbatim>\<open>consume\<close> keeps a reference to it while it waits on the condition variable
  with the mutex released. The first part models the operations, the second the interleaving of
  threads between the two critical sections of \<^verbatim>\<open>consume\<close>.
\<close>

record Message =
  topic :: string
  payload :: string
  message_id :: string
  timestamp :: int64

record Node =
  node_id :: nat
  node_queue :: "Message list"

record Broker =
  running :: bool
  queues :: "(string \<times> Node) list"
  next_node :: nat

definition broker_new :: Broker where
  "broker_new = \<lparr>running = True, queues = [], next_node = 0\<rparr>"

definition broker_destroy :: "Broker \<Rightarrow> Broker" where
  "broker_destroy b = b\<lparr>running := False\<rparr>"

text \<open>\<open>r0\<close>, \<open>r1\<close> are the draws of the generator, \<open>now\<close> the reading of the clock.\<close>

definition enrich :: "int64 \<Rightarrow> uint64 \<Rightarrow> uint64 \<Rightarrow> Message \<Rightarrow> Message" where
  "enrich now r0 r1 msg =
     (let m = (if message_id msg = [] then msg\<lparr>message_id := format_hex 16 r0 @ format_hex 16 r1\<rparr> else msg)
      in if timestamp m = 0 then m\<lparr>timestamp := now\<rparr> else m)"

definition publish :: "int64 \<Rightarrow> uint64 \<Rightarrow> uint64 \<Rightarrow> Message \<Rightarrow> Broker \<Rightarrow> unit Result \<times> Broker" where
  "publish now r0 r1 msg b =
     (if \<not> running b then (Inl (internal ''MessageBroker is shut down''), b)
      else case map_of (queues b) (topic msg) of
          None \<Rightarrow> (Inl (not_found (''No subscribers for topic '' @ [CHR 0x27] @ topic msg @ [CHR 0x27])), b)
        | Some n \<Rightarrow>
            (Inr (), b\<lparr>queues := AList.update (topic msg)
                        (n\<lparr>node_queue := node_queue n @ [enrich now r0 r1 msg]\<rparr>) (queues b)\<rparr>))"

definition topic_not_found :: "string \<Rightarrow> Error" where
  "topic_not_found tp = not_found (''Topic '' @ [CHR 0x27] @ tp @ [CHR 0x27] @ '' not found'')"

definition subscribe :: "string \<Rightarrow> Broker \<Rightarrow> unit Result \<times> Broker" where
  "subscribe tp b =
     (if tp = [] then (Inl (validation ''Topic name cannot be empty''), b)
      else if map_of (queues b) tp \<noteq> None
        then (Inl (conflict (''Already subscribed to topic '' @ [CHR 0x27] @ tp @ [CHR 0x27])), b)
      else (Inr (), b\<lparr>queues := AList.update tp \<lparr>node_id = next_node b, node_queue = []\<rparr> (queues b),
                      next_node := Suc (next_node b)\<rparr>))"

definition unsubscribe :: "string \<Rightarrow> Broker \<Rightarrow> unit Result \<times> Broker" where
  "unsubscribe tp b =
     (case map_of (queues b) tp of
        None \<Rightarrow> (Inl (topic_not_found tp), b)
      | Some n \<Rightarrow> (Inr (), b\<lparr>queues := AList.delete tp (queues b)\<rparr>))"

definition pending_count :: "string \<Rightarrow> Broker \<Rightarrow> nat Result" where
  "pending_count tp b =
     (case map_of (queues b) tp of
        None \<Rightarrow> Inl (topic_not_found tp)
      | Some n \<Rightarrow> Inr (length (node_queue n)))"

definition subscribed_topics :: "Broker \<Rightarrow> string list" where
  "subscribed_topics b = map fst (queues b)"

section \<open>consume\<close>

text \<open>
  Up to the wait: an error, or the node found, with a flag telling whether the thread waits.
  The wait releases the mutex, so the rest runs in a later state of the broker.
\<close>

definition consume_enter :: "string \<Rightarrow> Broker \<Rightarrow> (nat \<times> bool) Result" where
  "consume_enter tp b =
     (if \<not> running b then Inl (internal ''MessageBroker is shut down'')
      else case map_of (queues b) tp of
          None \<Rightarrow> Inl (topic_not_found tp)
        | Some n \<Rightarrow> Inr (node_id n, node_queue n = []))"

text \<open>The node a reference points to; \<open>None\<close> when it was erased.\<close>

definition deref :: "nat \<Rightarrow> Broker \<Rightarrow> (string \<times> Node) option" where
  "deref r b = find (\<lambda>(tp, n). node_id n = r) (queues b)"

text \<open>
  From the wait on, through the reference \<open>r\<close>. \<open>None\<close> is a read of an erased node: undefined
  behaviour of the program. A broker that is shut down is not read.
\<close>

definition consume_resume :: "nat \<Rightarrow> Broker \<Rightarrow> (Message option Result \<times> Broker) option" where
  "consume_resume r b =
     (if \<not> running b then Some (Inr None, b)
      else case deref r b of
          None \<Rightarrow> None
        | Some (tp, n) \<Rightarrow>
            (case node_queue n of
               [] \<Rightarrow> Some (Inr None, b)
             | m # ms \<Rightarrow>
                 Some (Inr (Some m), b\<lparr>queues := AList.update tp (n\<lparr>node_queue := ms\<rparr>) (queues b)\<rparr>)))"

text \<open>\<^verbatim>\<open>consume\<close> when no other thread runs meanwhile: an empty queue times out.\<close>

definition consume :: "string \<Rightarrow> Broker \<Rightarrow> Message option Result \<times> Broker" where
  "consume tp b =
     (case consume_enter tp b of
        Inl e \<Rightarrow> (Inl e, b)
      | Inr (r, wait) \<Rightarrow> (case consume_resume r b of Some res \<Rightarrow> res | None \<Rightarrow> (Inr None, b)))"

section \<open>The class\<close>

text \<open>The virtual functions of \<^verbatim>\<open>MessageBroker\<close> for one caller at a time, and the class that overrides them.\<close>

record 'b MessageBroker =
  mb_publish :: "int64 \<Rightarrow> uint64 \<Rightarrow> uint64 \<Rightarrow> Message \<Rightarrow> 'b \<Rightarrow> unit Result \<times> 'b"
  mb_consume :: "string \<Rightarrow> 'b \<Rightarrow> Message option Result \<times> 'b"
  mb_subscribe :: "string \<Rightarrow> 'b \<Rightarrow> unit Result \<times> 'b"
  mb_unsubscribe :: "string \<Rightarrow> 'b \<Rightarrow> unit Result \<times> 'b"

definition in_memory_broker :: "Broker MessageBroker" where
  "in_memory_broker = \<lparr>mb_publish = publish, mb_consume = consume, mb_subscribe = subscribe,
     mb_unsubscribe = unsubscribe\<rparr>"

section \<open>Invariant\<close>

definition broker_inv :: "Broker \<Rightarrow> bool" where
  "broker_inv b \<longleftrightarrow> distinct (map fst (queues b)) \<and> distinct (map (node_id \<circ> snd) (queues b)) \<and>
     (\<forall>(tp, n) \<in> set (queues b). tp \<noteq> [] \<and> node_id n < next_node b)"

definition queue_of :: "Broker \<Rightarrow> string \<Rightarrow> Message list option" where
  "queue_of b tp = map_option node_queue (map_of (queues b) tp)"

lemma update_same_node:
  assumes "distinct (map fst qs)" and "map_of qs k = Some n" and "node_id n' = node_id n"
  shows "map (node_id \<circ> snd) (AList.update k n' qs) = map (node_id \<circ> snd) qs"
    and "map fst (AList.update k n' qs) = map fst qs"
  using assms by (induction qs) (auto split: if_splits)

lemma update_same_set:
  assumes "map_of qs k = Some n" "(tp, x) \<in> set (AList.update k n' qs)"
  shows "(tp, x) = (k, n') \<or> (tp, x) \<in> set qs"
  using assms by (induction qs) (auto split: if_splits)

lemma broker_inv_update:
  assumes "broker_inv b" and "map_of (queues b) k = Some n" and "node_id n' = node_id n"
  shows "broker_inv (b\<lparr>queues := AList.update k n' (queues b)\<rparr>)"
proof -
  have "(k, n) \<in> set (queues b)" using assms(2) by (rule map_of_SomeD)
  then have "k \<noteq> [] \<and> node_id n' < next_node b" using assms by (auto simp: broker_inv_def)
  then show ?thesis
    using assms update_same_node[of "queues b", OF _ assms(2,3)] update_same_set[OF assms(2)]
    by (fastforce simp: broker_inv_def)
qed

lemma deref_eq:
  assumes "broker_inv b" and "map_of (queues b) tp = Some n"
  shows "deref (node_id n) b = Some (tp, n)"
proof -
  have "(tp, n) \<in> set (queues b)" using assms(2) by (rule map_of_SomeD)
  moreover have "distinct (map (node_id \<circ> snd) (queues b))" using assms(1) by (simp add: broker_inv_def)
  ultimately have "find (\<lambda>(tp', n'). node_id n' = node_id n) (queues b) = Some (tp, n)"
  proof (induction "queues b" arbitrary: b rule: list.induct)
    case Nil then show ?case by simp
  next
    case (Cons p qs)
    show ?case
      using Cons(1)[of "b\<lparr>queues := qs\<rparr>"] Cons(2)[symmetric] Cons(3,4) by (cases p) (force split: if_splits)
  qed
  then show ?thesis by (simp add: deref_def)
qed

lemma derefD:
  assumes "broker_inv b" and "deref r b = Some (tp, n)"
  shows "map_of (queues b) tp = Some n" and "node_id n = r"
proof -
  have *: "(tp, n) \<in> set (queues b) \<and> node_id n = r"
    using assms(2) by (auto simp: deref_def find_Some_iff in_set_conv_nth)
  then show "node_id n = r" by simp
  show "map_of (queues b) tp = Some n"
    using * assms(1) by (simp add: broker_inv_def map_of_is_SomeI)
qed

lemma broker_inv_new: "broker_inv broker_new"
  by (simp add: broker_inv_def broker_new_def)

lemma broker_inv_publish: "broker_inv b \<Longrightarrow> broker_inv (snd (publish now r0 r1 m b))"
  by (auto simp: publish_def intro!: broker_inv_update split: option.splits)

lemma map_of_None_update: "map_of qs k = None \<Longrightarrow> AList.update k v qs = qs @ [(k, v)]"
  by (induction qs) auto

lemma broker_inv_subscribe: "broker_inv b \<Longrightarrow> broker_inv (snd (subscribe tp b))"
  by (auto simp: subscribe_def broker_inv_def map_of_None_update map_of_eq_None_iff less_Suc_eq
      dest: order.strict_implies_not_eq)

lemma broker_inv_unsubscribe:
  assumes "broker_inv b" shows "broker_inv (snd (unsubscribe tp b))"
proof -
  have "AList.delete tp (queues b) = filter (\<lambda>p. fst p \<noteq> tp) (queues b)"
    by (auto simp: AList.delete_eq intro!: filter_cong)
  then show ?thesis
    using assms by (auto simp: unsubscribe_def broker_inv_def distinct_map inj_on_def split: option.splits)
qed

lemma broker_inv_resume:
  assumes "broker_inv b" and "consume_resume r b = Some (x, b')"
  shows "broker_inv b'"
  using assms derefD[OF assms(1)] broker_inv_update[OF assms(1)]
  by (auto simp: consume_resume_def split: if_splits option.splits list.splits)

lemma consume_eq:
  assumes "broker_inv b"
  shows "consume tp b =
    (if \<not> running b then (Inl (internal ''MessageBroker is shut down''), b)
     else case map_of (queues b) tp of
         None \<Rightarrow> (Inl (topic_not_found tp), b)
       | Some n \<Rightarrow> (case node_queue n of [] \<Rightarrow> (Inr None, b)
           | m # ms \<Rightarrow> (Inr (Some m), b\<lparr>queues := AList.update tp (n\<lparr>node_queue := ms\<rparr>) (queues b)\<rparr>)))"
  using deref_eq[OF assms]
  by (auto simp: consume_def consume_enter_def consume_resume_def split: option.splits list.splits)

lemma broker_inv_consume: "broker_inv b \<Longrightarrow> broker_inv (snd (consume tp b))"
  by (auto simp: consume_eq intro!: broker_inv_update split: option.splits list.splits)

section \<open>The interface\<close>

text \<open>The contract of \<^verbatim>\<open>MessageBroker\<close> for one caller at a time: a queue per subscribed topic.\<close>

locale message_broker =
  fixes pub :: "int64 \<Rightarrow> uint64 \<Rightarrow> uint64 \<Rightarrow> Message \<Rightarrow> 'b \<Rightarrow> unit Result \<times> 'b"
    and con :: "string \<Rightarrow> 'b \<Rightarrow> Message option Result \<times> 'b"
    and sub :: "string \<Rightarrow> 'b \<Rightarrow> unit Result \<times> 'b"
    and unsub :: "string \<Rightarrow> 'b \<Rightarrow> unit Result \<times> 'b"
    and queue :: "'b \<Rightarrow> string \<Rightarrow> Message list option"
    and alive :: "'b \<Rightarrow> bool"
    and inv :: "'b \<Rightarrow> bool"
  assumes pub_ok: "inv b \<Longrightarrow> alive b \<Longrightarrow> queue b (topic m) = Some q \<Longrightarrow>
      fst (pub now r0 r1 m b) = Inr () \<and>
      queue (snd (pub now r0 r1 m b)) = (queue b)(topic m \<mapsto> q @ [enrich now r0 r1 m])"
    and pub_unknown: "inv b \<Longrightarrow> alive b \<Longrightarrow> queue b (topic m) = None \<Longrightarrow>
      (\<exists>e. fst (pub now r0 r1 m b) = Inl e \<and> err_code e = kNotFound) \<and> snd (pub now r0 r1 m b) = b"
    and con_some: "inv b \<Longrightarrow> alive b \<Longrightarrow> queue b tp = Some (m # ms) \<Longrightarrow>
      fst (con tp b) = Inr (Some m) \<and> queue (snd (con tp b)) = (queue b)(tp \<mapsto> ms)"
    and con_empty: "inv b \<Longrightarrow> alive b \<Longrightarrow> queue b tp = Some [] \<Longrightarrow> con tp b = (Inr None, b)"
    and sub_ok: "inv b \<Longrightarrow> tp \<noteq> [] \<Longrightarrow> queue b tp = None \<Longrightarrow>
      fst (sub tp b) = Inr () \<and> queue (snd (sub tp b)) = (queue b)(tp \<mapsto> [])"
    and unsub_ok: "inv b \<Longrightarrow> queue b tp = Some q \<Longrightarrow>
      fst (unsub tp b) = Inr () \<and> queue (snd (unsub tp b)) = (queue b)(tp := None)"
    and inv_pub: "inv b \<Longrightarrow> inv (snd (pub now r0 r1 m b))"
    and inv_con: "inv b \<Longrightarrow> inv (snd (con tp b))"
    and inv_sub: "inv b \<Longrightarrow> inv (snd (sub tp b))"
    and inv_unsub: "inv b \<Longrightarrow> inv (snd (unsub tp b))"
    and alive_pub: "alive (snd (pub now r0 r1 m b)) = alive b"
    and alive_con: "alive (snd (con tp b)) = alive b"

text \<open>A caller that publishes a list of messages, and one that consumes a number of times.\<close>

fun publish_all ::
  "(int64 \<Rightarrow> uint64 \<Rightarrow> uint64 \<Rightarrow> Message \<Rightarrow> 'b \<Rightarrow> unit Result \<times> 'b) \<Rightarrow>
   (int64 \<times> uint64 \<times> uint64 \<times> Message) list \<Rightarrow> 'b \<Rightarrow> 'b" where
  "publish_all pub [] b = b"
| "publish_all pub ((now, r0, r1, m) # ms) b = publish_all pub ms (snd (pub now r0 r1 m b))"

fun drain ::
  "(string \<Rightarrow> 'b \<Rightarrow> Message option Result \<times> 'b) \<Rightarrow> string \<Rightarrow> nat \<Rightarrow> 'b \<Rightarrow> Message option Result list" where
  "drain con tp 0 b = []"
| "drain con tp (Suc n) b = fst (con tp b) # drain con tp n (snd (con tp b))"

fun enriched :: "int64 \<times> uint64 \<times> uint64 \<times> Message \<Rightarrow> Message" where
  "enriched (now, r0, r1, m) = enrich now r0 r1 m"

fun topic_of :: "int64 \<times> uint64 \<times> uint64 \<times> Message \<Rightarrow> string" where
  "topic_of (now, r0, r1, m) = topic m"

context message_broker
begin

lemma publish_all_queue:
  assumes "inv b" and "alive b" and "queue b tp = Some q" and "\<forall>p \<in> set ms. topic_of p = tp"
  shows "inv (publish_all pub ms b) \<and> alive (publish_all pub ms b) \<and>
    queue (publish_all pub ms b) tp = Some (q @ map enriched ms)"
  using assms
proof (induction ms arbitrary: b q)
  case (Cons p ms)
  obtain now r0 r1 m where p: "p = (now, r0, r1, m)" by (cases p) auto
  let ?b = "snd (pub now r0 r1 m b)"
  have "topic m = tp" using Cons.prems(4) p by simp
  then have "queue ?b tp = Some (q @ [enrich now r0 r1 m])"
    using pub_ok[OF Cons.prems(1,2)] Cons.prems(3) by simp
  then have "inv (publish_all pub ms ?b) \<and> alive (publish_all pub ms ?b) \<and>
      queue (publish_all pub ms ?b) tp = Some ((q @ [enrich now r0 r1 m]) @ map enriched ms)"
    using Cons by (intro Cons.IH) (simp_all add: inv_pub alive_pub)
  then show ?case by (simp add: p)
qed simp

lemma drain_queue:
  "inv b \<Longrightarrow> alive b \<Longrightarrow> queue b tp = Some q \<Longrightarrow>
   drain con tp (length q + k) b = map (Inr \<circ> Some) q @ replicate k (Inr None)"
proof (induction q arbitrary: b)
  case Nil
  then show ?case by (induction k) (simp_all add: con_empty)
next
  case (Cons m q)
  then show ?case using con_some[OF Cons.prems] by (simp add: inv_con alive_con)
qed

lemma publish_then_drain:
  assumes "inv b" and "alive b" and "queue b tp = Some q" and "\<forall>p \<in> set ms. topic_of p = tp"
  shows "drain con tp (length q + length ms + k) (publish_all pub ms b) =
    map (Inr \<circ> Some) (q @ map enriched ms) @ replicate k (Inr None)"
  using publish_all_queue[OF assms] drain_queue[of "publish_all pub ms b" tp "q @ map enriched ms" k]
  by simp

end

lemma queue_of_update:
  "queue_of (b\<lparr>queues := AList.update k n (queues b)\<rparr>) = (queue_of b)(k \<mapsto> node_queue n)"
  by (auto simp: queue_of_def fun_eq_iff update_conv')

lemma queue_of_cases:
  "queue_of b tp = Some q \<longleftrightarrow> (\<exists>n. map_of (queues b) tp = Some n \<and> node_queue n = q)"
  "queue_of b tp = None \<longleftrightarrow> map_of (queues b) tp = None"
  by (auto simp: queue_of_def)

interpretation mq: message_broker publish consume subscribe unsubscribe queue_of running broker_inv
proof unfold_locales
  show "fst (publish now r0 r1 m b) = Inr () \<and>
      queue_of (snd (publish now r0 r1 m b)) = (queue_of b)(topic m \<mapsto> q @ [enrich now r0 r1 m])"
    if "running b" "queue_of b (topic m) = Some q" for b m q now r0 r1
    using that by (auto simp: publish_def queue_of_update queue_of_cases)
  show "(\<exists>e. fst (publish now r0 r1 m b) = Inl e \<and> err_code e = kNotFound) \<and> snd (publish now r0 r1 m b) = b"
    if "running b" "queue_of b (topic m) = None" for b m now r0 r1
    using that by (auto simp: publish_def queue_of_cases)
  show "fst (consume tp b) = Inr (Some m) \<and> queue_of (snd (consume tp b)) = (queue_of b)(tp \<mapsto> ms)"
    if "broker_inv b" "running b" "queue_of b tp = Some (m # ms)" for b tp m ms
    using that by (auto simp: consume_eq queue_of_update queue_of_cases)
  show "consume tp b = (Inr None, b)"
    if "broker_inv b" "running b" "queue_of b tp = Some []" for b tp
    using that by (auto simp: consume_eq queue_of_cases)
  show "fst (subscribe tp b) = Inr () \<and> queue_of (snd (subscribe tp b)) = (queue_of b)(tp \<mapsto> [])"
    if "tp \<noteq> []" "queue_of b tp = None" for b tp
    using that by (auto simp: subscribe_def queue_of_def fun_eq_iff update_conv')
  show "fst (unsubscribe tp b) = Inr () \<and> queue_of (snd (unsubscribe tp b)) = (queue_of b)(tp := None)"
    if "queue_of b tp = Some q" for b tp q
    using that by (auto simp: unsubscribe_def queue_of_def fun_eq_iff delete_conv')
  show "running (snd (consume tp b)) = running b" for tp b
    by (auto simp: consume_def consume_resume_def split: sum.splits option.splits list.splits)
  show "running (snd (publish now r0 r1 m b)) = running b" for now r0 r1 m b
    by (auto simp: publish_def split: option.splits)
qed (simp_all add: broker_inv_publish broker_inv_consume broker_inv_subscribe broker_inv_unsubscribe)

text \<open>What is published to a subscribed topic is consumed once each, in the order of
  publication, after what was pending; further calls time out with no message.\<close>

theorem publish_consume_fifo:
  assumes "broker_inv b" and "running b" and "queue_of b tp = Some q" and "\<forall>p \<in> set ms. topic_of p = tp"
  shows "drain consume tp (length q + length ms + k) (publish_all publish ms b) =
    map (Inr \<circ> Some) (q @ map enriched ms) @ replicate k (Inr None)"
  using assms by (rule mq.publish_then_drain)

definition msg :: "string \<Rightarrow> string \<Rightarrow> Message" where
  "msg tp p = \<lparr>topic = tp, payload = p, message_id = ''id'', timestamp = 7\<rparr>"

theorem publish_consume_fifo_witness:
  "drain consume ''t'' 3 (publish_all publish [(1, 0, 0, msg ''t'' ''a''), (2, 0, 0, msg ''t'' ''b'')]
      (snd (subscribe ''t'' broker_new)))
   = [Inr (Some (msg ''t'' ''a'')), Inr (Some (msg ''t'' ''b'')), Inr None]"
proof -
  let ?b = "snd (subscribe ''t'' broker_new)"
  have "broker_inv ?b" "running ?b" "queue_of ?b ''t'' = Some []"
    by (simp_all add: broker_inv_subscribe broker_inv_new)
       (simp_all add: subscribe_def broker_new_def queue_of_def)
  from publish_consume_fifo[OF this, of "[(1, 0, 0, msg ''t'' ''a''), (2, 0, 0, msg ''t'' ''b'')]" 1]
  show ?thesis by (simp add: msg_def enrich_def numeral_3_eq_3)
qed

section \<open>Threads\<close>

text \<open>
  The broker shared by threads. A thread that waits in \<^verbatim>\<open>consume\<close> holds the reference it took;
  \<open>published\<close> and \<open>delivered\<close> record, per node, the messages queued and the messages handed to a
  consumer. A waiting thread may resume at any time: notified, or timed out. The flag of the step
  relation says whether threads unsubscribe.
\<close>

record BrokerSys =
  broker :: Broker
  waiting :: "nat \<Rightarrow> nat option"
  published :: "nat \<Rightarrow> Message list"
  delivered :: "nat \<Rightarrow> Message list"

definition sys_new :: BrokerSys where
  "sys_new = \<lparr>broker = broker_new, waiting = (\<lambda>_. None), published = (\<lambda>_. []), delivered = (\<lambda>_. [])\<rparr>"

definition deliver :: "nat \<Rightarrow> Message option Result \<Rightarrow> (nat \<Rightarrow> Message list) \<Rightarrow> nat \<Rightarrow> Message list" where
  "deliver r res d = (case res of Inr (Some m) \<Rightarrow> d(r := d r @ [m]) | _ \<Rightarrow> d)"

inductive broker_step :: "bool \<Rightarrow> BrokerSys \<Rightarrow> BrokerSys \<Rightarrow> bool" for unsub :: bool where
  publish: "running (broker s) \<Longrightarrow> map_of (queues (broker s)) (topic m) = Some n \<Longrightarrow>
    broker_step unsub s (s\<lparr>broker := snd (publish now r0 r1 m (broker s)),
      published := (published s)(node_id n := published s (node_id n) @ [enrich now r0 r1 m])\<rparr>)"
| subscribe: "broker_step unsub s (s\<lparr>broker := snd (subscribe tp (broker s))\<rparr>)"
| unsubscribe: "unsub \<Longrightarrow> broker_step unsub s (s\<lparr>broker := snd (unsubscribe tp (broker s))\<rparr>)"
| consume: "waiting s t = None \<Longrightarrow> consume_enter tp (broker s) = Inr (r, False) \<Longrightarrow>
    consume_resume r (broker s) = Some (res, b') \<Longrightarrow>
    broker_step unsub s (s\<lparr>broker := b', delivered := deliver r res (delivered s)\<rparr>)"
| wait: "waiting s t = None \<Longrightarrow> consume_enter tp (broker s) = Inr (r, True) \<Longrightarrow>
    broker_step unsub s (s\<lparr>waiting := (waiting s)(t \<mapsto> r)\<rparr>)"
| resume: "waiting s t = Some r \<Longrightarrow> consume_resume r (broker s) = Some (res, b') \<Longrightarrow>
    broker_step unsub s (s\<lparr>broker := b', waiting := (waiting s)(t := None),
      delivered := deliver r res (delivered s)\<rparr>)"
| destroy: "broker_step unsub s (s\<lparr>broker := broker_destroy (broker s)\<rparr>)"

inductive broker_reachable :: "bool \<Rightarrow> BrokerSys \<Rightarrow> bool" for unsub :: bool where
  start: "broker_reachable unsub sys_new"
| step: "broker_reachable unsub s \<Longrightarrow> broker_step unsub s s' \<Longrightarrow> broker_reachable unsub s'"

text \<open>A thread whose next access goes through a reference to an erased node.\<close>

definition waits_on_erased :: "BrokerSys \<Rightarrow> nat \<Rightarrow> bool" where
  "waits_on_erased s t \<longleftrightarrow> (case waiting s t of None \<Rightarrow> False | Some r \<Rightarrow> consume_resume r (broker s) = None)"

definition fifo_inv :: "BrokerSys \<Rightarrow> bool" where
  "fifo_inv s \<longleftrightarrow> broker_inv (broker s) \<and>
     (\<forall>r. prefix (delivered s r) (published s r)) \<and>
     (\<forall>r. next_node (broker s) \<le> r \<longrightarrow> published s r = []) \<and>
     (\<forall>tp n. map_of (queues (broker s)) tp = Some n \<longrightarrow>
        published s (node_id n) = delivered s (node_id n) @ node_queue n)"

lemma node_ids_distinct:
  assumes "broker_inv b" and "map_of (queues b) tp = Some n" and "map_of (queues b) tp' = Some n'"
    and "node_id n = node_id n'"
  shows "tp = tp' \<and> n = n'"
proof -
  have "Some (tp, n) = Some (tp', n')"
    unfolding deref_eq[OF assms(1,2), symmetric] deref_eq[OF assms(1,3), symmetric] assms(4) ..
  then show ?thesis by simp
qed

lemma node_id_bound: "broker_inv b \<Longrightarrow> map_of (queues b) tp = Some n \<Longrightarrow> node_id n < next_node b"
  by (auto simp: broker_inv_def dest!: map_of_SomeD)

lemma resume_cases:
  assumes "broker_inv b" and "consume_resume r b = Some (res, b')"
  shows "(b' = b \<and> (\<forall>m. res \<noteq> Inr (Some m))) \<or>
    (\<exists>tp n m ms. map_of (queues b) tp = Some n \<and> node_id n = r \<and> node_queue n = m # ms \<and>
       res = Inr (Some m) \<and> b' = b\<lparr>queues := AList.update tp (n\<lparr>node_queue := ms\<rparr>) (queues b)\<rparr>)"
proof (cases "running b \<and> deref r b \<noteq> None")
  case False
  then consider "\<not> running b" | "running b" "deref r b = None" by blast
  then show ?thesis using assms(2) by cases (auto simp: consume_resume_def)
next
  case True
  then obtain tp n where d: "running b" "deref r b = Some (tp, n)" by auto
  note n = derefD[OF assms(1) d(2)]
  show ?thesis
  proof (cases "node_queue n")
    case Nil
    then show ?thesis using assms(2) d by (auto simp: consume_resume_def)
  next
    case (Cons m ms)
    then have "res = Inr (Some m)" "b' = b\<lparr>queues := AList.update tp (n\<lparr>node_queue := ms\<rparr>) (queues b)\<rparr>"
      using assms(2) d by (simp_all add: consume_resume_def)
    then show ?thesis using n Cons by blast
  qed
qed

lemma fifo_inv_resume:
  assumes inv: "fifo_inv s" and res: "consume_resume r (broker s) = Some (res, b')"
  shows "fifo_inv (s\<lparr>broker := b', delivered := deliver r res (delivered s), waiting := w\<rparr>)"
proof -
  have b: "broker_inv (broker s)" using inv by (simp add: fifo_inv_def)
  from resume_cases[OF b res] show ?thesis
  proof (elim disjE conjE exE)
    assume "b' = broker s" "\<forall>m. res \<noteq> Inr (Some m)"
    then show ?thesis
      using inv by (auto simp: fifo_inv_def deliver_def split: sum.splits option.splits)
  next
    fix tp n m ms
    assume n: "map_of (queues (broker s)) tp = Some n" "node_id n = r" "node_queue n = m # ms"
      and r: "res = Inr (Some m)" and b': "b' = (broker s)\<lparr>queues := AList.update tp (n\<lparr>node_queue := ms\<rparr>) (queues (broker s))\<rparr>"
    have pub: "published s r = (delivered s r @ [m]) @ ms" using inv n by (auto simp: fifo_inv_def)
    have "node_id n' \<noteq> r" if "map_of (queues (broker s)) tp' = Some n'" "tp' \<noteq> tp" for tp' n'
      using node_ids_distinct[OF b n(1) that(1)] that(2) n(2) by auto
    then show ?thesis
      using inv pub n(2) broker_inv_resume[OF b res] b'
      by (auto simp: fifo_inv_def deliver_def r update_conv' prefix_def)
  qed
qed

lemma fifo_inv_step: "broker_step unsub s s' \<Longrightarrow> fifo_inv s \<Longrightarrow> fifo_inv s'"
proof (induction rule: broker_step.induct)
  case (publish s m n now r0 r1)
  have b: "broker_inv (broker s)" using publish by (simp add: fifo_inv_def)
  have "node_id n' \<noteq> node_id n" if "map_of (queues (broker s)) tp' = Some n'" "tp' \<noteq> topic m" for tp' n'
    using node_ids_distinct[OF b publish(2) that(1)] that(2) by auto
  moreover have "broker_inv (snd (Broker.publish now r0 r1 m (broker s)))"
    by (rule broker_inv_publish[OF b])
  ultimately show ?case
    using publish node_id_bound[OF b publish(2)]
    by (auto simp: fifo_inv_def publish_def update_conv' prefix_def)
next
  case (subscribe s tp)
  then have b: "broker_inv (broker s)" by (simp add: fifo_inv_def)
  show ?case
    using subscribe broker_inv_subscribe[OF b, of tp]
    by (auto simp: fifo_inv_def subscribe_def update_conv' prefix_def dest: spec[of _ "next_node (broker s)"])
next
  case (unsubscribe s tp)
  then have b: "broker_inv (broker s)" by (simp add: fifo_inv_def)
  show ?case
    using unsubscribe broker_inv_unsubscribe[OF b, of tp]
    by (auto simp: fifo_inv_def unsubscribe_def delete_conv' split: option.splits if_splits)
next
  case (consume s t tp r res b')
  show ?case using fifo_inv_resume[OF consume(4) consume(3), of "waiting s"] by simp
next
  case (resume s t r res b')
  show ?case
    using fifo_inv_resume[OF resume(3) resume(2), of "(waiting s)(t := None)"] by (simp add: fifo_inv_def)
qed (auto simp: fifo_inv_def broker_destroy_def broker_inv_def)

lemma fifo_inv_reachable: "broker_reachable unsub s \<Longrightarrow> fifo_inv s"
proof (induction rule: broker_reachable.induct)
  case start
  show ?case by (simp add: fifo_inv_def sys_new_def broker_inv_new) (simp add: broker_new_def)
qed (blast intro: fifo_inv_step)

text \<open>C15: however threads interleave, each subscription hands out its messages once, in the order
  they were published, without a gap; and while the topic is subscribed, what was published and not
  yet delivered is exactly what is queued.\<close>

theorem broker_fifo:
  assumes "broker_reachable unsub s"
  shows "prefix (delivered s r) (published s r) \<and>
    (\<forall>tp n. map_of (queues (broker s)) tp = Some n \<longrightarrow>
       published s (node_id n) = delivered s (node_id n) @ node_queue n \<and>
       pending_count tp (broker s) = Inr (length (published s (node_id n)) - length (delivered s (node_id n))))"
  using fifo_inv_reachable[OF assms] by (auto simp: fifo_inv_def pending_count_def)

definition lone_wait :: BrokerSys where
  "lone_wait = sys_new\<lparr>broker := snd (subscribe ''t'' broker_new), waiting := [0 \<mapsto> 0]\<rparr>"

lemma lone_wait_reachable: "broker_reachable unsub lone_wait"
proof -
  have 1: "broker_reachable unsub (sys_new\<lparr>broker := snd (subscribe ''t'' (broker sys_new))\<rparr>)"
    by (rule broker_reachable.step[OF broker_reachable.start broker_step.subscribe])
  have "broker_reachable unsub ((sys_new\<lparr>broker := snd (subscribe ''t'' (broker sys_new))\<rparr>)
      \<lparr>waiting := (waiting (sys_new\<lparr>broker := snd (subscribe ''t'' (broker sys_new))\<rparr>))(0 \<mapsto> 0)\<rparr>)"
    by (rule broker_reachable.step[OF 1 broker_step.wait[where tp = "''t''"]])
       (simp_all add: sys_new_def consume_enter_def subscribe_def broker_new_def)
  then show ?thesis by (simp add: lone_wait_def sys_new_def)
qed

theorem broker_fifo_witness:
  "prefix (delivered lone_wait 0) (published lone_wait 0) \<and>
   pending_count ''t'' (broker lone_wait) = Inr 0"
proof -
  have "map_of (queues (broker lone_wait)) ''t'' = Some \<lparr>node_id = 0, node_queue = []\<rparr>"
    by (simp add: lone_wait_def subscribe_def broker_new_def)
  then show ?thesis
    using broker_fifo[OF lone_wait_reachable, where r = 0] by (fastforce simp: lone_wait_def sys_new_def)
qed

text \<open>What waiting threads need: their node is still there.\<close>

definition live_ids :: "Broker \<Rightarrow> nat set" where
  "live_ids b = (node_id \<circ> snd) ` set (queues b)"

definition refs_inv :: "BrokerSys \<Rightarrow> bool" where
  "refs_inv s \<longleftrightarrow> broker_inv (broker s) \<and>
     (\<forall>t r. waiting s t = Some r \<longrightarrow> r \<in> live_ids (broker s))"

lemma deref_None: "deref r b = None \<longleftrightarrow> r \<notin> live_ids b"
  by (force simp: live_ids_def deref_def find_None_iff)

lemma update_ids:
  assumes "broker_inv b" and "map_of (queues b) tp = Some n" and "node_id n' = node_id n"
  shows "live_ids (b\<lparr>queues := AList.update tp n' (queues b)\<rparr>) = live_ids b"
proof -
  have "distinct (map fst (queues b))" using assms(1) by (simp add: broker_inv_def)
  from arg_cong[OF update_same_node(1)[OF this assms(2,3)], of set] show ?thesis
    by (simp add: live_ids_def)
qed

lemma resume_ids:
  assumes "broker_inv b" and "consume_resume r b = Some (res, b')"
  shows "live_ids b' = live_ids b"
  using resume_cases[OF assms] update_ids[OF assms(1)] by auto

lemma publish_ids:
  assumes "broker_inv b"
  shows "live_ids (snd (publish now r0 r1 m b)) = live_ids b"
  using update_ids[OF assms] by (auto simp: publish_def split: option.splits)

lemma subscribe_ids:
  "live_ids b \<subseteq> live_ids (snd (subscribe tp b))"
  by (auto simp: live_ids_def subscribe_def map_of_None_update)

lemma enter_ids:
  assumes "consume_enter tp b = Inr (r, w)"
  shows "r \<in> live_ids b"
  using assms by (force simp: live_ids_def consume_enter_def dest!: map_of_SomeD split: if_splits option.splits)

lemma refs_inv_step: "broker_step False s s' \<Longrightarrow> refs_inv s \<Longrightarrow> refs_inv s'"
proof (induction rule: broker_step.induct)
  case (publish s m n now r0 r1)
  then show ?case by (simp add: refs_inv_def broker_inv_publish publish_ids)
next
  case (subscribe s tp)
  then show ?case using subscribe_ids[of "broker s" tp] by (fastforce simp: refs_inv_def broker_inv_subscribe)
next
  case (consume s t tp r res b')
  then show ?case using resume_ids[of "broker s" r res b'] broker_inv_resume[of "broker s" r res b']
    by (simp add: refs_inv_def)
next
  case (wait s t tp r)
  then show ?case using enter_ids[of tp "broker s" r True] by (auto simp: refs_inv_def)
next
  case (resume s t r res b')
  then show ?case using resume_ids[of "broker s" r res b'] broker_inv_resume[of "broker s" r res b']
    by (auto simp: refs_inv_def)
qed (auto simp: refs_inv_def broker_destroy_def broker_inv_def live_ids_def)

text \<open>As long as no thread unsubscribes, a thread that waits in \<^verbatim>\<open>consume\<close> never touches an
  erased queue, and it can always complete its call.\<close>

theorem consume_safe_without_unsubscribe:
  assumes "broker_reachable False s" and "waiting s t = Some r"
  shows "\<not> waits_on_erased s t \<and> (\<exists>res b'. consume_resume r (broker s) = Some (res, b'))"
proof -
  have "refs_inv s" using assms(1)
  proof (induction rule: broker_reachable.induct)
    case start
    show ?case by (simp add: refs_inv_def sys_new_def broker_inv_new)
  qed (blast intro: refs_inv_step)
  then have "deref r (broker s) \<noteq> None" using assms(2) by (auto simp: refs_inv_def deref_None)
  then have "consume_resume r (broker s) \<noteq> None"
    by (auto simp: consume_resume_def split: list.splits)
  then show ?thesis using assms(2) by (auto simp: waits_on_erased_def)
qed

theorem consume_safe_without_unsubscribe_witness:
  "waiting lone_wait 0 = Some 0 \<and> \<not> waits_on_erased lone_wait 0"
proof -
  have w: "waiting lone_wait 0 = Some 0" by (simp add: lone_wait_def)
  from consume_safe_without_unsubscribe[OF lone_wait_reachable w] w show ?thesis by blast
qed

text \<open>C16: when a topic is unsubscribed while a thread waits for it, the thread reads through a
  reference to an erased queue: such a state can be reached.\<close>

theorem unsubscribe_breaks_waiting_consume:
  "\<exists>s t. broker_reachable True s \<and> waits_on_erased s t"
proof -
  have "broker_reachable True (lone_wait\<lparr>broker := snd (unsubscribe ''t'' (broker lone_wait))\<rparr>)"
    by (rule broker_reachable.step[OF lone_wait_reachable broker_step.unsubscribe]) simp
  moreover have "waits_on_erased (lone_wait\<lparr>broker := snd (unsubscribe ''t'' (broker lone_wait))\<rparr>) 0"
    by (simp add: waits_on_erased_def lone_wait_def sys_new_def unsubscribe_def subscribe_def
      broker_new_def consume_resume_def deref_def)
  ultimately show ?thesis by blast
qed

end
