(* ===== verification/Cache.thy ===== *)
theory Cache
  imports Result
begin

text \<open>
  \<^verbatim>\<open>src/infrastructure/cache/cache_adapter.{hpp,cpp}\<close>: the in-memory cache with lazily evicted
  entries. The \<^verbatim>\<open>unordered_map\<close> is an association list with one pair per key, so that the eviction
  loop can be followed element by element. Each operation takes the reading of the clock it makes;
  time points and durations are 64-bit counts (nanoseconds, seconds) that wrap. An operation runs
  under the cache's mutex, so operations are atomic steps. \<^verbatim>\<open>std::bad_alloc\<close> and failing locks,
  the only exceptions the try blocks could catch, are not modelled.
\<close>

record Entry =
  entry_value :: string
  expires_at :: int64
  has_ttl :: bool

record InMemoryCache =
  default_ttl :: int64
  entries :: "(string \<times> Entry) list"

definition cache_new :: "int64 \<Rightarrow> InMemoryCache" where
  "cache_new ttl = \<lparr>default_ttl = ttl, entries = []\<rparr>"

text \<open>The test of \<^verbatim>\<open>get\<close>, \<^verbatim>\<open>exists\<close> and \<^verbatim>\<open>evict_expired\<close>.\<close>

definition expired :: "int64 \<Rightarrow> Entry \<Rightarrow> bool" where
  "expired now e \<longleftrightarrow> has_ttl e \<and> expires_at e \<le>s now"

definition cache_get :: "int64 \<Rightarrow> string \<Rightarrow> InMemoryCache \<Rightarrow> string option Result \<times> InMemoryCache" where
  "cache_get now key c =
     (case map_of (entries c) key of
        None \<Rightarrow> (Inr None, c)
      | Some e \<Rightarrow>
          if expired now e then (Inr None, c\<lparr>entries := AList.delete key (entries c)\<rparr>)
          else (Inr (Some (entry_value e)), c))"

text \<open>Seconds are converted to the clock's nanoseconds by a multiplication of the counts.\<close>

definition cache_set ::
  "int64 \<Rightarrow> string \<Rightarrow> string \<Rightarrow> int64 \<Rightarrow> InMemoryCache \<Rightarrow> unit Result \<times> InMemoryCache" where
  "cache_set now key val ttl c =
     (let effective_ttl = (if ttl = 0 \<and> 0 <s default_ttl c then default_ttl c else ttl);
          entry = (if 0 <s effective_ttl
                   then \<lparr>entry_value = val, expires_at = now + effective_ttl * 1000000000, has_ttl = True\<rparr>
                   else \<lparr>entry_value = val, expires_at = 0, has_ttl = False\<rparr>)
      in (Inr (), c\<lparr>entries := AList.update key entry (entries c)\<rparr>))"

definition cache_del :: "string \<Rightarrow> InMemoryCache \<Rightarrow> unit Result \<times> InMemoryCache" where
  "cache_del key c = (Inr (), c\<lparr>entries := AList.delete key (entries c)\<rparr>)"

definition cache_exists :: "int64 \<Rightarrow> string \<Rightarrow> InMemoryCache \<Rightarrow> bool Result \<times> InMemoryCache" where
  "cache_exists now key c =
     (case map_of (entries c) key of
        None \<Rightarrow> (Inr False, c)
      | Some e \<Rightarrow>
          if expired now e then (Inr False, c\<lparr>entries := AList.delete key (entries c)\<rparr>)
          else (Inr True, c))"

definition cache_flush :: "InMemoryCache \<Rightarrow> unit Result \<times> InMemoryCache" where
  "cache_flush c = (Inr (), c\<lparr>entries := []\<rparr>)"

text \<open>The loop of \<^verbatim>\<open>evict_expired\<close>: erase the entry under the iterator or advance it.\<close>

fun evict_loop :: "int64 \<Rightarrow> (string \<times> Entry) list \<Rightarrow> (string \<times> Entry) list" where
  "evict_loop now [] = []"
| "evict_loop now ((k, e) # es) =
     (if expired now e then evict_loop now es else (k, e) # evict_loop now es)"

definition evict_expired :: "int64 \<Rightarrow> InMemoryCache \<Rightarrow> unit Result \<times> InMemoryCache" where
  "evict_expired now c = (Inr (), c\<lparr>entries := evict_loop now (entries c)\<rparr>)"

section \<open>The class\<close>

text \<open>The virtual functions of \<^verbatim>\<open>CacheAdapter\<close>, those that read the clock with its reading, and the class that
  overrides them.\<close>

record 'c CacheAdapter =
  ca_get :: "int64 \<Rightarrow> string \<Rightarrow> 'c \<Rightarrow> string option Result \<times> 'c"
  ca_set :: "int64 \<Rightarrow> string \<Rightarrow> string \<Rightarrow> int64 \<Rightarrow> 'c \<Rightarrow> unit Result \<times> 'c"
  ca_del :: "string \<Rightarrow> 'c \<Rightarrow> unit Result \<times> 'c"
  ca_exists :: "int64 \<Rightarrow> string \<Rightarrow> 'c \<Rightarrow> bool Result \<times> 'c"
  ca_flush :: "'c \<Rightarrow> unit Result \<times> 'c"

definition in_memory_cache :: "InMemoryCache CacheAdapter" where
  "in_memory_cache = \<lparr>ca_get = cache_get, ca_set = cache_set, ca_del = cache_del, ca_exists = cache_exists,
     ca_flush = cache_flush\<rparr>"

section \<open>Invariant and abstraction\<close>

definition cache_inv :: "InMemoryCache \<Rightarrow> bool" where
  "cache_inv c \<longleftrightarrow> distinct (map fst (entries c))"

text \<open>What a cache holds at a time: the values that have not expired.\<close>

definition live :: "int64 \<Rightarrow> InMemoryCache \<Rightarrow> string \<Rightarrow> string option" where
  "live now c k = (case map_of (entries c) k of None \<Rightarrow> None
     | Some e \<Rightarrow> if expired now e then None else Some (entry_value e))"

lemma evict_loop_filter: "evict_loop now es = filter (\<lambda>(k, e). \<not> expired now e) es"
  by (induction es rule: evict_loop.induct) auto

lemma map_of_evict_loop:
  assumes "distinct (map fst es)"
  shows "map_of (evict_loop now es) k =
    (case map_of es k of None \<Rightarrow> None | Some e \<Rightarrow> if expired now e then None else Some e)"
  using assms
proof (induction es)
  case (Cons p es)
  obtain k' e where p: "p = (k', e)" by force
  have "map_of (evict_loop now es) k' = None" if "k' \<notin> fst ` set es"
    using that by (auto simp: evict_loop_filter map_of_eq_None_iff)
  with Cons p show ?case by auto
qed simp

lemma expired_later: "expired now e \<Longrightarrow> now \<le>s later \<Longrightarrow> expired later e"
  by (auto simp: expired_def word_sle_eq)

lemma cache_inv_new: "cache_inv (cache_new ttl)"
  by (simp add: cache_inv_def cache_new_def)

lemma cache_inv_new' [simp]: "cache_inv (c\<lparr>entries := []\<rparr>)"
  by (simp add: cache_inv_def)

lemma cache_inv_delete:
  "cache_inv c \<Longrightarrow> cache_inv (c\<lparr>entries := AList.delete k (entries c)\<rparr>)"
  by (simp add: cache_inv_def distinct_delete)

lemma cache_inv_ops:
  assumes "cache_inv c"
  shows "cache_inv (snd (cache_get now k c))" "cache_inv (snd (cache_set now k v ttl c))"
    "cache_inv (snd (cache_del k c))" "cache_inv (snd (cache_exists now k c))"
    "cache_inv (snd (cache_flush c))" "cache_inv (snd (evict_expired now c))"
proof -
  show "cache_inv (snd (evict_expired now c))"
    using assms by (auto simp: cache_inv_def evict_expired_def evict_loop_filter distinct_map inj_on_def)
qed (use assms cache_inv_delete in \<open>auto simp: cache_get_def cache_set_def cache_del_def
      cache_exists_def cache_flush_def cache_inv_def distinct_update distinct_delete Let_def
      split: option.splits\<close>)

lemma live_delete:
  "live t (c\<lparr>entries := AList.delete k (entries c)\<rparr>) = (live t c)(k := None)"
  by (auto simp: live_def fun_eq_iff delete_conv')

section \<open>The interface\<close>

text \<open>
  The contract of \<^verbatim>\<open>CacheAdapter\<close>: the operations against the map of what the cache holds at a
  time. \<open>held c\<close> at a later time is part of the state a caller can observe, so the laws speak
  of every time from now on. \<open>deadline\<close> gives the time up to which a stored value is kept.
\<close>

locale cache_adapter =
  fixes get :: "int64 \<Rightarrow> string \<Rightarrow> 'c \<Rightarrow> string option Result \<times> 'c"
    and set :: "int64 \<Rightarrow> string \<Rightarrow> string \<Rightarrow> int64 \<Rightarrow> 'c \<Rightarrow> unit Result \<times> 'c"
    and del :: "string \<Rightarrow> 'c \<Rightarrow> unit Result \<times> 'c"
    and exists :: "int64 \<Rightarrow> string \<Rightarrow> 'c \<Rightarrow> bool Result \<times> 'c"
    and flush :: "'c \<Rightarrow> unit Result \<times> 'c"
    and held :: "int64 \<Rightarrow> 'c \<Rightarrow> string \<Rightarrow> string option"
    and kept :: "int64 \<Rightarrow> int64 \<Rightarrow> 'c \<Rightarrow> int64 \<Rightarrow> bool"
    and inv :: "'c \<Rightarrow> bool"
  assumes get_value: "inv c \<Longrightarrow> fst (get now k c) = Inr (held now c k)"
    and get_frame: "inv c \<Longrightarrow> now \<le>s t \<Longrightarrow> held t (snd (get now k c)) = held t c"
    and set_value: "inv c \<Longrightarrow>
      held t (snd (set now k v ttl c)) = (held t c)(k := (if kept now ttl c t then Some v else None))"
    and del_value: "inv c \<Longrightarrow> held t (snd (del k c)) = (held t c)(k := None)"
    and exists_value: "inv c \<Longrightarrow> fst (exists now k c) = Inr (held now c k \<noteq> None)"
    and exists_frame: "inv c \<Longrightarrow> now \<le>s t \<Longrightarrow> held t (snd (exists now k c)) = held t c"
    and flush_value: "inv c \<Longrightarrow> held t (snd (flush c)) k = None"
    and inv_get: "inv c \<Longrightarrow> inv (snd (get now k c))"
    and inv_set: "inv c \<Longrightarrow> inv (snd (set now k v ttl c))"
    and inv_del: "inv c \<Longrightarrow> inv (snd (del k c))"
    and inv_exists: "inv c \<Longrightarrow> inv (snd (exists now k c))"
    and inv_flush: "inv c \<Longrightarrow> inv (snd (flush c))"
    and held_shrinks: "held t c k = Some v \<Longrightarrow> now \<le>s t \<Longrightarrow> held now c k = Some v"
begin

lemma get_after_set:
  "inv c \<Longrightarrow> fst (get t k (snd (set now k v ttl c))) = Inr (if kept now ttl c t then Some v else None)"
  by (simp add: get_value inv_set set_value)

lemma get_after_set_other:
  "inv c \<Longrightarrow> k' \<noteq> k \<Longrightarrow> fst (get t k' (snd (set now k v ttl c))) = fst (get t k' c)"
  by (simp add: get_value inv_set set_value)

lemma get_after_del: "inv c \<Longrightarrow> fst (get t k (snd (del k c))) = Inr None"
  by (simp add: get_value inv_del del_value)

lemma get_after_flush: "inv c \<Longrightarrow> fst (get t k (snd (flush c))) = Inr None"
  by (simp add: get_value inv_flush flush_value)

lemma exists_agrees_get:
  "inv c \<Longrightarrow> fst (exists now k c) = Inr (fst (get now k c) \<noteq> Inr None)"
  by (simp add: get_value exists_value)

lemma reads_keep_later_reads:
  assumes "inv c" and "now \<le>s t"
  shows "fst (get t k' (snd (get now k c))) = fst (get t k' c)"
    and "fst (get t k' (snd (exists now k c))) = fst (get t k' c)"
  using assms by (simp_all add: get_value inv_get inv_exists get_frame exists_frame)

lemma miss_stays_missed:
  assumes "inv c" and "now \<le>s t" and "fst (get now k c) = Inr None"
  shows "fst (get t k c) = Inr None"
proof -
  have "held now c k = None" using assms by (simp add: get_value)
  then have "held t c k = None" using held_shrinks[OF _ assms(2)] by (cases "held t c k") auto
  then show ?thesis using assms(1) by (simp add: get_value)
qed

end

text \<open>The time up to which the in-memory cache keeps what \<^verbatim>\<open>set\<close> stores.\<close>

definition ttl_kept :: "int64 \<Rightarrow> int64 \<Rightarrow> InMemoryCache \<Rightarrow> int64 \<Rightarrow> bool" where
  "ttl_kept now ttl c t =
     (let eff = (if ttl = 0 \<and> 0 <s default_ttl c then default_ttl c else ttl)
      in 0 <s eff \<longrightarrow> t <s now + eff * 1000000000)"

lemma not_sle: "\<not> a \<le>s b \<longleftrightarrow> b <s a" for a b :: int64
  by (auto simp: word_sle_eq word_sless_alt)

interpretation mem: cache_adapter cache_get cache_set cache_del cache_exists cache_flush live ttl_kept cache_inv
proof unfold_locales
  show "fst (cache_get now k c) = Inr (live now c k)" for now k c
    by (auto simp: cache_get_def live_def split: option.splits)
  show "fst (cache_exists now k c) = Inr (live now c k \<noteq> None)" for now k c
    by (auto simp: cache_exists_def live_def split: option.splits)
  show "live t (snd (cache_get now k c)) = live t c" if "now \<le>s t" for now t k c
    using that expired_later[OF _ that]
    by (auto simp: cache_get_def live_delete fun_eq_iff split: option.splits) (auto simp: live_def)
  show "live t (snd (cache_exists now k c)) = live t c" if "now \<le>s t" for now t k c
    using that expired_later[OF _ that]
    by (auto simp: cache_exists_def live_delete fun_eq_iff split: option.splits) (auto simp: live_def)
  show "live t (snd (cache_set now k v ttl c)) = (live t c)(k := (if ttl_kept now ttl c t then Some v else None))"
    for t now k v ttl c
    by (auto simp: cache_set_def live_def fun_eq_iff ttl_kept_def Let_def expired_def update_conv' not_sle[symmetric])
  show "live now c k = Some v" if "live t c k = Some v" "now \<le>s t" for t c k v now
    using that expired_later by (auto simp: live_def split: option.splits if_splits)
qed (auto simp: cache_del_def live_delete cache_inv_ops cache_inv_delete cache_inv_new' cache_flush_def live_def)

section \<open>Times to live\<close>

lemma deadline_exact:
  fixes now ttl :: int64
  assumes "0 < sint ttl" and "0 \<le> sint now" and "sint now + sint ttl * 10 ^ 9 < 2 ^ 63"
  shows "sint (now + ttl * 1000000000) = sint now + sint ttl * 10 ^ 9"
proof -
  have "sint (ttl * 1000000000) = sint ttl * 10 ^ 9"
    using assms by (simp add: sint_word_ariths(3) signed_take_bit_int_eq_self)
  then show ?thesis
    using assms by (simp add: sint_word_ariths(1) signed_take_bit_int_eq_self)
qed

text \<open>C17: a value stored with a positive time to live, none of it overflowing the clock, is read
  back exactly until its deadline, and every other key is read as before.\<close>

theorem cache_set_get:
  assumes "cache_inv c" and "0 < sint ttl" and "0 \<le> sint now" and "sint now + sint ttl * 10 ^ 9 < 2 ^ 63"
  shows "fst (cache_get t key (snd (cache_set now k v ttl c))) =
    (if key = k then Inr (if sint t < sint now + sint ttl * 10 ^ 9 then Some v else None)
     else fst (cache_get t key c))"
proof -
  have "0 <s ttl" "ttl \<noteq> 0" using assms(2) by (auto simp: word_sless_alt)
  then have "ttl_kept now ttl c t \<longleftrightarrow> sint t < sint now + sint ttl * 10 ^ 9"
    using deadline_exact[OF assms(2-4)] by (simp add: ttl_kept_def word_sless_alt)
  then show ?thesis
    using mem.get_after_set[OF assms(1)] mem.get_after_set_other[OF assms(1)] by simp
qed

theorem cache_set_get_witness:
  "fst (cache_get 60000000000 ''k'' (snd (cache_set 0 ''k'' ''v'' 60 (cache_new 0)))) = Inr None \<and>
   fst (cache_get 59999999999 ''k'' (snd (cache_set 0 ''k'' ''v'' 60 (cache_new 0)))) = Inr (Some ''v'')"
  using cache_set_get[OF cache_inv_new, of 60 0 60000000000 "''k''" "''k''" "''v''" 0]
    cache_set_get[OF cache_inv_new, of 60 0 59999999999 "''k''" "''k''" "''v''" 0]
  by simp

text \<open>With a default time to live, storing with time to live 0 does not store for ever: the
  default is applied, so the entry is gone after it.\<close>

theorem cache_default_ttl:
  assumes "cache_inv c" and "0 < sint (default_ttl c)" and "0 \<le> sint now"
    and "sint now + sint (default_ttl c) * 10 ^ 9 < 2 ^ 63"
  shows "fst (cache_get t k (snd (cache_set now k v 0 c))) =
    Inr (if sint t < sint now + sint (default_ttl c) * 10 ^ 9 then Some v else None)"
proof -
  have "0 <s default_ttl c" using assms(2) by (auto simp: word_sless_alt)
  then have "ttl_kept now 0 c t \<longleftrightarrow> sint t < sint now + sint (default_ttl c) * 10 ^ 9"
    using deadline_exact[OF assms(2-4)] by (simp add: ttl_kept_def word_sless_alt)
  then show ?thesis using mem.get_after_set[OF assms(1)] by simp
qed

theorem cache_default_ttl_witness:
  "fst (cache_get 300000000000 ''k'' (snd (cache_set 0 ''k'' ''v'' 0 (cache_new 300)))) = Inr None"
  using cache_default_ttl[OF cache_inv_new, of 300 0 300000000000 "''k''" "''v''"]
  by (simp add: cache_new_def)

section \<open>Sequences of calls\<close>

datatype cache_call =
    CGet string
  | CSet string string int64
  | CDel string
  | CExists string
  | CFlush
  | CEvict

datatype cache_reply = RValue "string option Result" | RDone "unit Result" | RBool "bool Result"

fun cache_step :: "int64 \<Rightarrow> cache_call \<Rightarrow> InMemoryCache \<Rightarrow> cache_reply \<times> InMemoryCache" where
  "cache_step now (CGet k) c = map_prod RValue id (cache_get now k c)"
| "cache_step now (CSet k v ttl) c = map_prod RDone id (cache_set now k v ttl c)"
| "cache_step now (CDel k) c = map_prod RDone id (cache_del k c)"
| "cache_step now (CExists k) c = map_prod RBool id (cache_exists now k c)"
| "cache_step now CFlush c = map_prod RDone id (cache_flush c)"
| "cache_step now CEvict c = map_prod RDone id (evict_expired now c)"

text \<open>The replies to a sequence of calls, each with the clock's reading.\<close>

fun cache_run :: "(int64 \<times> cache_call) list \<Rightarrow> InMemoryCache \<Rightarrow> cache_reply list" where
  "cache_run [] c = []"
| "cache_run ((now, q) # qs) c = (let (r, c') = cache_step now q c in r # cache_run qs c')"

text \<open>Two caches that hold the same from a time on.\<close>

definition same_from :: "int64 \<Rightarrow> InMemoryCache \<Rightarrow> InMemoryCache \<Rightarrow> bool" where
  "same_from t c d \<longleftrightarrow> cache_inv c \<and> cache_inv d \<and> default_ttl c = default_ttl d \<and>
     (\<forall>t'. t \<le>s t' \<longrightarrow> live t' c = live t' d)"

lemma live_evict:
  assumes "cache_inv c" and "now \<le>s t"
  shows "live t (snd (evict_expired now c)) = live t c"
  using assms expired_later[OF _ assms(2)]
  by (auto simp: live_def evict_expired_def map_of_evict_loop cache_inv_def fun_eq_iff split: option.splits)

lemma default_ttl_step [simp]: "default_ttl (snd (cache_step now q c)) = default_ttl c"
  by (cases q) (auto simp: cache_get_def cache_set_def cache_del_def cache_exists_def cache_flush_def
    evict_expired_def Let_def split: option.splits)

lemma cache_inv_step: "cache_inv c \<Longrightarrow> cache_inv (snd (cache_step now q c))"
  using cache_inv_ops by (cases q) auto

lemma sle_trans: "a \<le>s b \<Longrightarrow> b \<le>s c \<Longrightarrow> a \<le>s c" for a b c :: int64
  by (simp add: word_sle_eq)

lemma same_from_step:
  assumes "same_from t c d" and "t \<le>s now"
  shows "fst (cache_step now q c) = fst (cache_step now q d)"
    and "same_from now (snd (cache_step now q c)) (snd (cache_step now q d))"
proof -
  have inv: "cache_inv c" "cache_inv d" and ttl: "default_ttl c = default_ttl d"
    and l: "live t' c = live t' d" if "now \<le>s t'" for t'
    using assms sle_trans[OF assms(2) that] by (auto simp: same_from_def)
  have inv: "cache_inv c" "cache_inv d" and ttl: "default_ttl c = default_ttl d"
    using assms(1) by (auto simp: same_from_def)
  have now: "live now c = live now d" by (rule l) (simp add: word_sle_eq)
  show "fst (cache_step now q c) = fst (cache_step now q d)"
    using now mem.get_value[OF inv(1)] mem.get_value[OF inv(2)] mem.exists_value[OF inv(1)]
      mem.exists_value[OF inv(2)]
    by (cases q) (auto simp: cache_set_def cache_del_def cache_flush_def evict_expired_def Let_def)
  have "live t' (snd (cache_step now q c)) = live t' (snd (cache_step now q d))" if t': "now \<le>s t'" for t'
    using l[OF t'] ttl mem.get_frame[OF inv(1) t'] mem.get_frame[OF inv(2) t']
      mem.exists_frame[OF inv(1) t'] mem.exists_frame[OF inv(2) t']
      live_evict[OF inv(1) t'] live_evict[OF inv(2) t']
    by (cases q) (auto simp: mem.set_value mem.del_value inv ttl_kept_def fun_eq_iff
      mem.flush_value[OF inv(1)] mem.flush_value[OF inv(2)])
  then show "same_from now (snd (cache_step now q c)) (snd (cache_step now q d))"
    using inv ttl by (simp add: same_from_def cache_inv_step)
qed

lemma same_from_run:
  "same_from t c d \<Longrightarrow> sorted_wrt (\<lambda>a b. a \<le>s b) (t # map fst qs) \<Longrightarrow> cache_run qs c = cache_run qs d"
proof (induction qs arbitrary: t c d)
  case (Cons p qs)
  obtain now q where p: "p = (now, q)" by force
  have le: "t \<le>s now" using Cons.prems(2) p by simp
  note st = same_from_step[OF Cons.prems(1) le, of q]
  have "cache_run qs (snd (cache_step now q c)) = cache_run qs (snd (cache_step now q d))"
    by (rule Cons.IH[OF st(2)]) (use Cons.prems(2) p in auto)
  then show ?case using st(1) by (simp add: p case_prod_beta)
qed simp

text \<open>C18: evicting expired entries cannot be observed: no later sequence of calls, at times that do
  not go back, gets another reply from the evicted cache than from the cache itself, although the
  evicted cache keeps only what has not expired.\<close>

theorem evict_unobservable:
  assumes "cache_inv c" and "sorted_wrt (\<lambda>a b. a \<le>s b) (now # map fst qs)"
  shows "cache_run qs (snd (evict_expired now c)) = cache_run qs c \<and>
    (\<forall>(k, e) \<in> set (entries (snd (evict_expired now c))). \<not> expired now e)"
proof
  have "same_from now (snd (evict_expired now c)) c"
    using assms(1) live_evict[OF assms(1)] cache_inv_ops(6)[OF assms(1)]
    by (simp add: same_from_def evict_expired_def)
  then show "cache_run qs (snd (evict_expired now c)) = cache_run qs c"
    using assms(2) by (rule same_from_run)
  show "\<forall>(k, e) \<in> set (entries (snd (evict_expired now c))). \<not> expired now e"
    by (auto simp: evict_expired_def evict_loop_filter)
qed

definition stale_cache :: InMemoryCache where
  "stale_cache = snd (cache_set 0 ''b'' ''2'' 9 (snd (cache_set 0 ''a'' ''1'' 1 (cache_new 0))))"

theorem evict_unobservable_witness:
  "entries (snd (evict_expired 2000000000 stale_cache)) \<noteq> entries stale_cache \<and>
   cache_run [(2000000000, CGet ''a''), (3000000000, CExists ''b'')] (snd (evict_expired 2000000000 stale_cache))
   = [RValue (Inr None), RBool (Inr True)]"
proof -
  have inv: "cache_inv stale_cache"
    unfolding stale_cache_def by (intro cache_inv_ops cache_inv_new)
  have "sorted_wrt (\<lambda>a b. a \<le>s b)
      (2000000000 # map fst [(2000000000 :: int64, CGet ''a''), (3000000000, CExists ''b'')])"
    by (simp add: word_sle_eq)
  from evict_unobservable[OF inv this] show ?thesis
    by (simp add: stale_cache_def cache_set_def cache_new_def Let_def evict_expired_def expired_def
      word_sle_eq word_sless_alt cache_get_def cache_exists_def)
qed

end
