(* ===== verification/Spec2Isabelle.thy ===== *)
theory Spec2Isabelle
  imports App Races Pooled Service Catalog LowStock Accounts Broker Cache Double
begin

text \<open>
  A verification development for the warehouse inventory backend, a C++23 service: item and
  authentication endpoints over HTTP (drogon), use cases, repositories over PostgreSQL (libpqxx), a
  connection pool, database migrations, an in-memory cache and an in-memory message broker. The source
  is under \<^verbatim>\<open>src/src/\<close>; paths below are relative to it.

  \<^bold>\<open>How the parts interact.\<close> \<^verbatim>\<open>main.cpp\<close> reads the configuration, makes a connection pool, applies the
  migrations, makes the two repositories over the pool and the use cases over the repositories, and
  registers the controllers. A request reaches a controller, which converts and validates the body and
  calls a use case; the use case works on value objects and entities and calls a repository; every
  repository operation takes a connection from the pool, runs one transaction and gives the connection
  back. Cache and broker are components of their own that nothing calls yet.

  \<^bold>\<open>The theories.\<close>
  \<^item> \<^verbatim>\<open>Prelude\<close>: machine integers, operations that may block (\<open>('s, 'a) op\<close>), exceptions as values, the
    invariant triple \<open>keeps\<close> with its composition rules, conversions between numbers and text.
  \<^item> \<^verbatim>\<open>Result\<close>: \<^verbatim>\<open>common/result.hpp\<close>, errors with their codes; \<^verbatim>\<open>Result<T>\<close> is a sum.
  \<^item> \<^verbatim>\<open>Uuid\<close>, \<^verbatim>\<open>TimeUtils\<close>: \<^verbatim>\<open>common/utils/\<close>; two 64-bit words, and time points as nanoseconds.
  \<^item> \<^verbatim>\<open>Values\<close>, \<^verbatim>\<open>Double\<close>: \<^verbatim>\<open>core/value_objects/\<close>, and the two computations in double precision.
  \<^item> \<^verbatim>\<open>Entities\<close>, \<^verbatim>\<open>Repository\<close>, \<^verbatim>\<open>UseCases\<close>: \<^verbatim>\<open>core/entities/\<close>, \<^verbatim>\<open>core/repositories/\<close>,
    \<^verbatim>\<open>core/use_cases/\<close>. Repositories are records of operations; their contracts are the locales
    \<open>item_repository\<close> and \<open>user_directory\<close>, and the use cases are verified inside them.
  \<^item> \<^verbatim>\<open>Pool\<close>, \<^verbatim>\<open>Pqxx\<close>: \<^verbatim>\<open>infrastructure/database/connection_pool.cpp\<close>, with a step relation over handles in
    any interleaving; and the shape of a database operation, one transaction inside a \<^verbatim>\<open>try\<close> block.
  \<^item> \<^verbatim>\<open>PgItems\<close>, \<^verbatim>\<open>PgStore\<close>, \<^verbatim>\<open>PgUsers\<close>: \<^verbatim>\<open>infrastructure/repositories/\<close>. The locales \<open>sql_items\<close> and
    \<open>sql_users\<close> state what PostgreSQL and libpqxx do on the statements sent; sublocales show that the
    repositories then keep the contracts of \<^verbatim>\<open>Repository\<close>.
  \<^item> \<^verbatim>\<open>Listing\<close>: the dynamic queries of the item repository as lists of conditions; the locale \<open>sql_listing\<close>
    states what PostgreSQL selects, orders and counts for them, and a sublocale that listing then keeps the
    contract \<open>listing_repository\<close>.
  \<^item> \<^verbatim>\<open>LowStock\<close>: the low-stock report, whose SQL condition is compared with \<^verbatim>\<open>is_low_stock\<close> of \<^verbatim>\<open>core/entities/item.hpp\<close>
    (locales \<open>sql_low\<close>, \<open>stock_repository\<close>).
  \<^item> \<^verbatim>\<open>Accounts\<close>: the writing operations of the user repository (locales \<open>sql_accounts\<close>, \<open>user_store\<close>), and the life
    of an account as the login sees it.
  \<^item> \<^verbatim>\<open>Server\<close>, \<^verbatim>\<open>Inventory\<close>: an executable server that satisfies \<open>sql_items\<close> and \<open>sql_listing\<close> (it reads the
    conditions back out of the text of a query), and the item use cases over the PostgreSQL repository, end to end.
  \<^item> \<^verbatim>\<open>Migrate\<close>: \<^verbatim>\<open>infrastructure/database/migration.cpp\<close> against the specification \<open>run_files\<close>; \<^verbatim>\<open>Faults\<close>: the same
    when statements, begins and commits fail (locale \<open>migration_faults\<close>, of which \<open>migration_db\<close> is a special case).
  \<^item> \<^verbatim>\<open>Json\<close>, \<^verbatim>\<open>Dto\<close>, \<^verbatim>\<open>ItemApi\<close>: \<^verbatim>\<open>api/dto/\<close>, \<^verbatim>\<open>api/validators/\<close> and the item controller; a handler gives
    the response or the exception that leaves it.
  \<^item> \<^verbatim>\<open>Traffic\<close>, \<^verbatim>\<open>Service\<close>: sequences of arbitrary calls to the item endpoints, and to those of both controllers
    over one database (locales \<open>sql_shop\<close>, \<open>shared_service\<close>), with an executable server that has both tables.
  \<^item> \<^verbatim>\<open>Catalog\<close>: an abstract catalog (\<open>catalog_step\<close>: which answer a call may get and what it does to the table,
    said of the members of the JSON bodies and not by the decoders and validators of the code) and the refinement of it by the item endpoints over PostgreSQL (locales \<open>sql_exact\<close>, \<open>exact_repository\<close>).
  \<^item> \<^verbatim>\<open>Workers\<close>, \<^verbatim>\<open>Races\<close>: the handlers as threads over one repository, in any interleaving. A handler runs
    over a repository that answers from a script (\<open>probe_repo\<close>), so that the replies it has got tell which
    operation it asks for next; a turn performs that operation on the real repository, at once, as one
    transaction with one statement does. Creations and updates of one item that overlap.
  \<^item> \<^verbatim>\<open>Pooled\<close>: the same threads when taking a connection and using it are separate turns, so that threads
    wait for each other; the measure \<open>total_weight\<close> of the turns still needed falls in every round of turns.
  \<^item> \<^verbatim>\<open>Config\<close>, \<^verbatim>\<open>Auth\<close>, \<^verbatim>\<open>Login\<close>, \<^verbatim>\<open>AuthApi\<close>: \<^verbatim>\<open>common/config.hpp\<close>, the authentication service of
    \<^verbatim>\<open>main.cpp\<close> with its use case, and the authentication controller and middlewares.
  \<^item> \<^verbatim>\<open>Logger\<close>, \<^verbatim>\<open>App\<close>: \<^verbatim>\<open>common/logger.hpp\<close>; \<^verbatim>\<open>initialize_application\<close>, \<^verbatim>\<open>main\<close> and the signal handler it registers.
    The repositories refer to a pool that is freed when the initialization returns (\<open>via_pool\<close>), and the loop of drogon
    takes a sequence of events (\<open>drogon_run\<close>): signals, requests to a route, failures.
  \<^item> \<^verbatim>\<open>Cache\<close>, \<^verbatim>\<open>Broker\<close>: \<^verbatim>\<open>infrastructure/cache/\<close> and \<^verbatim>\<open>infrastructure/messaging/\<close>; the broker has a step
    relation in which consumers wait inside \<^verbatim>\<open>consume\<close>.

  \<^bold>\<open>What the lemmas show.\<close> The use cases do what they promise over PostgreSQL (create, read, update,
  delete, with refusals that leave the table alone) and over HTTP with the status of every branch, so that any sequence of requests is a run of the catalog; any
  traffic keeps the table well-formed and the users as they are, the former also when requests are served at the same time; more requests than connections
  are all answered and every connection comes back; of several
  creations for one stock keeping unit one succeeds; a page of the
  listing is its share of the selected items with the exact total and page count; a failing statement is an
  error that leaves the database alone and gives the connection back. The pool never hands a connection
  to two holders. Per topic the broker is first-in first-out, and eviction from the cache cannot be
  observed. Migrations run in order, each atomically, once, and whatever fails
  in between, records and effects stay in step. The secrets are what the file and the environment say. A login succeeds exactly for the credentials
  of an active user, and saving, deactivating and removing a user show in it; the token it gives carries the
  user's identity through the middleware. The low-stock report is the
  one the entity defines. Texts of identifiers, times and requests read back. The amounts
  and page counts computed in double precision are exact or within a stated bound. Some theorems state what
  the code does where that is not what it means to do: a handle with a closed connection shrinks the pool for ever, a waiting
  consumer can lose its queue, malformed identifiers escape as exceptions, times as PostgreSQL writes them are read as
  midnight, tokens are accepted without a look at their
  signature, refresh tokens pass as access tokens, refreshing fails, refused logins and
  page numbers below one are answered 500, of two overlapping updates one is lost, the start hangs without a database and
  is terminated by an exception when the log file cannot be opened, and
  the first request that gets to the database uses a pool that has been freed.

  \<^bold>\<open>Parameters and bounds.\<close> Libraries are records of the functions called: libpqxx with the database
  (\<open>pqxx\<close>), nlohmann/json (\<open>json_lib\<close>), jwt-cpp (\<open>jwt_lib\<close>), SHA-256, yaml-cpp, the file system, \<^verbatim>\<open>ctime\<close>;
  random draws and clock readings are arguments. Theorems that need laws of a library take them as named
  hypotheses, and each has a witness with an executable instance. The loops of the code are structural
  or have a measure (fuel occurs only in the server of the witnesses, bounded by the length of the query), and blocking (only \<^verbatim>\<open>acquire\<close> and \<^verbatim>\<open>consume\<close> can) is the value \<open>None\<close> or a waiting
  thread of a step relation. Integers have the width of the source; a computation that is undefined in
  C++ is \<open>None\<close> or an argument (\<open>ub\<close>). Signed overflow in the arithmetic of amounts and of page offsets wraps;
  the theorems on listing assume that offset and number of items stay below two to the 31st.

  \<^bold>\<open>Not modelled.\<close> How drogon matches paths and distributes requests over its threads while it runs its loop (the
  theories on concurrent requests take them from the pool while it lives), signals that arrive before the loop, connections
  that break while migrations are applied, spdlog's lines (other than those of the logging middleware and of the signal
  handler), the SQL of the schema, interleavings inside a critical section of pool or broker or inside one transaction, and
  fairness of the condition variable (the theorems say which turns are enough). The theorems on the endpoints speak of
  repositories over a living pool, as the tests of the repository have them; \<^verbatim>\<open>App\<close> says what becomes of them in
  the program as \<^verbatim>\<open>main.cpp\<close> puts it together. The code as
  written does not compile everywhere (an \<^verbatim>\<open>Error\<close> is returned where \<^verbatim>\<open>std::unexpected\<close> is needed, for
  instance in \<^verbatim>\<open>migration.cpp\<close> and \<^verbatim>\<open>config.hpp\<close>); the model takes the evident meaning.
\<close>

end
